(* ===== verification/Prelude.thy ===== *)
theory Prelude
  imports Main "HOL-Library.Word" "HOL-Library.Monad_Syntax"
begin

text \<open>
  The shared vocabulary of the development: the integer types of
  \<^verbatim>\<open>include/base.h\<close>, C strings as byte lists, busy-wait loops, and the
  first-free-slot tables that four components of the kernel use.

  Operations that may fail to return are of type \<open>'s \<Rightarrow> 's option\<close>: the value
  \<open>None\<close> says that the C code has no continuation, because a busy-wait loop never
  ends or because an access is outside the object it addresses.
\<close>

unbundle bit_operations_syntax

named_theorems invs \<open>introduction rules: every operation keeps the component invariant\<close>
named_theorems frames \<open>rewrite rules: what an operation leaves unchanged\<close>

section \<open>The integer types of base.h\<close>

type_synonym BYTE = "8 word"
type_synonym WORD = "16 word"
type_synonym LONG = "32 word"
type_synonym QUAD = "64 word"

lemma and_0xFF: "w AND 0xFF = take_bit 8 w" for w :: "'a::len word"
  by (simp add: take_bit_eq_mask mask_eq_exp_minus_1)

lemma and_0xFFFF: "w AND 0xFFFF = take_bit 16 w" for w :: "'a::len word"
  by (simp add: take_bit_eq_mask mask_eq_exp_minus_1)

lemma ucast_low_byte [simp]: "ucast (w AND 0xFF :: LONG) = (ucast w :: BYTE)"
  by (rule bit_word_eqI) (auto simp: and_0xFF bit_simps)

lemma ucast_low_word [simp]: "ucast (w AND 0xFFFF :: LONG) = (ucast w :: WORD)"
  by (rule bit_word_eqI) (auto simp: and_0xFFFF bit_simps)

lemma ucast_up_down_byte [simp]: "ucast (ucast b :: LONG) = b" for b :: BYTE
  by (rule bit_word_eqI) (auto simp: bit_simps)

lemma ucast_up_down_word [simp]: "ucast (ucast w :: LONG) = w" for w :: WORD
  by (rule bit_word_eqI) (auto simp: bit_simps)

lemma ucast_byte_eq_0 [simp]: "ucast b = (0 :: LONG) \<longleftrightarrow> b = 0" for b :: BYTE
  by (metis ucast_up_down_byte unsigned_0)

lemma ucast_down_up_byte: "ucast (ucast w :: BYTE) = (w AND 0xFF :: LONG)"
  by (rule bit_word_eqI) (auto simp: and_0xFF bit_simps)

lemma unat_bounds:
  "unat (b :: BYTE) < 256" "unat (w :: WORD) < 65536" "unat (n :: LONG) < 4294967296"
  by (rule order.strict_trans2 [OF unsigned_less], simp)+

lemma word_of_nat_unat: "of_nat (unat w) = w" for w :: "'a::len word"
  by (metis of_nat_unat ucast_id)

lemma unat_ucast_byte: "unat (ucast w :: BYTE) = unat w mod 256" for w :: "'a::len word"
  by (simp add: unsigned_ucast_eq take_bit_eq_mod)

lemma unat_ucast_word: "unat (ucast w :: WORD) = unat w mod 65536" for w :: "'a::len word"
  by (simp add: unsigned_ucast_eq take_bit_eq_mod)

lemma unat_ucast_long: "unat (ucast w :: LONG) = unat w mod 4294967296" for w :: "'a::len word"
  by (simp add: unsigned_ucast_eq take_bit_eq_mod)

lemma unat_ucast_quad [simp]: "unat (ucast w :: QUAD) = unat w" for w :: LONG
  using unat_bounds(3) [of w] by (simp add: unsigned_ucast_eq take_bit_eq_mod)

lemma unat_of_nat_small: "n < 2 ^ LENGTH('a) \<Longrightarrow> unat (of_nat n :: 'a::len word) = n"
  by (simp add: unsigned_of_nat take_bit_nat_eq_self)

lemma row_col_eq_iff:
  fixes k :: nat
  assumes "c < k" and "x < k"
  shows "r * k + c = y * k + x \<longleftrightarrow> r = y \<and> c = x"
proof
  assume eq: "r * k + c = y * k + x"
  then have "(r * k + c) div k = (y * k + x) div k" by simp
  with assms have "r = y" by simp
  with eq show "r = y \<and> c = x" by simp
qed simp

section \<open>Strings\<close>

text \<open>A string literal of the source, as the bytes before its terminating NUL.\<close>

definition str :: "string \<Rightarrow> BYTE list" where
  "str cs = map of_char cs"

lemma str_simps [simp]:
  "str [] = []" "str (c # cs) = of_char c # str cs"
  by (simp_all add: str_def)

lemma length_str [simp]: "length (str cs) = length cs"
  by (simp add: str_def)

text \<open>\<open>strncpy\<close> of a string into a whole array, and an array read as a string.\<close>

definition strncpy_array :: "nat \<Rightarrow> BYTE list \<Rightarrow> BYTE list" where
  "strncpy_array n cs = take n (cs @ replicate n 0)"

definition array_str :: "BYTE list \<Rightarrow> BYTE list option" where
  "array_str a = (if 0 \<in> set a then Some (takeWhile (\<lambda>c. c \<noteq> 0) a) else None)"

section \<open>Total correctness\<close>

text \<open>
  A computation returns and its result satisfies \<open>Q\<close>. The rules of the collection
  \<open>wp\<close> take a goal of this form backwards through a sequence of operations.
\<close>

named_theorems wp \<open>rules for goals of the form \<open>returns m Q\<close>\<close>

definition returns :: "'a option \<Rightarrow> ('a \<Rightarrow> bool) \<Rightarrow> bool" where
  "returns m Q \<longleftrightarrow> (\<exists>x. m = Some x \<and> Q x)"

lemma returns_Some [simp]: "returns (Some x) Q = Q x"
  by (simp add: returns_def)

lemma returns_None [simp]: "\<not> returns None Q"
  by (simp add: returns_def)

lemma returns_bind [simp]: "returns (m \<bind> f) Q = returns m (\<lambda>x. returns (f x) Q)"
  by (cases m) simp_all

lemma returns_mono: "returns m P \<Longrightarrow> (\<And>x. P x \<Longrightarrow> Q x) \<Longrightarrow> returns m Q"
  by (auto simp: returns_def)

lemma returnsD: "returns m Q \<Longrightarrow> \<exists>x. m = Some x \<and> Q x"
  by (simp add: returns_def)

lemma returnsI: "m = Some x \<Longrightarrow> Q x \<Longrightarrow> returns m Q"
  by simp

section \<open>Counted loops\<close>

text \<open>A loop over the elements of a list, each step of which may fail to return.\<close>

fun for_each :: "('a \<Rightarrow> 's \<Rightarrow> 's option) \<Rightarrow> 'a list \<Rightarrow> 's \<Rightarrow> 's option" where
  "for_each f [] s = Some s"
| "for_each f (p # ps) s = do { s \<leftarrow> f p s; for_each f ps s }"

lemma for_each_append: "for_each f (ps @ qs) s = for_each f ps s \<bind> for_each f qs"
proof (induction ps arbitrary: s)
  case (Cons p ps)
  then show ?case by (cases "f p s") simp_all
qed simp

lemma for_each_returns:
  assumes "\<And>p s. p \<in> set ps \<Longrightarrow> I s \<Longrightarrow> returns (f p s) I" and "I s"
  shows "returns (for_each f ps s) I"
  using assms
proof (induction ps arbitrary: s)
  case (Cons p ps)
  have "returns (f p s) I" using Cons.prems by simp
  moreover have "returns (for_each f ps t) I" if "I t" for t
    using Cons.prems(1) that by (intro Cons.IH) simp_all
  ultimately show ?case by (auto elim: returns_mono)
qed simp

section \<open>Busy-wait loops\<close>

text \<open>
  The loop \<^verbatim>\<open>while(c());\<close> where evaluating the condition changes the state
  (it reads a device). The loop may never end; then the value is \<open>None\<close>.
\<close>

partial_function (option) spin :: "('s \<Rightarrow> (bool \<times> 's) option) \<Rightarrow> 's \<Rightarrow> 's option" where
  "spin c s = do { (b, t) \<leftarrow> c s; if b then spin c t else Some t }"

lemma spin_stop: "c s = Some (False, t) \<Longrightarrow> spin c s = Some t"
  by (simp add: spin.simps)

lemma spin_again: "c s = Some (True, t) \<Longrightarrow> spin c s = spin c t"
  by (simp add: spin.simps [of c s])

text \<open>Partial correctness: what every poll keeps holds for the result.\<close>

lemma spin_inv:
  assumes ret: "spin c s = Some t"
    and start: "P s"
    and step: "\<And>u b v. P u \<Longrightarrow> c u = Some (b, v) \<Longrightarrow> P v"
  shows "P t"
proof -
  have "c = c \<longrightarrow> P s \<longrightarrow> P t"
  proof (rule spin.raw_induct [where P = "\<lambda>c' s t. c' = c \<longrightarrow> P s \<longrightarrow> P t", OF _ ret], intro impI)
    fix f c' s' t'
    assume IH: "\<And>c' s t. f c' s = Some t \<Longrightarrow> c' = c \<longrightarrow> P s \<longrightarrow> P t"
      and eq: "do { (b, u) \<leftarrow> c' s'; if b then f c' u else Some u } = Some t'"
      and "c' = c" and "P s'"
    then show "P t'"
      by (auto simp: bind_eq_Some_conv dest: step split: if_splits)
  qed
  with start show ?thesis by blast
qed

text \<open>The guard was false at the poll that ended the loop.\<close>

lemma spin_last:
  assumes ret: "spin c s = Some t"
  shows "\<exists>u. c u = Some (False, t)"
proof (rule spin.raw_induct [where P = "\<lambda>c' s t. \<exists>u. c' u = Some (False, t)", OF _ ret])
  fix f c' s' t'
  assume IH: "\<And>c' s t. f c' s = Some t \<Longrightarrow> \<exists>u. c' u = Some (False, t)"
    and eq: "do { (b, u) \<leftarrow> c' s'; if b then f c' u else Some u } = Some t'"
  then show "\<exists>u. c' u = Some (False, t')"
    by (auto simp: bind_eq_Some_conv split: if_splits)
qed

text \<open>A guard that stays true for ever: the loop does not return.\<close>

lemma spin_forever:
  assumes start: "P s"
    and step: "\<And>u. P u \<Longrightarrow> \<exists>v. c u = Some (True, v) \<and> P v"
  shows "spin c s = None"
proof (cases "spin c s")
  case (Some t)
  have "c = c \<longrightarrow> \<not> P s"
  proof (rule spin.raw_induct [where P = "\<lambda>c' s t. c' = c \<longrightarrow> \<not> P s", OF _ Some], intro impI)
    fix f c' s' t'
    assume IH: "\<And>c' s t. f c' s = Some t \<Longrightarrow> c' = c \<longrightarrow> \<not> P s"
      and eq: "do { (b, u) \<leftarrow> c' s'; if b then f c' u else Some u } = Some t'"
      and "c' = c"
    show "\<not> P s'"
    proof
      assume "P s'"
      with step [of s'] \<open>c' = c\<close> obtain u where "c' s' = Some (True, u)" and "P u"
        by auto
      with eq IH [of c' u t'] \<open>c' = c\<close> show False by simp
    qed
  qed
  with start show ?thesis by blast
qed simp

text \<open>Total correctness: a guard that becomes false after \<open>n\<close> more polls ends the loop.\<close>

lemma spin_returns:
  assumes "\<And>i. i < n \<Longrightarrow> c (st i) = Some (True, st (Suc i))"
    and "c (st n) = Some (False, t)"
  shows "spin c (st 0) = Some t"
proof -
  have "spin c (st (n - k)) = Some t" if "k \<le> n" for k
    using that
  proof (induction k)
    case 0
    show ?case using assms(2) by (simp add: spin_stop)
  next
    case (Suc k)
    then have "c (st (n - Suc k)) = Some (True, st (n - k))"
      using assms(1) [of "n - Suc k"] by (simp add: Suc_diff_Suc)
    with Suc show ?case by (simp add: spin_again)
  qed
  from this [of n] show ?thesis by simp
qed

section \<open>Tables of slots\<close>

text \<open>
  The kernel keeps several fixed arrays and takes the first free element of one of them by a
  loop over the array.
\<close>

fun first_free :: "('a \<Rightarrow> bool) \<Rightarrow> 'a list \<Rightarrow> nat option" where
  "first_free free [] = None"
| "first_free free (x # xs) = (if free x then Some 0 else map_option Suc (first_free free xs))"

lemma first_free_Some:
  "first_free free xs = Some i \<Longrightarrow> i < length xs \<and> free (xs ! i) \<and> (\<forall>j < i. \<not> free (xs ! j))"
  by (induction xs arbitrary: i) (auto simp: less_Suc_eq_0_disj split: if_splits)

lemma first_free_None: "first_free free xs = None \<longleftrightarrow> (\<forall>x \<in> set xs. \<not> free x)"
  by (induction xs) auto

definition free_slots :: "('a \<Rightarrow> bool) \<Rightarrow> 'a list \<Rightarrow> nat" where
  "free_slots free xs = length (filter free xs)"

lemma free_slots_take:
  "i < length xs \<Longrightarrow> free (xs ! i) \<Longrightarrow> \<not> free x \<Longrightarrow> free_slots free xs = Suc (free_slots free (xs[i := x]))"
  unfolding free_slots_def
  by (induction xs arbitrary: i) (auto split: nat.splits)

text \<open>A run of allocations, with their results.\<close>

fun alloc_n :: "('s \<Rightarrow> (bool \<times> 's) option) \<Rightarrow> nat \<Rightarrow> 's \<Rightarrow> (bool list \<times> 's) option" where
  "alloc_n alloc 0 s = Some ([], s)"
| "alloc_n alloc (Suc n) s = do {
     (ok, s) \<leftarrow> alloc s;
     (oks, s) \<leftarrow> alloc_n alloc n s;
     Some (ok # oks, s)
   }"

text \<open>How a first-free loop meets the contract below: one case for each result of the search.\<close>

lemma first_free_law:
  assumes "\<And>i. first_free free (slots s) = Some i \<Longrightarrow>
      \<exists>x t. alloc s = Some (True, t) \<and> I t \<and> \<not> free x \<and> slots t = (slots s)[i := x]"
    and "first_free free (slots s) = None \<Longrightarrow>
      \<exists>t. alloc s = Some (False, t) \<and> I t \<and> slots t = slots s"
  shows "\<exists>ok t. alloc s = Some (ok, t) \<and> I t \<and>
    (if ok then \<exists>i x. i < length (slots s) \<and> free (slots s ! i) \<and> \<not> free x \<and> slots t = (slots s)[i := x]
     else (\<forall>x \<in> set (slots s). \<not> free x) \<and> slots t = slots s)"
proof (cases "first_free free (slots s)")
  case None
  from assms(2) [OF this] None show ?thesis
    by (elim exE, intro exI [of _ False] exI) (auto simp: first_free_None)
next
  case (Some i)
  from assms(1) [OF this] first_free_Some [OF Some] show ?thesis
    by (elim exE, intro exI [of _ True] exI) auto
qed

text \<open>
  The contract of such a table: an allocation takes one free slot or reports that there is
  none, and never touches a slot in use.
\<close>

locale slot_table =
  fixes inv :: "'s \<Rightarrow> bool"
    and slots :: "'s \<Rightarrow> 'a list"
    and free :: "'a \<Rightarrow> bool"
    and alloc :: "'s \<Rightarrow> (bool \<times> 's) option"
  assumes alloc_law: "inv s \<Longrightarrow> \<exists>ok t. alloc s = Some (ok, t) \<and> inv t \<and>
    (if ok then \<exists>i x. i < length (slots s) \<and> free (slots s ! i) \<and> \<not> free x \<and> slots t = (slots s)[i := x]
     else (\<forall>x \<in> set (slots s). \<not> free x) \<and> slots t = slots s)"
begin

text \<open>Allocations succeed as long as there is a free slot, and then fail.\<close>

lemma alloc_n_results:
  assumes "inv s"
  shows "\<exists>t. alloc_n alloc n s = Some (map (\<lambda>i. i < free_slots free (slots s)) [0..<n], t) \<and> inv t \<and>
    length (slots t) = length (slots s) \<and>
    (\<forall>j < length (slots s). \<not> free (slots s ! j) \<longrightarrow> slots t ! j = slots s ! j)"
  using assms
proof (induction n arbitrary: s)
  case (Suc n)
  obtain ok u where u: "alloc s = Some (ok, u)" "inv u"
    and law: "if ok then \<exists>i x. i < length (slots s) \<and> free (slots s ! i) \<and> \<not> free x \<and>
        slots u = (slots s)[i := x]
      else (\<forall>x \<in> set (slots s). \<not> free x) \<and> slots u = slots s"
    using alloc_law [OF Suc.prems] by blast
  obtain t where t: "alloc_n alloc n u = Some (map (\<lambda>i. i < free_slots free (slots u)) [0..<n], t)"
    "inv t" "length (slots t) = length (slots u)"
    "\<forall>j < length (slots u). \<not> free (slots u ! j) \<longrightarrow> slots t ! j = slots u ! j"
    using Suc.IH [OF u(2)] by blast
  have split: "map f [0..<Suc n] = f 0 # map (\<lambda>i. f (Suc i)) [0..<n]" for f :: "nat \<Rightarrow> bool"
    by (subst upt_conv_Cons) (simp_all add: map_Suc_upt [symmetric] del: upt_Suc)
  show ?case
  proof (cases ok)
    case True
    with law obtain i x where i: "i < length (slots s)" "free (slots s ! i)" "\<not> free x"
      "slots u = (slots s)[i := x]" by auto
    then have "free_slots free (slots s) = Suc (free_slots free (slots u))"
      by (simp add: free_slots_take)
    with True u(1) t i show ?thesis
      unfolding split by (auto simp: nth_list_update split: if_splits)
  next
    case False
    with law have "free_slots free (slots s) = 0" and "slots u = slots s"
      by (simp_all add: free_slots_def filter_empty_conv)
    with False u(1) t show ?thesis unfolding split by simp
  qed
qed simp

end

end
