(* ===== verification/Machine.thy ===== *)
theory Machine
  imports Prelude
begin

text \<open>
  The machine below the kernel: physical memory (the kernel runs with paging off, so
  an address is a physical address) and the I/O instructions of
  \<^verbatim>\<open>include/port.h\<close>.

  The hardware is not part of the program. It is the field \<open>hw\<close> of the state, an
  arbitrary function from the history of all accesses and the next access to the value
  that access reads, so a theorem about a state holds for every (deterministic) device
  behaviour; what a theorem needs of a device is a hypothesis on \<open>hw\<close>.
\<close>

datatype io_req =
    Port8 WORD
  | Port16 WORD
  | Port32 WORD
  | Mmio8 LONG
  | Mmio16 LONG
  | Mmio32 LONG

datatype io_event = Rd io_req LONG | Wr io_req LONG

record machine =
  hw :: "io_event list \<Rightarrow> io_req \<Rightarrow> LONG"
  io_log :: "io_event list"  \<comment> \<open>the latest access first\<close>
  mem :: "LONG \<Rightarrow> BYTE"

definition io_read :: "io_req \<Rightarrow> LONG \<Rightarrow> 'a machine_scheme \<Rightarrow> LONG \<times> 'a machine_scheme" where
  "io_read r m s =
     (let v = hw s (io_log s) r AND m in (v, s\<lparr>io_log := Rd r v # io_log s\<rparr>))"

definition io_write :: "io_req \<Rightarrow> LONG \<Rightarrow> 'a machine_scheme \<Rightarrow> 'a machine_scheme" where
  "io_write r v s = s\<lparr>io_log := Wr r v # io_log s\<rparr>"

text \<open>
  \<open>inb\<close> and \<open>outb\<close> declare their port as a \<open>LONG\<close> and pass it in \<open>dx\<close>, which
  keeps its low sixteen bits.
\<close>

definition inb :: "LONG \<Rightarrow> 'a machine_scheme \<Rightarrow> BYTE \<times> 'a machine_scheme" where
  "inb port s = (case io_read (Port8 (ucast port)) 0xFF s of (v, s) \<Rightarrow> (ucast v, s))"

definition outb :: "LONG \<Rightarrow> BYTE \<Rightarrow> 'a machine_scheme \<Rightarrow> 'a machine_scheme" where
  "outb port v s = io_write (Port8 (ucast port)) (ucast v) s"

definition inw :: "WORD \<Rightarrow> 'a machine_scheme \<Rightarrow> WORD \<times> 'a machine_scheme" where
  "inw port s = (case io_read (Port16 port) 0xFFFF s of (v, s) \<Rightarrow> (ucast v, s))"

definition outw :: "WORD \<Rightarrow> WORD \<Rightarrow> 'a machine_scheme \<Rightarrow> 'a machine_scheme" where
  "outw port v s = io_write (Port16 port) (ucast v) s"

definition inl :: "WORD \<Rightarrow> 'a machine_scheme \<Rightarrow> LONG \<times> 'a machine_scheme" where
  "inl port s = io_read (Port32 port) (- 1) s"

definition outl :: "WORD \<Rightarrow> LONG \<Rightarrow> 'a machine_scheme \<Rightarrow> 'a machine_scheme" where
  "outl port v s = io_write (Port32 port) v s"

section \<open>What an access changes\<close>

text \<open>
  Every access adds one event to the log and changes nothing else. Stated as
  rewrite rules to an update of \<open>io_log\<close>, which the record package's own rules then
  carry to every field.
\<close>

lemma outb_eq [frames]: "outb p v s = s\<lparr>io_log := Wr (Port8 (ucast p)) (ucast v) # io_log s\<rparr>"
  by (simp add: outb_def io_write_def)

lemma outw_eq [frames]: "outw p v s = s\<lparr>io_log := Wr (Port16 p) (ucast v) # io_log s\<rparr>"
  by (simp add: outw_def io_write_def)

lemma outl_eq [frames]: "outl p v s = s\<lparr>io_log := Wr (Port32 p) v # io_log s\<rparr>"
  by (simp add: outl_def io_write_def)

lemma inb_eq [frames]:
  "inb p s =
     (let r = Port8 (ucast p); v = hw s (io_log s) r
      in (ucast v, s\<lparr>io_log := Rd r (v AND 0xFF) # io_log s\<rparr>))"
  by (simp add: inb_def io_read_def Let_def)

lemma inl_eq [frames]:
  "inl p s =
     (let v = hw s (io_log s) (Port32 p)
      in (v, s\<lparr>io_log := Rd (Port32 p) v # io_log s\<rparr>))"
  by (simp add: inl_def io_read_def Let_def)

end
