(* ===== verification/Serial.thy ===== *)
theory Serial
  imports Machine
begin

text \<open>
  The serial port driver, \<^verbatim>\<open>dev/serial.c\<close>. Its state is the array
  \<open>serial_status\<close>, one byte for each of the four ports. An operation on a port number
  outside the two arrays has no continuation (\<open>None\<close>).
\<close>

record serial = machine +
  serial_status :: "BYTE list"

definition serial_hwport :: "WORD list" where
  "serial_hwport = [0x3f8, 0x2f8, 0x3e8, 0x2e8]"

definition hwport_at :: "WORD \<Rightarrow> LONG option" where
  "hwport_at port =
     (if unat port < length serial_hwport then Some (ucast (serial_hwport ! unat port)) else None)"

definition serial_setup :: "'a serial_scheme \<Rightarrow> 'a serial_scheme" where
  "serial_setup s = s\<lparr>serial_status := replicate 4 0\<rparr>"

definition serial_setup_port :: "WORD \<Rightarrow> 'a serial_scheme \<Rightarrow> 'a serial_scheme option" where
  "serial_setup_port port s = do {
     hwport \<leftarrow> hwport_at port;
     let s = outb (hwport + 1) 0x00 s;
     let s = outb (hwport + 3) 0x80 s;
     let s = outb (hwport + 0) 0x01 s;
     let s = outb (hwport + 1) 0x00 s;
     let s = outb (hwport + 3) 0x03 s;
     let s = outb (hwport + 2) 0xC7 s;
     let s = outb (hwport + 4) 0x0B s;
     Some (s\<lparr>serial_status := (serial_status s)[unat port := 1]\<rparr>)
   }"

definition serial_enabled :: "WORD \<Rightarrow> 'a serial_scheme \<Rightarrow> LONG option" where
  "serial_enabled port s =
     (if unat port < length (serial_status s)
      then Some (ucast (serial_status s ! unat port)) else None)"

definition serial_available :: "WORD \<Rightarrow> 'a serial_scheme \<Rightarrow> (LONG \<times> 'a serial_scheme) option" where
  "serial_available port s = do {
     hwport \<leftarrow> hwport_at port;
     let (v, s) = inb (hwport + 5) s;
     Some (ucast v AND 1, s)
   }"

definition serial_empty :: "WORD \<Rightarrow> 'a serial_scheme \<Rightarrow> (LONG \<times> 'a serial_scheme) option" where
  "serial_empty port s = do {
     hwport \<leftarrow> hwport_at port;
     let (v, s) = inb (hwport + 5) s;
     Some (ucast v AND 0x20, s)
   }"

definition serial_read :: "WORD \<Rightarrow> 'a serial_scheme \<Rightarrow> (BYTE \<times> 'a serial_scheme) option" where
  "serial_read port s = do {
     s \<leftarrow> spin (\<lambda>s. do { (v, s) \<leftarrow> serial_available port s; Some (v = 0, s) }) s;
     hwport \<leftarrow> hwport_at port;
     Some (inb hwport s)
   }"

definition serial_write :: "WORD \<Rightarrow> BYTE \<Rightarrow> 'a serial_scheme \<Rightarrow> 'a serial_scheme option" where
  "serial_write port data s = do {
     hwport \<leftarrow> hwport_at port;
     s \<leftarrow> spin (\<lambda>s. do { (v, s) \<leftarrow> serial_empty port s; Some (v = 0, s) }) s;
     if data = 10 then
       (let s = outb hwport 13 s;
            s = outb hwport 10 s
        in Some s)
     else Some (outb hwport data s)
   }"

section \<open>What the driver sends\<close>

text \<open>The bytes written to a port so far, in the order they were written.\<close>

fun tx_bytes :: "WORD \<Rightarrow> io_event list \<Rightarrow> BYTE list" where
  "tx_bytes p [] = []"
| "tx_bytes p (Wr (Port8 q) v # l) = tx_bytes p l @ (if q = p then [ucast v] else [])"
| "tx_bytes p (e # l) = tx_bytes p l"

text \<open>A byte as the driver sends it: a newline becomes CR LF.\<close>

definition crlf :: "BYTE \<Rightarrow> BYTE list" where
  "crlf c = (if c = 10 then [13, 10] else [c])"

text \<open>Polling a status register changes nothing but the log, and appends only reads to it.\<close>

definition polled :: "'a machine_scheme \<Rightarrow> 'a machine_scheme \<Rightarrow> bool" where
  "polled s t \<longleftrightarrow> (\<exists>k. t = s\<lparr>io_log := k @ io_log s\<rparr> \<and> (\<forall>e \<in> set k. \<exists>r v. e = Rd r v))"

lemma polled_refl [simp]: "polled s s"
  unfolding polled_def by (rule exI [of _ "[]"]) simp

lemma polled_Rd:
  assumes "polled s t"
  shows "polled s (t\<lparr>io_log := Rd r v # io_log t\<rparr>)"
proof -
  from assms obtain k where k: "t = s\<lparr>io_log := k @ io_log s\<rparr>" "\<forall>e \<in> set k. \<exists>r v. e = Rd r v"
    by (auto simp: polled_def)
  then show ?thesis unfolding polled_def
    by (intro exI [of _ "Rd r v # k"]) simp
qed

lemma polled_inb: "polled s t \<Longrightarrow> polled s (snd (inb p t))"
  by (simp add: frames Let_def polled_Rd)

lemma polledE:
  assumes "polled s t"
  obtains k where "t = s\<lparr>io_log := k @ io_log s\<rparr>" and "\<forall>e \<in> set k. \<exists>r v. e = Rd r v"
  using assms by (auto simp: polled_def)

lemma tx_bytes_Rd [simp]: "tx_bytes p (Rd r v # l) = tx_bytes p l"
  by (cases r) simp_all

lemma tx_bytes_reads: "\<forall>e \<in> set k. \<exists>r v. e = Rd r v \<Longrightarrow> tx_bytes p (k @ l) = tx_bytes p l"
  by (induction k) auto

lemma serial_poll_polled:
  assumes "spin (\<lambda>s. do { (v, s) \<leftarrow> serial_empty port s; Some (v = 0, s) }) s = Some t"
  shows "polled s t"
  using assms
proof (rule spin_inv)
  fix u b v
  assume "polled s u" and "do { (v, s) \<leftarrow> serial_empty port u; Some (v = 0, s) } = Some (b, v)"
  then show "polled s v"
    by (auto simp: serial_empty_def bind_eq_Some_conv case_prod_unfold Let_def intro: polled_inb)
qed simp

lemma serial_writeE:
  assumes "serial_write port data s = Some t"
  obtains h k where "hwport_at port = Some h"
    and "t = s\<lparr>io_log := map (\<lambda>c. Wr (Port8 (ucast h)) (ucast c)) (rev (crlf data)) @ k @ io_log s\<rparr>"
    and "\<forall>e \<in> set k. \<exists>r v. e = Rd r v"
proof -
  from assms obtain h u where h: "hwport_at port = Some h" and "polled s u"
    and t: "t = u\<lparr>io_log := map (\<lambda>c. Wr (Port8 (ucast h)) (ucast c)) (rev (crlf data)) @ io_log u\<rparr>"
    by (auto simp: serial_write_def crlf_def bind_eq_Some_conv Let_def frames
        dest!: serial_poll_polled split: if_splits)
  from \<open>polled s u\<close> obtain k where "u = s\<lparr>io_log := k @ io_log s\<rparr>"
    and "\<forall>e \<in> set k. \<exists>r v. e = Rd r v" by (rule polledE)
  with t h show thesis by (intro that [of h k]) simp_all
qed

lemma tx_bytes_writes:
  "tx_bytes p (map (\<lambda>c. Wr (Port8 p) (ucast c)) (rev cs) @ l) = tx_bytes p l @ cs"
  by (induction cs rule: rev_induct) auto

lemma serial_write_tx:
  assumes "serial_write port data s = Some t" and "hwport_at port = Some h"
  shows "tx_bytes (ucast h) (io_log t) = tx_bytes (ucast h) (io_log s) @ crlf data"
  using assms by (auto elim!: serial_writeE simp: tx_bytes_writes tx_bytes_reads)

text \<open>A driver whose transmitter is ready returns after one poll of the line status.\<close>

lemma serial_write_ready:
  assumes h: "hwport_at port = Some h"
    and ready: "hw s (io_log s) (Port8 (ucast (h + 5))) AND 0x20 \<noteq> 0"
  shows "\<exists>t. serial_write port data s = Some t"
  using assms
  by (simp add: serial_write_def serial_empty_def frames Let_def spin.simps
      ucast_down_up_byte and.assoc)

text \<open>A transmitter that never becomes ready makes the driver spin for ever.\<close>

lemma serial_write_stuck:
  assumes h: "hwport_at port = Some h"
    and stuck: "\<And>l. hw s l (Port8 (ucast (h + 5))) AND 0x20 = 0"
  shows "serial_write port data s = None"
proof -
  have "spin (\<lambda>s. do { (v, s) \<leftarrow> serial_empty port s; Some (v = 0, s) }) s = None"
    by (rule spin_forever [where P = "\<lambda>u. hw u = hw s"])
      (simp_all add: serial_empty_def h stuck frames Let_def ucast_down_up_byte and.assoc)
  then show ?thesis by (simp add: serial_write_def h)
qed

end
