(* ===== verification/Digits.thy ===== *)
theory Digits
  imports Prelude
begin

text \<open>
  Positional notation, the reference for the number printers of
  \<^verbatim>\<open>kernel/text.c\<close> and for \<open>itoa\<close> of \<^verbatim>\<open>libc/stdlib.c\<close>: the digits of a
  number in a base, most significant first, their value, and their characters.
\<close>

fun digits :: "nat \<Rightarrow> nat \<Rightarrow> nat list" where
  "digits b n = (if b < 2 \<or> n < b then [n] else digits b (n div b) @ [n mod b])"

declare digits.simps [simp del]

definition digits_value :: "nat \<Rightarrow> nat list \<Rightarrow> nat" where
  "digits_value b ds = foldl (\<lambda>v d. v * b + d) 0 ds"

text \<open>The lowest \<open>k\<close> digits, with leading zeros.\<close>

fun low_digits :: "nat \<Rightarrow> nat \<Rightarrow> nat \<Rightarrow> nat list" where
  "low_digits b 0 n = []"
| "low_digits b (Suc k) n = low_digits b k (n div b) @ [n mod b]"

definition digit_char :: "nat \<Rightarrow> BYTE" where
  "digit_char d = (if d < 10 then of_nat (48 + d) else of_nat (87 + d))"

lemma digit_char_nonzero: "d < 36 \<Longrightarrow> digit_char d \<noteq> 0"
proof -
  assume "d < 36"
  then have "\<not> 256 dvd 48 + d" and "\<not> 256 dvd 87 + d"
    by (auto dest: dvd_imp_le)
  then show ?thesis
    by (simp add: digit_char_def word_of_nat_eq_0_iff del: of_nat_add)
qed

lemma digits_small: "n < b \<Longrightarrow> digits b n = [n]"
  by (simp add: digits.simps)

lemma digits_large: "2 \<le> b \<Longrightarrow> b \<le> n \<Longrightarrow> digits b n = digits b (n div b) @ [n mod b]"
  by (subst digits.simps) simp

lemma digits_nonempty [simp]: "digits b n \<noteq> []"
  by (subst digits.simps) simp

lemma digits_value_snoc [simp]: "digits_value b (ds @ [d]) = digits_value b ds * b + d"
  by (simp add: digits_value_def)

theorem digits_value_digits: "2 \<le> b \<Longrightarrow> digits_value b (digits b n) = n"
proof (induction b n rule: digits.induct)
  case (1 b n)
  then show ?case
    by (cases "n < b") (simp_all add: digits_small digits_large digits_value_def [of b "[n]"])
qed

lemma digits_bounded: "2 \<le> b \<Longrightarrow> d \<in> set (digits b n) \<Longrightarrow> d < b"
proof (induction b n rule: digits.induct)
  case (1 b n)
  then show ?case
    by (cases "n < b") (auto simp: digits_small digits_large)
qed

lemma digits_hd_nonzero: "2 \<le> b \<Longrightarrow> n \<noteq> 0 \<Longrightarrow> hd (digits b n) \<noteq> 0"
proof (induction b n rule: digits.induct)
  case (1 b n)
  then show ?case
    by (cases "n < b") (auto simp: digits_small digits_large div_eq_0_iff)
qed

lemma digits_length_bound: "2 \<le> b \<Longrightarrow> n < b ^ k \<Longrightarrow> 0 < k \<Longrightarrow> length (digits b n) \<le> k"
proof (induction b n arbitrary: k rule: digits.induct)
  case (1 b n)
  show ?case
  proof (cases "n < b")
    case True
    with "1.prems" show ?thesis by (simp add: digits_small)
  next
    case False
    with "1.prems" obtain j where k: "k = Suc (Suc j)"
      by (metis Suc_pred not0_implies_Suc power_one_right One_nat_def)
    from "1.prems" False k have "n div b < b ^ Suc j"
      by (simp add: less_mult_imp_div_less mult.commute)
    with "1.IH" [of "Suc j"] "1.prems" False k show ?thesis
      by (simp add: digits_large)
  qed
qed

lemma digits_correct:
  "2 \<le> b \<Longrightarrow> digits_value b (digits b n) = n \<and> (\<forall>d \<in> set (digits b n). d < b) \<and>
     (n \<noteq> 0 \<longrightarrow> hd (digits b n) \<noteq> 0)"
  by (auto simp: digits_value_digits dest: digits_bounded digits_hd_nonzero)

section \<open>Printing from the most significant digit\<close>

lemma low_digits_top:
  "low_digits b (Suc k) n = (n div b ^ k mod b) # low_digits b k n"
  by (induction k arbitrary: n) (simp_all add: div_mult2_eq)

lemma low_digits_mod: "low_digits b k (n mod b ^ k) = low_digits b k n"
proof (induction k arbitrary: n)
  case (Suc k)
  have "n mod b ^ Suc k div b = n div b mod b ^ k"
    by (cases "b = 0") (simp_all add: mod_mult2_eq)
  moreover have "n mod b ^ Suc k mod b = n mod b"
    by (simp add: mod_mod_cancel)
  ultimately show ?case by (simp only: low_digits.simps Suc.IH)
qed simp

lemma digits_low_digits:
  assumes "2 \<le> b" and "n < b ^ Suc k" and "n div b ^ k \<noteq> 0"
  shows "digits b n = low_digits b (Suc k) n"
  using assms(2,3)
proof (induction k arbitrary: n)
  case 0
  then show ?case by (simp add: digits_small)
next
  case (Suc k)
  have big: "b \<le> n"
  proof (rule ccontr)
    assume "\<not> b \<le> n"
    then have "n div b = 0" by simp
    with Suc.prems(2) show False by (simp add: div_mult2_eq)
  qed
  have "n div b < b ^ Suc k"
    using Suc.prems(1) by (simp add: less_mult_imp_div_less mult.commute)
  moreover have "n div b div b ^ k \<noteq> 0"
    using Suc.prems(2) by (simp add: div_mult2_eq)
  ultimately have "digits b (n div b) = low_digits b (Suc k) (n div b)"
    by (rule Suc.IH)
  with big assms(1) show ?case by (simp add: digits_large)
qed

text \<open>
  Printing from the most significant of \<open>k\<close> positions and skipping zeros until the first
  non-zero digit: the loop of \<open>putn2\<close> and \<open>putn16\<close>.
\<close>

fun skip_zeros :: "nat \<Rightarrow> nat \<Rightarrow> bool \<Rightarrow> nat \<Rightarrow> nat list" where
  "skip_zeros b 0 z n = []"
| "skip_zeros b (Suc j) z n =
     (let d = n div b ^ j mod b
      in if d = 0 \<and> \<not> z then skip_zeros b j z n else d # skip_zeros b j True n)"

lemma skip_zeros_True: "skip_zeros b k True n = low_digits b k n"
  by (induction k) (simp_all only: skip_zeros.simps low_digits_top low_digits.simps(1) Let_def, simp)

lemma mod_power_Suc: "n mod b ^ Suc k = (n div b ^ k mod b) * b ^ k + n mod b ^ k" for n :: nat
  using mod_mult2_eq [of n "b ^ k" b] by (simp add: mult.commute)

lemma skip_zeros_False:
  assumes "2 \<le> b"
  shows "skip_zeros b k False n = (if n mod b ^ k = 0 then [] else digits b (n mod b ^ k))"
proof (induction k)
  case 0
  then show ?case by simp
next
  case (Suc k)
  let ?d = "n div b ^ k mod b"
  show ?case
  proof (cases "?d = 0")
    case True
    then have "n mod b ^ Suc k = n mod b ^ k" by (simp add: mod_power_Suc del: power_Suc)
    with True Suc show ?thesis by simp
  next
    case False
    let ?m = "n mod b ^ Suc k"
    have div: "?m div b ^ k = ?d"
      using assms by (simp add: mod_power_Suc del: power_Suc)
    have "digits b ?m = low_digits b (Suc k) ?m"
      using assms False div by (intro digits_low_digits) simp_all
    also have "\<dots> = ?d # low_digits b k n"
      by (simp only: low_digits_mod low_digits_top)
    finally have "digits b ?m = ?d # low_digits b k n" .
    moreover have "?m \<noteq> 0"
      using div False by (metis div_0)
    ultimately show ?thesis
      using False by (simp add: skip_zeros_True Let_def)
  qed
qed

end
