(* ===== verification/Text.thy ===== *)
theory Text
  imports Serial Digits
begin

text \<open>
  The VGA text console, \<^verbatim>\<open>kernel/text.c\<close>: the file's static variables are the
  fields of the record \<open>console\<close>. The text memory at 0xB8000 is the array \<open>vram\<close>
  of 16-bit cells, addressed from \<open>TEXTMEM\<close>; it is a field of its own because no other
  code of the kernel reaches that memory. The argument of \<open>puts\<close> is the contents of
  the C string, the bytes before its NUL.
\<close>

record console = serial +
  vram :: "nat \<Rightarrow> WORD"
  text_x :: BYTE
  text_y :: BYTE
  strm :: BYTE
  fg :: BYTE
  bg :: BYTE

section \<open>The console operations\<close>

definition upd_cur :: "'a console_scheme \<Rightarrow> 'a console_scheme" where
  "upd_cur s =
     (let pos = ucast (text_y s) * 80 + ucast (text_x s) :: WORD;
          s = outb 0x3D4 0x0F s;
          s = outb 0x3D5 (ucast (pos AND 0xff)) s;
          s = outb 0x3D4 0x0E s;
          s = outb 0x3D5 (ucast (drop_bit 8 pos)) s
      in s)"

definition scroll :: "'a console_scheme \<Rightarrow> 'a console_scheme" where
  "scroll s =
     (let s = s\<lparr>vram := fold (\<lambda>a v. v(a := v (a + 80))) [0..<2000] (vram s)\<rparr>;
          s = s\<lparr>vram := fold (\<lambda>a v. v(a := 0)) [1920..<2000] (vram s)\<rparr>
      in s)"

definition move_cur :: "'a console_scheme \<Rightarrow> 'a console_scheme" where
  "move_cur s =
     (let s = s\<lparr>text_x := text_x s + 1\<rparr>;
          s = (if text_x s \<ge> 80 then s\<lparr>text_x := 0, text_y := text_y s + 1\<rparr> else s);
          s = (if text_y s \<ge> 25 then scroll (s\<lparr>text_y := 24\<rparr>) else s)
      in if strm s = 0 then upd_cur s else s)"

text \<open>
  A cell is \<^verbatim>\<open>((bg << 4 | fg) << 8) | c\<close>, computed in \<open>int\<close> and stored as a
  \<open>WORD\<close>; \<open>char\<close> is signed, so \<open>c\<close> is sign-extended.
\<close>

definition text_cell :: "BYTE \<Rightarrow> BYTE \<Rightarrow> BYTE \<Rightarrow> WORD" where
  "text_cell b f c =
     ucast (push_bit 8 (push_bit 4 (ucast b) OR ucast f) OR (scast c :: LONG) :: LONG)"

definition put_vga :: "BYTE \<Rightarrow> 'a console_scheme \<Rightarrow> 'a console_scheme" where
  "put_vga c s =
     (if c = 10 then move_cur (s\<lparr>text_y := text_y s + 1, text_x := 255\<rparr>)
      else if c = 8 then
        (if text_x s \<noteq> 0 then s\<lparr>text_x := text_x s - 1\<rparr>
         else if text_y s \<noteq> 0 then s\<lparr>text_y := text_y s - 1, text_x := 79\<rparr>
         else s\<lparr>text_x := 0\<rparr>)
      else
        (let a = unat (text_y s) * 80 + unat (text_x s)
         in move_cur (s\<lparr>vram := (vram s)(a := text_cell (bg s) (fg s) c)\<rparr>)))"

definition put :: "BYTE \<Rightarrow> 'a console_scheme \<Rightarrow> 'a console_scheme option" where
  "put c s = do {
     on \<leftarrow> serial_enabled 0 s;
     s \<leftarrow> (if on \<noteq> 0 then serial_write 0 c s else Some s);
     Some (put_vga c s)
   }"

fun put_all :: "BYTE list \<Rightarrow> 'a console_scheme \<Rightarrow> 'a console_scheme option" where
  "put_all [] s = Some s"
| "put_all (c # cs) s = do { s \<leftarrow> put c s; put_all cs s }"

definition clear :: "'a console_scheme \<Rightarrow> 'a console_scheme" where
  "clear s =
     (let s = s\<lparr>vram := fold (\<lambda>a v. v(a := 0)) [0..<0x2000] (vram s)\<rparr>
      in upd_cur (s\<lparr>text_x := 0, text_y := 0\<rparr>))"

definition puts :: "BYTE list \<Rightarrow> 'a console_scheme \<Rightarrow> 'a console_scheme option" where
  "puts cs s = do {
     s \<leftarrow> put_all cs (s\<lparr>strm := 1\<rparr>);
     Some (upd_cur (s\<lparr>strm := 0\<rparr>))
   }"

definition puts_int :: "BYTE list \<Rightarrow> 'a console_scheme \<Rightarrow> 'a console_scheme option" where
  "puts_int cs s = do {
     s \<leftarrow> put_all cs (s\<lparr>strm := 1\<rparr>);
     Some (s\<lparr>strm := 0\<rparr>)
   }"

section \<open>The number printers\<close>

fun putn2_loop :: "nat \<Rightarrow> bool \<Rightarrow> LONG \<Rightarrow> 'a console_scheme \<Rightarrow> 'a console_scheme option" where
  "putn2_loop 0 z n s = Some s"
| "putn2_loop (Suc j) z n s =
     (if drop_bit j n AND 1 \<noteq> 0 then do { s \<leftarrow> put 49 s; putn2_loop j True n s }
      else if z then do { s \<leftarrow> put 48 s; putn2_loop j z n s }
      else putn2_loop j z n s)"

definition putn2 :: "LONG \<Rightarrow> 'a console_scheme \<Rightarrow> 'a console_scheme option" where
  "putn2 n s = (if n = 0 then put 48 s else putn2_loop 31 False n s)"

definition hex_map :: "BYTE list" where
  "hex_map = str ''0123456789abcdef''"

fun putn16_loop :: "nat \<Rightarrow> bool \<Rightarrow> LONG \<Rightarrow> 'a console_scheme \<Rightarrow> 'a console_scheme option" where
  "putn16_loop 0 z n s = Some s"
| "putn16_loop (Suc j) z n s =
     (let c = hex_map ! unat (drop_bit (j * 4) n AND 0xf)
      in if c = 48 then
           (if z then do { s \<leftarrow> put c s; putn16_loop j z n s } else putn16_loop j z n s)
         else do { s \<leftarrow> put c s; putn16_loop j True n s })"

definition putn16 :: "LONG \<Rightarrow> 'a console_scheme \<Rightarrow> 'a console_scheme option" where
  "putn16 n s = (if n = 0 then put 48 s else putn16_loop 8 False n s)"

text \<open>
  \<open>putn10\<close> fills \<open>buf\<close> from its end. The loop \<open>while(i--)\<close> leaves the index of the
  last digit written, or wraps to 0xffffffff when it runs out of buffer.
\<close>

fun putn10_loop :: "nat \<Rightarrow> LONG \<Rightarrow> BYTE list \<Rightarrow> LONG \<times> BYTE list" where
  "putn10_loop 0 n buf = (- 1, buf)"
| "putn10_loop (Suc i) n buf =
     (let a = n mod 10;
          buf = buf[i := 48 + ucast a];
          n = (n - a) div 10
      in if n = 0 then (of_nat i, buf) else putn10_loop i n buf)"

definition putn10 :: "LONG \<Rightarrow> 'a console_scheme \<Rightarrow> 'a console_scheme option" where
  "putn10 n s =
     (if n = 0 then put 48 s
      else (case putn10_loop 31 n (replicate 33 0) of
              (i, buf) \<Rightarrow> puts (takeWhile (\<lambda>c. c \<noteq> 0) (drop (unat i) (buf[31 := 0]))) s))"

definition putn :: "LONG \<Rightarrow> LONG \<Rightarrow> 'a console_scheme \<Rightarrow> 'a console_scheme option" where
  "putn n base s =
     (if base = 2 then putn2 n s else if base = 16 then putn16 n s else putn10 n s)"

section \<open>What printing leaves alone\<close>

text \<open>
  Printing changes the log, the text memory, the cursor and the string mode, and nothing
  else of the kernel. Every printing operation satisfies \<open>printed\<close>, so a component
  that prints gets its own fields back unchanged.
\<close>

definition printed :: "'a console_scheme \<Rightarrow> 'a console_scheme \<Rightarrow> bool" where
  "printed s t \<longleftrightarrow>
     hw t = hw s \<and> mem t = mem s \<and> serial_status t = serial_status s \<and>
     fg t = fg s \<and> bg t = bg s \<and> console.more t = console.more s"

lemma printed_refl [simp]: "printed s s"
  by (simp add: printed_def)

lemma printed_trans [trans]: "printed s t \<Longrightarrow> printed t u \<Longrightarrow> printed s u"
  by (simp add: printed_def)

text \<open>
  As an equation, which the record package's rules carry to the fields of every extension
  of the record.
\<close>

lemma printedE:
  assumes "printed s t"
  obtains l v x y m where "t = s\<lparr>io_log := l, vram := v, text_x := x, text_y := y, strm := m\<rparr>"
proof
  show "t = s\<lparr>io_log := io_log t, vram := vram t, text_x := text_x t, text_y := text_y t,
      strm := strm t\<rparr>"
    using assms by (intro console.equality) (simp_all add: printed_def)
qed

lemma upd_cur_fields [simp]:
  "text_x (upd_cur s) = text_x s" "text_y (upd_cur s) = text_y s"
  "vram (upd_cur s) = vram s" "strm (upd_cur s) = strm s"
  by (simp_all add: upd_cur_def frames Let_def)

lemma upd_cur_printed [simp]: "printed s (upd_cur s)"
  by (simp add: printed_def upd_cur_def frames Let_def)

lemma scroll_fields [simp]:
  "text_x (scroll s) = text_x s" "text_y (scroll s) = text_y s" "strm (scroll s) = strm s"
  "io_log (scroll s) = io_log s"
  by (simp_all add: scroll_def Let_def)

lemma printed_simps [simp]:
  "printed s (t\<lparr>text_x := x\<rparr>) = printed s t" "printed s (t\<lparr>text_y := y\<rparr>) = printed s t"
  "printed s (t\<lparr>strm := m\<rparr>) = printed s t" "printed s (t\<lparr>vram := v\<rparr>) = printed s t"
  "printed s (t\<lparr>io_log := l\<rparr>) = printed s t" "printed s (scroll t) = printed s t"
  "printed s (upd_cur t) = printed s t"
  by (simp_all add: printed_def scroll_def upd_cur_def frames Let_def)

lemma move_cur_printed [simp]: "printed s (move_cur t) = printed s t"
  by (simp add: move_cur_def Let_def)

lemma put_vga_printed [simp]: "printed s (put_vga c t) = printed s t"
  by (simp add: put_vga_def Let_def)

lemma serial_write_printed: "serial_write p c s = Some t \<Longrightarrow> printed s t"
  by (auto elim!: serial_writeE)

lemma put_printed: "put c s = Some t \<Longrightarrow> printed s t"
  by (auto simp: put_def bind_eq_Some_conv split: if_splits dest: serial_write_printed)

lemma put_all_printed: "put_all cs s = Some t \<Longrightarrow> printed s t"
  by (induction cs arbitrary: s)
    (auto simp: bind_eq_Some_conv dest: put_printed intro: printed_trans)

lemma puts_printed: "puts cs s = Some t \<Longrightarrow> printed s t"
  by (auto simp: puts_def bind_eq_Some_conv dest!: put_all_printed) (simp add: printed_def)

lemma puts_int_printed: "puts_int cs s = Some t \<Longrightarrow> printed s t"
  by (auto simp: puts_int_def bind_eq_Some_conv dest!: put_all_printed) (simp add: printed_def)

section \<open>The number printers print numbers\<close>

text \<open>
  The characters of a number in base \<open>b\<close>, without leading zeros; a number printer of the
  kernel outputs this list.
\<close>

definition number_chars :: "nat \<Rightarrow> nat \<Rightarrow> BYTE list" where
  "number_chars b n = map digit_char (digits b n)"

lemma number_chars_nonzero: "2 \<le> b \<Longrightarrow> b \<le> 36 \<Longrightarrow> c \<in> set (number_chars b n) \<Longrightarrow> c \<noteq> 0"
proof -
  assume "2 \<le> b" and "b \<le> 36" and "c \<in> set (number_chars b n)"
  then obtain d where "c = digit_char d" and "d < b"
    by (auto simp: number_chars_def dest: digits_bounded)
  with \<open>b \<le> 36\<close> show "c \<noteq> 0" by (simp add: digit_char_nonzero)
qed

lemma digit_char_zero [simp]: "digit_char 0 = 48"
  by (simp add: digit_char_def)

lemma unat_bits_at: "unat (drop_bit (j * k) n AND mask k) = unat n div (2 ^ k) ^ j mod 2 ^ k"
  for n :: LONG
proof -
  have "unat (drop_bit (j * k) n AND mask k) = take_bit k (drop_bit (j * k) (unat n))"
    by (simp only: take_bit_eq_mask [symmetric] unsigned_take_bit_eq unat_drop_bit_eq)
  then show ?thesis
    by (simp add: take_bit_eq_mod drop_bit_eq_div power_mult [symmetric] mult.commute)
qed

lemma put_all_single [simp]: "put c s \<bind> put_all [] = put c s"
  by (cases "put c s") simp_all

lemma putn2_loop_chars:
  "putn2_loop j z n = put_all (map digit_char (skip_zeros 2 j z (unat n)))"
proof (induction j arbitrary: z)
  case (Suc j)
  have "unat (drop_bit j n AND 1) = unat n div 2 ^ j mod 2"
    using unat_bits_at [of j 1 n] by simp
  then have "drop_bit j n AND 1 \<noteq> 0 \<longleftrightarrow> unat n div 2 ^ j mod 2 = 1"
    by (metis unat_eq_zero not_mod_2_eq_1_eq_0)
  then show ?case
    by (auto simp: fun_eq_iff Let_def digit_char_def Suc.IH)
qed (simp add: fun_eq_iff)

lemma hex_map_nth: "d < 16 \<Longrightarrow> hex_map ! d = digit_char d"
proof -
  have "\<forall>d \<in> set [0..<16]. hex_map ! d = digit_char d"
    by (simp add: hex_map_def digit_char_def upt_rec)
  then show "d < 16 \<Longrightarrow> ?thesis" by simp
qed

lemma digit_char_eq_48: "d < 16 \<Longrightarrow> digit_char d = 48 \<longleftrightarrow> d = 0"
proof -
  have "\<forall>d \<in> set [0..<16]. digit_char d = 48 \<longleftrightarrow> d = 0"
    by (simp add: digit_char_def upt_rec)
  then show "d < 16 \<Longrightarrow> ?thesis" by simp
qed

lemma putn16_loop_chars:
  "putn16_loop j z n = put_all (map digit_char (skip_zeros 16 j z (unat n)))"
proof (induction j arbitrary: z)
  case (Suc j)
  have d: "unat (drop_bit (j * 4) n AND 0xf) = unat n div 16 ^ j mod 16"
    using unat_bits_at [of j 4 n] by (simp add: mask_eq_exp_minus_1)
  show ?case
    by (auto simp: fun_eq_iff Let_def d hex_map_nth digit_char_eq_48 Suc.IH)
qed (simp add: fun_eq_iff)

theorem putn16_chars: "putn16 n = put_all (number_chars 16 (unat n))"
proof -
  have "unat n mod 16 ^ 8 = unat n"
    using unat_bounds(3) [of n] by simp
  moreover have "n \<noteq> 0 \<Longrightarrow> unat n \<noteq> 0" by (simp add: unat_eq_zero)
  ultimately show ?thesis
    by (auto simp: fun_eq_iff putn16_def putn16_loop_chars skip_zeros_False number_chars_def
        digits_small)
qed

theorem putn2_chars:
  "putn2 n = put_all (if n = 0 then [48]
     else if unat n mod 2 ^ 31 = 0 then [] else number_chars 2 (unat n mod 2 ^ 31))"
  by (auto simp: fun_eq_iff putn2_def putn2_loop_chars skip_zeros_False number_chars_def)

lemma unat_div10: "unat ((n - n mod 10) div 10) = unat n div 10" for n :: LONG
proof -
  have "n - n mod 10 = n div 10 * 10"
    by (metis add_diff_cancel_right' div_mult_mod_eq)
  moreover have "unat (n div 10 * 10) = unat n div 10 * 10"
    using unat_bounds(3) [of n] by (simp add: unat_word_ariths unat_div_distrib)
  ultimately show ?thesis by (simp add: unat_div_distrib)
qed

lemma putn10_loop_chars:
  assumes "length (digits 10 (unat n)) \<le> i" and "i < length buf" and "i < 2 ^ 32"
  shows "putn10_loop i n buf =
    (of_nat (i - length (digits 10 (unat n))),
     take (i - length (digits 10 (unat n))) buf @ number_chars 10 (unat n) @ drop i buf)"
  using assms
proof (induction i arbitrary: n buf)
  case 0
  then show ?case by simp
next
  case (Suc i)
  let ?a = "n mod 10" and ?m = "(n - n mod 10) div 10"
  have m: "unat ?m = unat n div 10" by (rule unat_div10)
  have "unat (ucast ?a :: BYTE) = unat n mod 10"
    by (simp add: unat_mod_distrib unat_ucast_byte)
  then have a: "48 + ucast ?a = digit_char (unat n mod 10)"
    by (simp add: digit_char_def word_unat_eq_iff unat_word_ariths unat_of_nat)
  let ?buf = "buf[i := digit_char (unat n mod 10)]"
  have tail: "drop i ?buf = digit_char (unat n mod 10) # drop (Suc i) buf"
    using Suc.prems by (simp add: drop_update_swap Cons_nth_drop_Suc [symmetric])
  show ?case
  proof (cases "unat n < 10")
    case True
    then have "?m = 0" using m by (simp add: word_unat_eq_iff)
    with True a tail show ?thesis
      by (simp add: digits_small number_chars_def Let_def append_take_drop_id)
        (metis append_take_drop_id take_update_cancel order_refl tail)
  next
    case False
    then have nz: "?m \<noteq> 0" using m by (auto simp: word_unat_eq_iff)
    have ds: "digits 10 (unat n) = digits 10 (unat ?m) @ [unat n mod 10]"
      using False m by (simp add: digits_large)
    then have "length (digits 10 (unat ?m)) \<le> i"
      using Suc.prems by simp
    then have "putn10_loop i ?m ?buf =
        (of_nat (i - length (digits 10 (unat ?m))),
         take (i - length (digits 10 (unat ?m))) ?buf @ number_chars 10 (unat ?m) @ drop i ?buf)"
      using Suc.prems by (intro Suc.IH) simp_all
    then show ?thesis
      using nz a ds tail by (simp add: Let_def number_chars_def)
  qed
qed

theorem putn10_chars: "putn10 n s = (if n = 0 then put 48 s else puts (number_chars 10 (unat n)) s)"
proof (cases "n = 0")
  case False
  let ?k = "length (digits 10 (unat n))"
  have k: "?k \<le> 10"
    using unat_bounds(3) [of n] by (intro digits_length_bound) simp_all
  have two: "replicate 2 x = [x, x]" for x :: BYTE
    by (simp add: numeral_2_eq_2)
  from k have loop: "putn10_loop 31 n (replicate 33 0) =
      (of_nat (31 - ?k), replicate (31 - ?k) 0 @ number_chars 10 (unat n) @ [0, 0])"
    by (subst putn10_loop_chars) (simp_all add: two)
  have "unat (of_nat (31 - ?k) :: LONG) = 31 - ?k"
    by (simp add: unat_of_nat)
  moreover have "(number_chars 10 (unat n) @ [0, 0])[?k := 0] = number_chars 10 (unat n) @ [0, 0]"
    by (simp add: number_chars_def list_update_append)
  moreover have "takeWhile (\<lambda>c. c \<noteq> 0) (number_chars 10 (unat n) @ [0, 0]) = number_chars 10 (unat n)"
    using number_chars_nonzero [of 10 _ "unat n"] by (subst takeWhile_append2) auto
  ultimately show ?thesis
    using False k by (simp add: putn10_def loop list_update_append)
qed (simp add: putn10_def)

section \<open>The screen\<close>

text \<open>
  The abstract screen: 25 lines of 80 cells and a cursor. A newline on the last line drops
  the first line and adds a blank one.
\<close>

record screen =
  lines :: "WORD list list"
  row :: nat
  col :: nat

definition screen_newline :: "screen \<Rightarrow> screen" where
  "screen_newline t =
     (if row t = 24 then t\<lparr>lines := tl (lines t) @ [replicate 80 0], col := 0\<rparr>
      else t\<lparr>row := row t + 1, col := 0\<rparr>)"

definition screen_back :: "screen \<Rightarrow> screen" where
  "screen_back t =
     (if 0 < col t then t\<lparr>col := col t - 1\<rparr>
      else if 0 < row t then t\<lparr>row := row t - 1, col := 79\<rparr> else t)"

definition screen_cell :: "WORD \<Rightarrow> screen \<Rightarrow> screen" where
  "screen_cell w t =
     (let t' = t\<lparr>lines := (lines t)[row t := (lines t ! row t)[col t := w]]\<rparr>
      in if col t = 79 then screen_newline t' else t'\<lparr>col := col t + 1\<rparr>)"

definition screen_put :: "BYTE \<Rightarrow> BYTE \<Rightarrow> BYTE \<Rightarrow> screen \<Rightarrow> screen" where
  "screen_put b f c t =
     (if c = 10 then screen_newline t else if c = 8 then screen_back t
      else screen_cell (text_cell b f c) t)"

definition screen_lines :: "(nat \<Rightarrow> WORD) \<Rightarrow> WORD list list" where
  "screen_lines v = map (\<lambda>r. map (\<lambda>c. v (r * 80 + c)) [0..<80]) [0..<25]"

definition screen_of :: "'a console_scheme \<Rightarrow> screen" where
  "screen_of s = \<lparr>lines = screen_lines (vram s), row = unat (text_y s), col = unat (text_x s)\<rparr>"

text \<open>The invariant of the console: the cursor is on the screen.\<close>

definition text_ok :: "'a console_scheme \<Rightarrow> bool" where
  "text_ok s \<longleftrightarrow> text_x s < 80 \<and> text_y s < 25"

lemma fold_shift:
  "0 < k \<Longrightarrow> m \<le> n \<Longrightarrow> fold (\<lambda>a v. v(a := v (a + k))) [m..<n] v =
     (\<lambda>i. if m \<le> i \<and> i < n then v (i + k) else v i)"
  by (induction n) (auto simp: fun_eq_iff le_Suc_eq)

lemma fold_fill:
  "fold (\<lambda>a v. v(a := x)) [m..<n] v = (\<lambda>i. if m \<le> i \<and> i < n then x else v i)"
  by (induction n) (auto simp: fun_eq_iff less_Suc_eq)

lemma vram_scroll:
  "vram (scroll s) i =
     (if i < 1920 then vram s (i + 80) else if i < 2000 then 0 else vram s i)"
  by (simp add: scroll_def Let_def fold_shift fold_fill del: upt_rec_numeral)

lemma screen_lines_scroll:
  "screen_lines (vram (scroll s)) = tl (screen_lines (vram s)) @ [replicate 80 0]"
proof (rule nth_equalityI)
  fix r
  assume "r < length (screen_lines (vram (scroll s)))"
  then have r: "r < 25" by (simp add: screen_lines_def)
  show "screen_lines (vram (scroll s)) ! r = (tl (screen_lines (vram s)) @ [replicate 80 0]) ! r"
  proof (cases "r = 24")
    case True
    then show ?thesis
      by (auto simp: screen_lines_def nth_append vram_scroll intro!: nth_equalityI)
  next
    case False
    with r have "r < 24" by simp
    then show ?thesis
      by (auto simp: screen_lines_def nth_append nth_tl vram_scroll add.commute add.left_commute
          intro!: nth_equalityI)
  qed
qed (simp add: screen_lines_def)

lemma screen_lines_upd:
  assumes "x < 80" and "y < 25"
  shows "screen_lines (v(y * 80 + x := w)) =
    (screen_lines v)[y := (screen_lines v ! y)[x := w]]"
proof (rule nth_equalityI)
  fix r
  assume "r < length (screen_lines (v(y * 80 + x := w)))"
  then have r: "r < 25" by (simp add: screen_lines_def)
  have inj: "r * 80 + c = y * 80 + x \<longleftrightarrow> r = y \<and> c = x" if "c < 80" for c
    using that assms(1) by (rule row_col_eq_iff)
  show "screen_lines (v(y * 80 + x := w)) ! r =
      (screen_lines v)[y := (screen_lines v ! y)[x := w]] ! r"
    using r assms
    by (cases "r = y") (auto simp: screen_lines_def inj nth_list_update intro!: nth_equalityI)
qed (simp add: screen_lines_def)


lemma move_cur_next:
  assumes "text_x s < 79" and "text_y s < 25"
  shows "text_ok (move_cur s) \<and> screen_of (move_cur s) = (screen_of s)\<lparr>col := unat (text_x s) + 1\<rparr>"
  using assms
  by (auto simp: move_cur_def Let_def text_ok_def screen_of_def word_less_nat_alt word_le_nat_alt
      unat_word_ariths)

lemma move_cur_wrap:
  assumes "text_x s = 79 \<and> text_y s < 25 \<or> text_x s = 255 \<and> 0 < text_y s \<and> text_y s < 26"
  shows "text_ok (move_cur s) \<and>
    screen_of (move_cur s) =
      (let y = unat (text_y s) + (if text_x s = 79 then 1 else 0)
       in if y < 25 then \<lparr>lines = screen_lines (vram s), row = y, col = 0\<rparr>
          else \<lparr>lines = tl (screen_lines (vram s)) @ [replicate 80 0], row = 24, col = 0\<rparr>)"
  using assms
  by (auto simp: move_cur_def Let_def text_ok_def screen_of_def word_less_nat_alt word_le_nat_alt
      unat_word_ariths screen_lines_scroll)

lemma put_vga_newline:
  assumes "text_ok s"
  shows "text_ok (put_vga 10 s) \<and> screen_of (put_vga 10 s) = screen_newline (screen_of s)"
proof -
  have y: "unat (text_y s + 1) = unat (text_y s) + 1" and "unat (text_y s) < 25"
    using assms by (simp_all add: text_ok_def word_less_nat_alt unat_word_ariths)
  then show ?thesis
    using move_cur_wrap [of "s\<lparr>text_y := text_y s + 1, text_x := 255\<rparr>"]
    by (auto simp: put_vga_def screen_newline_def screen_of_def Let_def word_less_nat_alt)
qed

lemma put_vga_back:
  assumes "text_ok s"
  shows "text_ok (put_vga 8 s) \<and> screen_of (put_vga 8 s) = screen_back (screen_of s)"
proof -
  have dec: "unat (b - 1) = unat b - 1" if "b \<noteq> 0" for b :: BYTE
    using that by (simp add: unat_minus_one)
  have pos: "0 < unat b \<longleftrightarrow> b \<noteq> 0" for b :: BYTE
    by (simp add: unat_gt_0)
  show ?thesis
    using assms
    by (auto simp: put_vga_def screen_back_def screen_of_def text_ok_def word_less_nat_alt dec pos)
qed

lemma put_vga_cell:
  assumes ok: "text_ok s" and c: "c \<noteq> 10" "c \<noteq> 8"
  shows "text_ok (put_vga c s) \<and>
    screen_of (put_vga c s) = screen_cell (text_cell (bg s) (fg s) c) (screen_of s)"
proof -
  let ?w = "text_cell (bg s) (fg s) c"
  let ?s = "s\<lparr>vram := (vram s)(unat (text_y s) * 80 + unat (text_x s) := ?w)\<rparr>"
  have put: "put_vga c s = move_cur ?s"
    using c by (simp add: put_vga_def Let_def)
  have x: "unat (text_x s) < 80" and y: "unat (text_y s) < 25"
    using ok by (simp_all add: text_ok_def word_less_nat_alt)
  note upd = screen_lines_upd [OF x y, of "vram s" ?w]
  show ?thesis
  proof (cases "text_x s = 79")
    case True
    with upd y show ?thesis
      unfolding put using move_cur_wrap [of ?s]
      by (auto simp: screen_cell_def screen_newline_def screen_of_def Let_def word_less_nat_alt)
  next
    case False
    then have "unat (text_x s) \<noteq> 79" by (auto simp: word_unat_eq_iff)
    with x upd y show ?thesis
      unfolding put using move_cur_next [of ?s]
      by (auto simp: screen_cell_def screen_of_def Let_def word_less_nat_alt)
  qed
qed

lemma put_vga_screen:
  assumes "text_ok s"
  shows "text_ok (put_vga c s)"
    and "screen_of (put_vga c s) = screen_put (bg s) (fg s) c (screen_of s)"
  using put_vga_newline [OF assms] put_vga_back [OF assms] put_vga_cell [OF assms, of c]
  by (auto simp: screen_put_def)

section \<open>Printing as a stream of characters\<close>

text \<open>
  The contract of a character output: on a state that satisfies the invariant, a character
  that is put changes what the output shows by one step of its specification. The clients
  are the string and number printers, for which only this contract matters.
\<close>

locale char_output =
  fixes inv :: "'a console_scheme \<Rightarrow> bool"
    and shown :: "'a console_scheme \<Rightarrow> 'v"
    and step :: "BYTE \<Rightarrow> 'v \<Rightarrow> 'v"
  assumes put_inv: "inv s \<Longrightarrow> put c s = Some t \<Longrightarrow> inv t"
    and put_shown: "inv s \<Longrightarrow> put c s = Some t \<Longrightarrow> shown t = step c (shown s)"
    and strm_inv: "inv (s\<lparr>strm := m\<rparr>) = inv s"
    and strm_shown: "shown (s\<lparr>strm := m\<rparr>) = shown s"
    and cur_inv: "inv (upd_cur s) = inv s"
    and cur_shown: "shown (upd_cur s) = shown s"
begin

lemma put_all_shown: "inv s \<Longrightarrow> put_all cs s = Some t \<Longrightarrow> inv t \<and> shown t = fold step cs (shown s)"
proof (induction cs arbitrary: s)
  case (Cons c cs)
  then obtain u where "put c s = Some u" and "put_all cs u = Some t"
    by (auto simp: bind_eq_Some_conv)
  with Cons show ?case
    using put_inv [of s c u] put_shown [of s c u] by simp
qed simp

lemma puts_shown: "inv s \<Longrightarrow> puts cs s = Some t \<Longrightarrow> inv t \<and> shown t = fold step cs (shown s)"
  by (auto simp: puts_def bind_eq_Some_conv strm_inv strm_shown cur_inv cur_shown
      dest!: put_all_shown [rotated])

lemma puts_int_shown: "inv s \<Longrightarrow> puts_int cs s = Some t \<Longrightarrow> inv t \<and> shown t = fold step cs (shown s)"
  by (auto simp: puts_int_def bind_eq_Some_conv strm_inv strm_shown dest!: put_all_shown [rotated])

lemma putn10_shown:
  assumes "inv s" and "putn10 n s = Some t"
  shows "inv t \<and> shown t = fold step (number_chars 10 (unat n)) (shown s)"
proof (cases "n = 0")
  case True
  with assms put_all_shown [of s "[48]" t] show ?thesis
    by (simp add: putn10_chars number_chars_def digits_small)
next
  case False
  with assms puts_shown show ?thesis by (simp add: putn10_chars)
qed

lemma putn16_shown:
  "inv s \<Longrightarrow> putn16 n s = Some t \<Longrightarrow>
     inv t \<and> shown t = fold step (number_chars 16 (unat n)) (shown s)"
  by (simp add: putn16_chars put_all_shown)

end

lemma putE:
  assumes "put c s = Some t"
  obtains (serial_off) "t = put_vga c s" and "hd (serial_status s) = 0"
  | (serial_on) u where "hd (serial_status s) \<noteq> 0" and "serial_write 0 c s = Some u" and "t = put_vga c u"
  using assms by (auto simp: put_def serial_enabled_def bind_eq_Some_conv hd_conv_nth split: if_splits)

lemma screen_of_log [simp]: "screen_of (s\<lparr>io_log := l\<rparr>) = screen_of s" "text_ok (s\<lparr>io_log := l\<rparr>) = text_ok s"
  by (simp_all add: screen_of_def text_ok_def)

lemma screen_of_cur [simp]:
  "screen_of (s\<lparr>strm := m\<rparr>) = screen_of s" "text_ok (s\<lparr>strm := m\<rparr>) = text_ok s"
  "screen_of (upd_cur s) = screen_of s" "text_ok (upd_cur s) = text_ok s"
  by (simp_all add: screen_of_def text_ok_def)

lemma put_screen:
  assumes "text_ok s" and "put c s = Some t"
  shows "text_ok t" and "screen_of t = screen_put (bg s) (fg s) c (screen_of s)"
  using assms(2,1) by (cases rule: putE; auto simp: put_vga_screen elim!: serial_writeE)+

lemma printed_colours: "printed s t \<Longrightarrow> bg t = bg s \<and> fg t = fg s"
  by (simp add: printed_def)

interpretation scr: char_output
    "\<lambda>s :: 'a console_scheme. text_ok s \<and> bg s = b \<and> fg s = f" screen_of "screen_put b f"
  for b f
  by unfold_locales (auto simp: put_screen upd_cur_def frames Let_def dest: put_printed printed_colours)

text \<open>The other output is the first serial port: it shows the bytes sent so far.\<close>

lemma tx_bytes_put_vga [simp]: "tx_bytes 0x3f8 (io_log (put_vga c s)) = tx_bytes 0x3f8 (io_log s)"
  by (simp add: put_vga_def move_cur_def upd_cur_def frames Let_def)

lemma hwport_at_0: "hwport_at 0 = Some 0x3f8"
  by (simp add: hwport_at_def serial_hwport_def)

lemma put_tx:
  assumes "put c s = Some t" and "hd (serial_status s) \<noteq> 0"
  shows "tx_bytes 0x3f8 (io_log t) = tx_bytes 0x3f8 (io_log s) @ crlf c"
  using assms by (auto elim!: putE dest!: serial_write_tx [OF _ hwport_at_0])

interpretation com1: char_output
    "\<lambda>s :: 'a console_scheme. hd (serial_status s) \<noteq> 0" "\<lambda>s. tx_bytes 0x3f8 (io_log s)"
    "\<lambda>c bs. bs @ crlf c"
  by unfold_locales
    (auto simp: put_tx upd_cur_def frames Let_def dest!: put_printed simp: printed_def)

section \<open>Printing returns\<close>

text \<open>
  Printing needs the first serial port to be off, or its transmitter to be ready whenever
  its line status is read.
\<close>

definition tty_ready :: "'a console_scheme \<Rightarrow> bool" where
  "tty_ready s \<longleftrightarrow> serial_status s \<noteq> [] \<and>
     (hd (serial_status s) = 0 \<or> (\<forall>l. hw s l (Port8 0x3fd) AND 0x20 \<noteq> 0))"

lemma tty_ready_printed: "printed s t \<Longrightarrow> tty_ready t = tty_ready s"
  by (simp add: tty_ready_def printed_def)

lemma tty_ready_strm [simp]: "tty_ready (s\<lparr>strm := m\<rparr>) = tty_ready s"
  by (simp add: tty_ready_def)

lemma put_returns: "tty_ready s \<Longrightarrow> \<exists>t. put c s = Some t"
  using serial_write_ready [OF hwport_at_0, of s c]
  by (auto simp: put_def tty_ready_def serial_enabled_def hd_conv_nth)

lemma put_all_returns: "tty_ready s \<Longrightarrow> \<exists>t. put_all cs s = Some t"
proof (induction cs arbitrary: s)
  case (Cons c cs)
  then obtain u where u: "put c s = Some u" using put_returns by blast
  then have "tty_ready u" using Cons.prems tty_ready_printed put_printed by blast
  with Cons.IH u show ?case by simp
qed simp

lemma puts_returns: "tty_ready s \<Longrightarrow> \<exists>t. puts cs s = Some t"
  using put_all_returns [of "s\<lparr>strm := 1\<rparr>" cs] by (auto simp: puts_def)

lemma puts_int_returns: "tty_ready s \<Longrightarrow> \<exists>t. puts_int cs s = Some t"
  using put_all_returns [of "s\<lparr>strm := 1\<rparr>" cs] by (auto simp: puts_int_def)

lemma putn10_returns: "tty_ready s \<Longrightarrow> \<exists>t. putn10 n s = Some t"
  by (simp add: putn10_chars put_returns puts_returns)

lemma putn16_returns: "tty_ready s \<Longrightarrow> \<exists>t. putn16 n s = Some t"
  by (simp add: putn16_chars put_all_returns)

text \<open>
  One printing step: nothing but the console changes, the console stays ready and the
  cursor stays on the screen.
\<close>

definition tty_step :: "'a console_scheme \<Rightarrow> 'a console_scheme \<Rightarrow> bool" where
  "tty_step s t \<longleftrightarrow> printed s t \<and> tty_ready t \<and> (text_ok s \<longrightarrow> text_ok t)"

lemma tty_step_ready: "tty_step s t \<Longrightarrow> tty_ready t"
  by (simp add: tty_step_def)

lemma tty_step_trans [trans]: "tty_step s t \<Longrightarrow> tty_step t u \<Longrightarrow> tty_step s u"
  by (auto simp: tty_step_def intro: printed_trans)

lemma tty_step_refl: "tty_ready s \<Longrightarrow> tty_step s s"
  by (simp add: tty_step_def)

lemma tty_stepI:
  assumes "f s = Some t" and "printed s t" and "tty_ready s" and "text_ok s \<Longrightarrow> text_ok t"
  shows "tty_step s t"
  using assms by (simp add: tty_step_def tty_ready_printed)

text \<open>
  The rules of the collection \<open>wp\<close> carry the step from a fixed first state \<open>s0\<close>, so that a
  sequence of printing calls leaves one fact about the last state.
\<close>

lemma printing_wp:
  assumes s: "tty_step s0 s" and Q: "\<And>t. tty_step s0 t \<Longrightarrow> Q t"
    and f: "\<And>s. tty_ready s \<Longrightarrow> \<exists>t. f s = Some t"
    and printed: "\<And>t. f s = Some t \<Longrightarrow> printed s t"
    and ok: "\<And>t. f s = Some t \<Longrightarrow> text_ok s \<Longrightarrow> text_ok t"
  shows "returns (f s) Q"
proof -
  obtain t where t: "f s = Some t" using f s tty_step_ready by blast
  then have "tty_step s t" using s printed ok by (blast intro: tty_stepI tty_step_ready)
  with s t Q show ?thesis by (auto intro: tty_step_trans)
qed

lemma put_wp [wp]: "tty_step s0 s \<Longrightarrow> (\<And>t. tty_step s0 t \<Longrightarrow> Q t) \<Longrightarrow> returns (put c s) Q"
  by (rule printing_wp [OF _ _ put_returns put_printed put_screen(1)])

lemma put_all_wp [wp]: "tty_step s0 s \<Longrightarrow> (\<And>t. tty_step s0 t \<Longrightarrow> Q t) \<Longrightarrow> returns (put_all cs s) Q"
  using scr.put_all_shown [of s "bg s" "fg s" cs]
  by (auto intro: printing_wp [OF _ _ put_all_returns put_all_printed])

lemma puts_wp [wp]: "tty_step s0 s \<Longrightarrow> (\<And>t. tty_step s0 t \<Longrightarrow> Q t) \<Longrightarrow> returns (puts cs s) Q"
  using scr.puts_shown [of s "bg s" "fg s" cs]
  by (auto intro: printing_wp [OF _ _ puts_returns puts_printed])

lemma puts_int_wp [wp]:
  "tty_step s0 s \<Longrightarrow> (\<And>t. tty_step s0 t \<Longrightarrow> Q t) \<Longrightarrow> returns (puts_int cs s) Q"
  using scr.puts_int_shown [of s "bg s" "fg s" cs]
  by (auto intro: printing_wp [OF _ _ puts_int_returns puts_int_printed])

lemma putn10_wp [wp]: "tty_step s0 s \<Longrightarrow> (\<And>t. tty_step s0 t \<Longrightarrow> Q t) \<Longrightarrow> returns (putn10 n s) Q"
  by (simp add: putn10_chars put_wp puts_wp)

lemma putn16_wp [wp]: "tty_step s0 s \<Longrightarrow> (\<And>t. tty_step s0 t \<Longrightarrow> Q t) \<Longrightarrow> returns (putn16 n s) Q"
  by (simp add: putn16_chars put_all_wp)

lemma putn_wp [wp]: "tty_step s0 s \<Longrightarrow> (\<And>t. tty_step s0 t \<Longrightarrow> Q t) \<Longrightarrow> returns (putn n b s) Q"
  by (simp add: putn_def putn2_chars putn10_wp putn16_wp put_all_wp)

lemma puts_tty_step: "tty_ready s \<Longrightarrow> \<exists>t. puts cs s = Some t \<and> tty_step s t"
  by (intro returnsD puts_wp [OF tty_step_refl])

section \<open>The properties of the console\<close>

text \<open>A machine whose transmitter is ready, as a concrete console for the examples.\<close>

definition console0 :: console where
  "console0 = \<lparr>hw = \<lambda>_ _. 0x20, io_log = [], mem = \<lambda>_. 0, serial_status = [1, 0, 0, 0],
     vram = \<lambda>_. 0, text_x = 79, text_y = 24, strm = 0, fg = 7, bg = 0\<rparr>"

lemma console0_ok [simp]:
  "text_ok console0" "tty_ready console0" "hd (serial_status console0) \<noteq> 0"
  "bg console0 = 0" "fg console0 = 7" "io_log console0 = []" "vram console0 = (\<lambda>_. 0)"
  by (simp_all add: console0_def text_ok_def tty_ready_def)

text \<open>
  C36: Printing a string always returns on a ready console, keeps the cursor on the screen,
  changes the screen as the abstract screen does, one character after the other (newline,
  backspace, wrap at column 80, scroll at line 25), and leaves memory, the colours and the
  state of every other component alone.
\<close>

theorem puts_refines_screen:
  assumes "text_ok s" and "tty_ready s"
  shows "\<exists>t. puts cs s = Some t \<and> text_ok t \<and> printed s t \<and>
    screen_of t = fold (screen_put (bg s) (fg s)) cs (screen_of s)"
  using assms puts_returns [of s cs] scr.puts_shown [of s "bg s" "fg s" cs] puts_printed
  by blast

theorem puts_refines_screen_witness:
  "\<exists>t. puts (str ''ab'') console0 = Some t \<and> text_ok t \<and>
     screen_of t = fold (screen_put 0 7) (str ''ab'') (screen_of console0)"
  using puts_refines_screen [of console0 "str ''ab''"] by auto

text \<open>
  The decimal printer shows the digits of its argument, all 32 bits of it, without
  leading zeros.
\<close>

theorem putn10_prints_number:
  assumes "text_ok s" and "tty_ready s"
  shows "\<exists>t ds. putn10 n s = Some t \<and> text_ok t \<and>
    screen_of t = fold (screen_put (bg s) (fg s)) (map digit_char ds) (screen_of s) \<and>
    digits_value 10 ds = unat n \<and> (\<forall>d \<in> set ds. d < 10) \<and> (n \<noteq> 0 \<longrightarrow> hd ds \<noteq> 0)"
proof -
  obtain t where t: "putn10 n s = Some t" using putn10_returns assms by blast
  with assms scr.putn10_shown [of s "bg s" "fg s" n t] show ?thesis
    by (intro exI [of _ t] exI [of _ "digits 10 (unat n)"])
      (auto simp: number_chars_def digits_correct unat_gt_0)
qed

theorem putn10_prints_number_witness:
  "\<exists>t ds. putn10 4294967295 console0 = Some t \<and>
    screen_of t = fold (screen_put 0 7) (map digit_char ds) (screen_of console0) \<and>
    digits_value 10 ds = 4294967295"
  using putn10_prints_number [of console0 4294967295] by auto

text \<open>The hexadecimal printer shows the digits of its argument, without leading zeros.\<close>

theorem putn16_prints_number:
  assumes "text_ok s" and "tty_ready s"
  shows "\<exists>t ds. putn16 n s = Some t \<and> text_ok t \<and>
    screen_of t = fold (screen_put (bg s) (fg s)) (map digit_char ds) (screen_of s) \<and>
    digits_value 16 ds = unat n \<and> (\<forall>d \<in> set ds. d < 16) \<and> (n \<noteq> 0 \<longrightarrow> hd ds \<noteq> 0)"
proof -
  obtain t where t: "putn16 n s = Some t" using putn16_returns assms by blast
  with assms scr.putn16_shown [of s "bg s" "fg s" n t] show ?thesis
    by (intro exI [of _ t] exI [of _ "digits 16 (unat n)"])
      (auto simp: number_chars_def digits_correct unat_gt_0)
qed

theorem putn16_prints_number_witness:
  "\<exists>t ds. putn16 0xdeadbeef console0 = Some t \<and>
    screen_of t = fold (screen_put 0 7) (map digit_char ds) (screen_of console0) \<and>
    digits_value 16 ds = 0xdeadbeef"
  using putn16_prints_number [of console0 "0xdeadbeef"] by auto

text \<open>
  The binary printer starts at bit 30: it prints the binary digits of its argument
  without the highest bit, and nothing at all for 0x80000000.
\<close>

theorem putn2_drops_bit_31:
  "putn2 n = put_all (if n = 0 then str ''0''
     else if unat n mod 2 ^ 31 = 0 then [] else map digit_char (digits 2 (unat n mod 2 ^ 31)))"
  by (simp add: putn2_chars number_chars_def)

text \<open>
  With the first serial port enabled, printing a string sends exactly its bytes to the
  port, in order, each newline as CR LF.
\<close>

theorem puts_serial_stream:
  assumes "tty_ready s" and "hd (serial_status s) \<noteq> 0"
  shows "\<exists>t. puts cs s = Some t \<and>
    tx_bytes 0x3f8 (io_log t) = tx_bytes 0x3f8 (io_log s) @ concat (map crlf cs)"
proof -
  have "fold (\<lambda>c bs. bs @ crlf c) cs bs = bs @ concat (map crlf cs)" for bs
    by (induction cs arbitrary: bs) simp_all
  with assms puts_returns [of s cs] com1.puts_shown [of s cs] show ?thesis by auto
qed

theorem puts_serial_stream_witness:
  "\<exists>t. puts [65, 10] console0 = Some t \<and> tx_bytes 0x3f8 (io_log t) = [65, 13, 10]"
  using puts_serial_stream [of console0 "[65, 10]"] by (auto simp: crlf_def)

text \<open>
  C40: If the first serial port is enabled and its transmitter never gets ready, printing
  any string that is not empty never returns.
\<close>

theorem puts_hangs_on_dead_serial:
  assumes "serial_status s \<noteq> []" and "hd (serial_status s) \<noteq> 0"
    and "\<forall>l. hw s l (Port8 0x3fd) AND 0x20 = 0"
  shows "puts (c # cs) s = None"
proof -
  have "serial_write 0 c (s\<lparr>strm := 1\<rparr>) = None"
    using assms(3) by (intro serial_write_stuck [OF hwport_at_0]) simp
  with assms show ?thesis
    by (simp add: puts_def put_def serial_enabled_def hd_conv_nth)
qed

theorem puts_hangs_on_dead_serial_witness:
  "puts (str ''x'') (console0\<lparr>hw := \<lambda>_ _. 0\<rparr>) = None"
  using puts_hangs_on_dead_serial [of "console0\<lparr>hw := \<lambda>_ _. 0\<rparr>" 120 "[]"]
  by (simp add: console0_def)

text \<open>
  A character that is put changes no cell outside the 2000 cells of the screen, as long
  as the cursor is on the screen.
\<close>

theorem put_within_screen:
  fixes s t :: "'a console_scheme"
  assumes "text_ok s" and "put c s = Some t" and "2000 \<le> i"
  shows "vram t i = vram s i"
proof -
  have cur: "vram (move_cur u) i = vram u i" for u :: "'a console_scheme"
    using assms(3) by (simp add: move_cur_def Let_def vram_scroll)
  have "unat (text_y s) * 80 + unat (text_x s) < 2000"
    using assms(1) by (simp add: text_ok_def word_less_nat_alt)
  then have vga: "vram (put_vga c u) i = vram u i"
    if "text_x u = text_x s" "text_y u = text_y s" for u :: "'a console_scheme"
    using that assms(3) by (auto simp: put_vga_def cur Let_def)
  show ?thesis
    using assms(2) by (cases rule: putE) (auto simp: vga elim!: serial_writeE)
qed

theorem put_within_screen_witness:
  "\<exists>t. put 65 console0 = Some t \<and> vram t 2000 = 0"
proof -
  obtain t where "put 65 console0 = Some t" using put_returns [of console0] by auto
  with put_within_screen [of console0 65 t 2000] show ?thesis by simp
qed

text \<open>
  A cell has the character as its low byte and the colours as its high byte; for a
  character of 0x80 or more, which is sign-extended, the high byte is 0xFF whatever the
  colours.
\<close>

theorem text_cell_bytes:
  "ucast (text_cell b f c) = c \<and>
   ucast (drop_bit 8 (text_cell b f c)) = (if c < 0x80 then push_bit 4 b OR f else 0xFF)"
proof -
  have c: "c < 0x80 \<longleftrightarrow> \<not> bit c 7"
  proof -
    have "bit (unat c) 7 \<longleftrightarrow> 0x80 \<le> unat c"
    proof -
      have "unat c div 128 = 0 \<or> unat c div 128 = 1" using unat_bounds(1) [of c] by linarith
      then show ?thesis by (auto simp: bit_iff_odd)
    qed
    then have "bit c 7 \<longleftrightarrow> 0x80 \<le> unat c" by (simp add: bit_unsigned_iff)
    then show ?thesis by (simp add: word_less_nat_alt not_le)
  qed
  have ff: "(0xFF :: BYTE) = - 1" by simp
  show ?thesis
    unfolding c ff text_cell_def
    by (intro conjI bit_word_eqI) (auto simp: bit_simps)
qed

end
