(* ===== verification/Memory.thy ===== *)
theory Memory
  imports Text
begin

text \<open>
  The memory manager, \<^verbatim>\<open>kernel/memory.c\<close>, and \<open>malloc\<close> and \<open>free\<close> of
  \<^verbatim>\<open>libc/stdlib.c\<close> on top of it. It hands out pages of 4096 bytes from the
  largest available chunk of the memory map and never takes one back.
\<close>

text \<open>An entry of the memory map that the boot loader passes (\<^verbatim>\<open>include/multiboot.h\<close>).\<close>

record mmap_entry =
  me_addr :: QUAD
  me_len :: QUAD
  me_type :: LONG

definition MULTIBOOT_MEMORY_AVAILABLE :: LONG where
  "MULTIBOOT_MEMORY_AVAILABLE = 1"

record memmgmt = console +
  mmgmt_counter :: LONG
  mmgmt_start :: LONG
  mmgmt_len :: LONG

text \<open>The hardware, the switched-on serial ports and the colours, which printing leaves alone.\<close>

definition con_same :: "'a console_scheme \<Rightarrow> 'a console_scheme \<Rightarrow> bool" where
  "con_same s t \<longleftrightarrow> hw t = hw s \<and> serial_status t = serial_status s \<and> fg t = fg s \<and> bg t = bg s"

lemma tty_step_mm:
  "tty_step s t \<Longrightarrow> tty_ready t \<and> mmgmt_counter t = mmgmt_counter s \<and>
     mmgmt_start t = mmgmt_start s \<and> mmgmt_len t = mmgmt_len s \<and> mem t = mem s \<and> hw t = hw s \<and>
     serial_status t = serial_status s \<and> fg t = fg s \<and> bg t = bg s \<and>
     memmgmt.more t = memmgmt.more s \<and> (text_ok s \<longrightarrow> text_ok t)"
  by (auto simp: tty_step_def elim!: printedE)

lemma text_ok_mm [simp]:
  "text_ok (s\<lparr>mmgmt_counter := a\<rparr>) = text_ok s" "text_ok (s\<lparr>mmgmt_start := a\<rparr>) = text_ok s"
  "text_ok (s\<lparr>mmgmt_len := a\<rparr>) = text_ok s"
  by (simp_all add: text_ok_def)

lemma tty_ready_mm [simp]:
  "tty_ready (s\<lparr>mmgmt_counter := c\<rparr>) = tty_ready s" "tty_ready (s\<lparr>mmgmt_start := a\<rparr>) = tty_ready s"
  "tty_ready (s\<lparr>mmgmt_len := n\<rparr>) = tty_ready s"
  by (simp_all add: tty_ready_def)

section \<open>Operations\<close>

fun greatest_loop :: "nat \<Rightarrow> mmap_entry list \<Rightarrow> LONG \<Rightarrow> LONG \<Rightarrow> 'a console_scheme \<Rightarrow>
    (LONG \<times> LONG \<times> 'a console_scheme) option" where
  "greatest_loop i [] mx maxi s = Some (mx, maxi, s)"
| "greatest_loop i (e # es) mx maxi s = do {
     let start = (ucast (me_addr e) :: LONG);
     let stop = (ucast (me_addr e + me_len e) :: LONG);
     s \<leftarrow> puts (str ''[memory]     '') s;
     s \<leftarrow> putn10 (of_nat (i + 1)) s;
     s \<leftarrow> puts (str ''. Type: '') s;
     s \<leftarrow> putn10 (me_type e) s;
     s \<leftarrow> puts (str '' Range: '') s;
     s \<leftarrow> putn16 start s;
     s \<leftarrow> puts (str ''-0x'') s;
     s \<leftarrow> putn16 stop s;
     s \<leftarrow> puts [10] s;
     if me_len e > ucast mx \<and> me_type e = MULTIBOOT_MEMORY_AVAILABLE
     then greatest_loop (i + 1) es (ucast (me_len e)) (of_nat i) s
     else greatest_loop (i + 1) es mx maxi s
   }"

definition mmgmt_greatest_chunk :: "mmap_entry list \<Rightarrow> 'a console_scheme \<Rightarrow>
    (LONG \<times> LONG \<times> 'a console_scheme) option" where
  "mmgmt_greatest_chunk mmap s = do {
     (mx, maxi, s) \<leftarrow> greatest_loop 0 mmap 0 0 s;
     Some (maxi, mx, s)
   }"

definition mmgmt_init :: "mmap_entry list \<Rightarrow> 'a memmgmt_scheme \<Rightarrow> 'a memmgmt_scheme option" where
  "mmgmt_init mmap s = do {
     (maxi, mx, s) \<leftarrow> mmgmt_greatest_chunk mmap s;
     e \<leftarrow> (if unat maxi < length mmap then Some (mmap ! unat maxi) else None);
     let s = s\<lparr>mmgmt_counter := 0, mmgmt_start := ucast (me_addr e), mmgmt_len := drop_bit 12 mx\<rparr>;
     s \<leftarrow> puts (str ''[memory] Memory available: '') s;
     s \<leftarrow> putn10 mx s;
     puts (str '' bytes'' @ [10]) s
   }"

definition mmgmt_alloc :: "LONG \<Rightarrow> 'a memmgmt_scheme \<Rightarrow> LONG \<times> 'a memmgmt_scheme" where
  "mmgmt_alloc sz s =
     (if mmgmt_counter s \<ge> mmgmt_len s then (0, s)
      else if sz = 0 then (0, s)
      else
        (let sz = sz + (4096 - sz mod 4096);
             n = drop_bit 12 sz;
             addr = mmgmt_start s + mmgmt_counter s * 4096
         in (addr, s\<lparr>mmgmt_counter := mmgmt_counter s + n\<rparr>)))"

definition mmgmt_free :: "LONG \<Rightarrow> 'a memmgmt_scheme \<Rightarrow> 'a memmgmt_scheme" where
  "mmgmt_free ptr s = s"

definition malloc :: "LONG \<Rightarrow> 'a memmgmt_scheme \<Rightarrow> LONG \<times> 'a memmgmt_scheme" where
  "malloc sz s = (if sz \<le> 0 then (0, s) else mmgmt_alloc sz s)"

definition free :: "LONG \<Rightarrow> 'a memmgmt_scheme \<Rightarrow> 'a memmgmt_scheme" where
  "free ptr s = (if ptr = 0 then s else mmgmt_free ptr s)"

section \<open>An allocator hands out disjoint regions\<close>

text \<open>A run of requests, with the successful ones as (address, size) pairs.\<close>

fun alloc_run :: "(LONG \<Rightarrow> 's \<Rightarrow> LONG \<times> 's) \<Rightarrow> LONG list \<Rightarrow> 's \<Rightarrow> (LONG \<times> LONG) list \<times> 's" where
  "alloc_run alloc [] s = ([], s)"
| "alloc_run alloc (n # ns) s =
     (let (a, s) = alloc n s; (rs, s) = alloc_run alloc ns s
      in (if a = 0 then rs else (a, n) # rs, s))"

text \<open>
  The contract of a bump allocator: below \<open>top\<close> everything may be in use; as long as the
  budget for a request is there, the request returns NULL or a region between the old and
  the new top.
\<close>

locale bump_allocator =
  fixes alloc :: "LONG \<Rightarrow> 's \<Rightarrow> LONG \<times> 's"
    and top :: "'s \<Rightarrow> nat"
    and cost :: "LONG \<Rightarrow> nat"
    and limit :: "'s \<Rightarrow> nat"
  assumes alloc_region:
    "top s + cost n \<le> limit s \<Longrightarrow> alloc n s = (a, t) \<Longrightarrow> a \<noteq> 0 \<Longrightarrow>
       top s \<le> unat a \<and> unat a + unat n \<le> top t"
    and alloc_top:
    "top s + cost n \<le> limit s \<Longrightarrow> alloc n s = (a, t) \<Longrightarrow> top s \<le> top t \<and> top t \<le> top s + cost n"
    and alloc_limit: "alloc n s = (a, t) \<Longrightarrow> limit t = limit s"
begin

lemma run_regions:
  assumes "top s + sum_list (map cost ns) \<le> limit s" and "alloc_run alloc ns s = (rs, t)"
  shows "(\<forall>(a, n) \<in> set rs. top s \<le> unat a) \<and>
    sorted_wrt (\<lambda>(a, n) (b, k). unat a + unat n \<le> unat b) rs"
  using assms
proof (induction ns arbitrary: s rs t)
  case (Cons k ns)
  obtain b u where b: "alloc k s = (b, u)" by fastforce
  obtain rs' v where rs': "alloc_run alloc ns u = (rs', v)" by fastforce
  have fits: "top s + cost k \<le> limit s" using Cons.prems(1) by simp
  note top = alloc_top [OF fits b]
  have "top u + sum_list (map cost ns) \<le> limit u"
    using Cons.prems(1) top alloc_limit [OF b] by simp
  from Cons.IH [OF this rs'] have above: "\<forall>(a, n) \<in> set rs'. top u \<le> unat a"
    and sorted: "sorted_wrt (\<lambda>(a, n) (b, k). unat a + unat n \<le> unat b) rs'" by auto
  show ?case
  proof (cases "b = 0")
    case True
    with Cons.prems(2) b rs' above sorted top show ?thesis by auto
  next
    case False
    with alloc_region [OF fits b] have r: "top s \<le> unat b" "unat b + unat k \<le> top u" by auto
    have "rs = (b, k) # rs'" using Cons.prems(2) b rs' False by simp
    with above sorted r top show ?thesis by fastforce
  qed
qed simp

end

text \<open>
  The pages that \<open>mmgmt_alloc\<close> uses for a request: a whole one more than the request
  needs when its size is a multiple of the page size.
\<close>

definition page_bytes :: "LONG \<Rightarrow> nat" where
  "page_bytes sz = (unat sz div 4096 + 1) * 4096"

definition mm_top :: "'a memmgmt_scheme \<Rightarrow> nat" where
  "mm_top s = unat (mmgmt_start s) + unat (mmgmt_counter s) * 4096"

lemma alloc_pages:
  assumes "page_bytes sz < 2 ^ 32"
  shows "unat (drop_bit 12 (sz + (4096 - sz mod 4096))) = unat sz div 4096 + 1"
proof -
  have "sz + (4096 - sz mod 4096) = sz div 4096 * 4096 + sz mod 4096 + (4096 - sz mod 4096)"
    by (simp only: div_mult_mod_eq)
  also have "\<dots> = (sz div 4096 + 1) * 4096" by (simp add: distrib_right)
  finally have "sz + (4096 - sz mod 4096) = (sz div 4096 + 1) * 4096" .
  moreover have "unat ((sz div 4096 + 1) * 4096) = page_bytes sz"
    using assms by (simp add: page_bytes_def unat_word_ariths unat_div_distrib)
  ultimately have "unat (sz + (4096 - sz mod 4096)) = page_bytes sz" by (simp only:)
  then show ?thesis
    by (simp only: unat_drop_bit_eq) (simp add: drop_bit_eq_div page_bytes_def)
qed

lemma mmgmt_alloc_step:
  assumes fits: "mm_top s + page_bytes sz < 2 ^ 32"
    and alloc: "mmgmt_alloc sz s = (a, t)"
  shows "a = 0 \<and> t = s \<or> unat a = mm_top s \<and> mm_top t = mm_top s + page_bytes sz"
proof (cases "mmgmt_counter s \<ge> mmgmt_len s \<or> sz = 0")
  case True
  with alloc show ?thesis by (simp add: mmgmt_alloc_def split: if_splits)
next
  case False
  let ?n = "drop_bit 12 (sz + (4096 - sz mod 4096))"
  have n: "unat ?n = unat sz div 4096 + 1"
    using fits by (intro alloc_pages) simp
  have a: "a = mmgmt_start s + mmgmt_counter s * 4096"
    and t: "t = s\<lparr>mmgmt_counter := mmgmt_counter s + ?n\<rparr>"
    using alloc False by (auto simp: mmgmt_alloc_def Let_def)
  have "unat a = mm_top s"
    using fits by (simp add: a mm_top_def unat_word_ariths)
  moreover have "unat (mmgmt_counter s + ?n) = unat (mmgmt_counter s) + (unat sz div 4096 + 1)"
    using fits n by (simp add: mm_top_def page_bytes_def unat_word_ariths)
  then have "mm_top t = mm_top s + page_bytes sz"
    by (simp add: t mm_top_def page_bytes_def algebra_simps)
  ultimately show ?thesis by simp
qed

lemma page_bytes_covers: "unat sz < page_bytes sz"
proof -
  have "unat sz = unat sz div 4096 * 4096 + unat sz mod 4096" by simp
  moreover have "unat sz mod 4096 < 4096" by simp
  ultimately show ?thesis unfolding page_bytes_def distrib_right by linarith
qed

interpretation mm: bump_allocator mmgmt_alloc mm_top page_bytes "\<lambda>_. 2 ^ 32 - 1"
proof
  fix s :: "'a memmgmt_scheme" and n a t
  assume "mm_top s + page_bytes n \<le> 2 ^ 32 - 1" and alloc: "mmgmt_alloc n s = (a, t)"
  then have "mm_top s + page_bytes n < 2 ^ 32" by simp
  from mmgmt_alloc_step [OF this alloc] page_bytes_covers [of n]
  show "mm_top s \<le> mm_top t \<and> mm_top t \<le> mm_top s + page_bytes n"
    and "a \<noteq> 0 \<Longrightarrow> mm_top s \<le> unat a \<and> unat a + unat n \<le> mm_top t"
    by auto
qed (rule refl)

text \<open>\<open>malloc\<close> adds a test that \<open>mmgmt_alloc\<close> makes again.\<close>

lemma malloc_eq: "malloc = mmgmt_alloc"
  by (auto simp: fun_eq_iff malloc_def mmgmt_alloc_def)

text \<open>A request of less than a page takes one page, and its address is the old top.\<close>

lemma malloc_page:
  fixes s :: "'a memmgmt_scheme"
  assumes "n \<noteq> 0" and "unat n < 4096"
    and "mmgmt_counter s < mmgmt_len s" and "mm_top s + 4096 < 2 ^ 32"
  shows "\<exists>a c. malloc n s = (a, s\<lparr>mmgmt_counter := c\<rparr>) \<and> unat a = mm_top s \<and>
    unat c = unat (mmgmt_counter s) + 1 \<and> mm_top (s\<lparr>mmgmt_counter := c\<rparr>) = mm_top s + 4096"
proof -
  have "page_bytes n < 2 ^ 32" using assms(2) by (simp add: page_bytes_def)
  from alloc_pages [OF this] assms(2) have "drop_bit 12 (n + (4096 - n mod 4096)) = 1"
    by (simp add: word_unat_eq_iff)
  then have "malloc n s = (mmgmt_start s + mmgmt_counter s * 4096,
      s\<lparr>mmgmt_counter := mmgmt_counter s + 1\<rparr>)"
    using assms(1,3) by (simp add: malloc_eq mmgmt_alloc_def Let_def not_le [symmetric])
  moreover have "unat (mmgmt_start s + mmgmt_counter s * 4096) = mm_top s"
    using assms(4) by (simp add: mm_top_def unat_word_ariths)
  moreover have "unat (mmgmt_counter s + 1) = unat (mmgmt_counter s) + 1"
    using assms(3) unat_bounds(3) [of "mmgmt_len s"] by (simp add: word_less_nat_alt unat_word_ariths)
  ultimately show ?thesis
    by (intro exI [of _ "mmgmt_start s + mmgmt_counter s * 4096"] exI [of _ "mmgmt_counter s + 1"])
      (simp add: mm_top_def)
qed

section \<open>The largest chunk\<close>

text \<open>The search alone, without the report that the kernel prints for every entry.\<close>

fun greatest :: "nat \<Rightarrow> mmap_entry list \<Rightarrow> LONG \<Rightarrow> LONG \<Rightarrow> LONG \<times> LONG" where
  "greatest i [] mx maxi = (mx, maxi)"
| "greatest i (e # es) mx maxi =
     (if me_len e > ucast mx \<and> me_type e = MULTIBOOT_MEMORY_AVAILABLE
      then greatest (i + 1) es (ucast (me_len e)) (of_nat i)
      else greatest (i + 1) es mx maxi)"

lemma greatest_loop_wp [wp]:
  "tty_step s0 s \<Longrightarrow>
     (\<And>t. tty_step s0 t \<Longrightarrow> Q (fst (greatest i es mx maxi), snd (greatest i es mx maxi), t)) \<Longrightarrow>
     returns (greatest_loop i es mx maxi s) Q"
proof (induction es arbitrary: i mx maxi s)
  case (Cons e es)
  have step: "returns
      (if me_len e > ucast mx \<and> me_type e = MULTIBOOT_MEMORY_AVAILABLE
       then greatest_loop (i + 1) es (ucast (me_len e)) (of_nat i) t
       else greatest_loop (i + 1) es mx maxi t) Q" if "tty_step s0 t" for t
    using that Cons.prems(2) by (auto intro!: Cons.IH split: if_splits)
  show ?case
    unfolding greatest_loop.simps Let_def returns_bind
    by (rule wp, rule Cons.prems(1), (rule wp, assumption)+, rule step)
qed simp

definition available :: "mmap_entry \<Rightarrow> bool" where
  "available e \<longleftrightarrow> me_type e = MULTIBOOT_MEMORY_AVAILABLE"

text \<open>What the search knows of the first \<open>i\<close> entries.\<close>

definition best_of_first :: "mmap_entry list \<Rightarrow> nat \<Rightarrow> LONG \<Rightarrow> LONG \<Rightarrow> bool" where
  "best_of_first mmap i mx maxi \<longleftrightarrow>
     (\<forall>j < i. available (mmap ! j) \<longrightarrow> me_len (mmap ! j) \<le> ucast mx) \<and>
     (mx = 0 \<or> unat maxi < i \<and> available (mmap ! unat maxi) \<and> me_len (mmap ! unat maxi) = ucast mx)"

lemma ucast_long_quad: "q < 2 ^ 32 \<Longrightarrow> ucast (ucast q :: LONG) = q" for q :: QUAD
  by (simp add: word_unat_eq_iff unat_ucast_long word_less_nat_alt unat_mod_distrib
      unsigned_ucast_eq take_bit_eq_mod)

lemma greatest_best:
  assumes "best_of_first mmap i mx maxi" and "i \<le> length mmap" and "length mmap < 2 ^ 32"
    and "\<forall>e \<in> set mmap. available e \<longrightarrow> me_len e < 2 ^ 32"
    and "greatest i (drop i mmap) mx maxi = (m, k)"
  shows "best_of_first mmap (length mmap) m k"
  using assms
proof (induction "length mmap - i" arbitrary: i mx maxi)
  case (Suc d)
  then have i: "i < length mmap" by simp
  let ?e = "mmap ! i"
  show ?case
  proof (cases "me_len ?e > ucast mx \<and> available ?e")
    case True
    then have "best_of_first mmap (Suc i) (ucast (me_len ?e)) (of_nat i)"
      using Suc.prems i
      by (auto simp: best_of_first_def less_Suc_eq ucast_long_quad unat_of_nat_small
          intro: order.trans [OF _ less_imp_le])
    with Suc i True show ?thesis
      by (intro Suc.hyps(1) [of "Suc i" "ucast (me_len ?e)" "of_nat i"])
        (auto simp: Cons_nth_drop_Suc [symmetric] available_def)
  next
    case False
    then have "best_of_first mmap (Suc i) mx maxi"
      using Suc.prems(1) by (auto simp: best_of_first_def less_Suc_eq not_less)
    with Suc i False show ?thesis
      by (intro Suc.hyps(1) [of "Suc i" mx maxi])
        (auto simp: Cons_nth_drop_Suc [symmetric] available_def)
  qed
qed simp

lemma greatest_chosen:
  assumes "length mmap < 2 ^ 32" and "\<forall>e \<in> set mmap. available e \<longrightarrow> me_len e < 2 ^ 32"
    and "\<exists>e \<in> set mmap. available e \<and> me_len e \<noteq> 0"
    and "greatest 0 mmap 0 0 = (m, k)"
  shows "unat k < length mmap \<and> available (mmap ! unat k) \<and> me_len (mmap ! unat k) = ucast m \<and>
    (\<forall>e \<in> set mmap. available e \<longrightarrow> me_len e \<le> ucast m)"
proof -
  have "best_of_first mmap (length mmap) m k"
    using assms by (intro greatest_best [of mmap 0 0 0]) (auto simp: best_of_first_def)
  moreover from this assms(3) have "m \<noteq> 0"
    by (auto simp: best_of_first_def in_set_conv_nth)
  ultimately show ?thesis by (auto simp: best_of_first_def in_set_conv_nth)
qed

text \<open>A console with a memory manager, for the examples.\<close>

definition mm0 :: memmgmt where
  "mm0 = \<lparr>hw = \<lambda>_ _. 0, io_log = [], mem = \<lambda>_. 0, serial_status = [0, 0, 0, 0],
     vram = \<lambda>_. 0, text_x = 0, text_y = 0, strm = 0, fg = 7, bg = 0,
     mmgmt_counter = 0, mmgmt_start = 0x100000, mmgmt_len = 16\<rparr>"

definition mmap0 :: "mmap_entry list" where
  "mmap0 = [\<lparr>me_addr = 0, me_len = 0x9f000, me_type = 1\<rparr>,
            \<lparr>me_addr = 0xf0000, me_len = 0x10000, me_type = 2\<rparr>,
            \<lparr>me_addr = 0x100000, me_len = 0x7ee0000, me_type = 1\<rparr>]"

section \<open>The properties of the memory manager\<close>

text \<open>What setting up the allocator gives, and what it keeps.\<close>

lemma mmgmt_init_chosen:
  assumes ready: "tty_ready s" and len: "length mmap < 2 ^ 32"
    and fits: "\<forall>e \<in> set mmap. available e \<longrightarrow> me_len e < 2 ^ 32"
    and some: "\<exists>e \<in> set mmap. available e \<and> me_len e \<noteq> 0"
  shows "\<exists>t e. mmgmt_init mmap s = Some t \<and> tty_ready t \<and> mem t = mem s \<and> con_same s t \<and> mmgmt_counter t = 0 \<and>
    memmgmt.more t = memmgmt.more s \<and> (text_ok s \<longrightarrow> text_ok t) \<and>
    e \<in> set mmap \<and> available e \<and> (\<forall>f \<in> set mmap. available f \<longrightarrow> me_len f \<le> me_len e) \<and>
    mmgmt_start t = ucast (me_addr e) \<and> unat (mmgmt_len t) = unat (me_len e) div 4096"
proof -
  obtain m k where mk: "greatest 0 mmap 0 0 = (m, k)" by fastforce
  note best = greatest_chosen [OF len fits some mk]
  let ?e = "mmap ! unat k"
  have m: "unat m = unat (me_len ?e)" using best by simp
  have pages: "unat (drop_bit 12 m) = unat (me_len ?e) div 4096"
    by (simp only: unat_drop_bit_eq m) (simp add: drop_bit_eq_div)
  have "returns (mmgmt_init mmap s) (\<lambda>t. tty_ready t \<and> mem t = mem s \<and> con_same s t \<and> mmgmt_counter t = 0 \<and>
      memmgmt.more t = memmgmt.more s \<and> (text_ok s \<longrightarrow> text_ok t) \<and>
      mmgmt_start t = ucast (me_addr ?e) \<and> mmgmt_len t = drop_bit 12 m)"
    unfolding mmgmt_init_def mmgmt_greatest_chunk_def returns_bind Let_def
    by (rule wp, rule tty_step_refl [OF ready])
      (auto simp: mk best con_same_def dest!: tty_step_mm
        intro!: puts_wp [OF tty_step_refl] putn10_wp [OF tty_step_refl])
  then obtain t where t: "mmgmt_init mmap s = Some t" "tty_ready t" "mem t = mem s" "con_same s t" "mmgmt_counter t = 0"
      "memmgmt.more t = memmgmt.more s" "text_ok s \<longrightarrow> text_ok t" "mmgmt_start t = ucast (me_addr ?e)" "mmgmt_len t = drop_bit 12 m"
    by (auto dest!: returnsD)
  have "unat (mmgmt_len t) = unat (me_len ?e) div 4096" using pages t(9) by metis
  moreover have "?e \<in> set mmap" "available ?e" "\<forall>f \<in> set mmap. available f \<longrightarrow> me_len f \<le> me_len ?e"
    using best by auto
  ultimately show ?thesis using t by blast
qed

text \<open>
  On a memory map that names at least one non-empty available chunk, all of them
  shorter than 4 GiB, \<open>mmgmt_init\<close> returns with the allocator set up on an available chunk
  of the greatest length: its address, its length in whole pages, and no page in use.
\<close>

theorem mmgmt_init_largest:
  assumes ready: "tty_ready s" and len: "length mmap < 2 ^ 32"
    and fits: "\<forall>e \<in> set mmap. available e \<longrightarrow> me_len e < 2 ^ 32"
    and some: "\<exists>e \<in> set mmap. available e \<and> me_len e \<noteq> 0"
  shows "\<exists>t. mmgmt_init mmap s = Some t \<and> mmgmt_counter t = 0 \<and>
    (\<exists>e \<in> set mmap. available e \<and> (\<forall>f \<in> set mmap. available f \<longrightarrow> me_len f \<le> me_len e) \<and>
       mmgmt_start t = ucast (me_addr e) \<and> unat (mmgmt_len t) = unat (me_len e) div 4096)"
  using mmgmt_init_chosen [OF assms] by blast

theorem mmgmt_init_largest_witness:
  "\<exists>t. mmgmt_init mmap0 mm0 = Some t \<and> mmgmt_counter t = 0 \<and>
    (\<exists>e \<in> set mmap0. available e \<and> (\<forall>f \<in> set mmap0. available f \<longrightarrow> me_len f \<le> me_len e) \<and>
       mmgmt_start t = ucast (me_addr e) \<and> unat (mmgmt_len t) = unat (me_len e) div 4096)"
  by (rule mmgmt_init_largest)
    (auto simp: mm0_def mmap0_def tty_ready_def available_def MULTIBOOT_MEMORY_AVAILABLE_def)

text \<open>
  C37: Whatever sequence of requests \<open>malloc\<close> serves, the regions it hands out are disjoint, in
  ascending order and above the memory in use before, as long as the pages of all the
  requests together stay below the end of the 32-bit address space.
\<close>

theorem malloc_regions_disjoint:
  assumes "mm_top s + sum_list (map page_bytes ns) < 2 ^ 32"
    and "alloc_run malloc ns s = (rs, t)"
  shows "(\<forall>(a, n) \<in> set rs. mm_top s \<le> unat a) \<and>
    sorted_wrt (\<lambda>(a, n) (b, k). unat a + unat n \<le> unat b) rs"
  using assms mm.run_regions [of s ns rs t] by (simp add: malloc_eq)

theorem malloc_regions_disjoint_witness:
  "\<exists>rs t. alloc_run malloc [1, 4096, 0, 5000] mm0 = (rs, t) \<and>
     map fst rs = [0x100000, 0x101000, 0x103000] \<and>
     sorted_wrt (\<lambda>(a, n) (b, k). unat a + unat n \<le> unat b) rs"
proof -
  obtain rs t where run: "alloc_run malloc [1, 4096, 0, 5000] mm0 = (rs, t)" by fastforce
  have "map fst (fst (alloc_run malloc [1, 4096, 0, 5000] mm0)) = [0x100000, 0x101000, 0x103000]"
    by code_simp
  moreover have "mm_top mm0 + sum_list (map page_bytes [1, 4096, 0, 5000]) < 2 ^ 32"
    by (simp add: mm_top_def mm0_def page_bytes_def)
  ultimately show ?thesis
    using run malloc_regions_disjoint [of mm0 "[1, 4096, 0, 5000]" rs t] by auto
qed

text \<open>The end of the chunk that the allocator was set up on.\<close>

definition chunk_end :: "'a memmgmt_scheme \<Rightarrow> nat" where
  "chunk_end s = unat (mmgmt_start s) + unat (mmgmt_len s) * 4096"

text \<open>
  The allocator only tests that some page is left and not that the request fits: a
  request larger than what is left of the chunk is served with a region that ends beyond
  the chunk.
\<close>

theorem malloc_overruns_chunk:
  assumes "mmgmt_counter s < mmgmt_len s" and "chunk_end s < mm_top s + unat sz"
    and "mm_top s + page_bytes sz < 2 ^ 32"
  shows "unat (fst (malloc sz s)) = mm_top s \<and> chunk_end s < unat (fst (malloc sz s)) + unat sz"
proof -
  obtain a t where at: "mmgmt_alloc sz s = (a, t)" by fastforce
  have "unat (mmgmt_counter s) * 4096 < unat (mmgmt_len s) * 4096"
    using assms(1) by (simp add: word_less_nat_alt)
  with assms(2) have "sz \<noteq> 0" by (auto simp: chunk_end_def mm_top_def)
  with at assms(1) have "a = mmgmt_start s + mmgmt_counter s * 4096"
    by (simp add: mmgmt_alloc_def Let_def not_le [symmetric] split: if_splits)
  moreover have "unat (mmgmt_start s + mmgmt_counter s * 4096) = mm_top s"
    using assms(3) by (simp add: mm_top_def unat_word_ariths)
  ultimately show ?thesis using assms(2) at by (simp add: malloc_eq)
qed

theorem malloc_overruns_chunk_witness:
  "chunk_end mm0 < unat (fst (malloc 0x20000 mm0)) + unat (0x20000 :: LONG)"
  using malloc_overruns_chunk [of mm0 "0x20000"]
  by (simp add: mm0_def chunk_end_def mm_top_def page_bytes_def)

end
