(* ===== verification/Interrupts.thy ===== *)
theory Interrupts
  imports Memory
begin

text \<open>
  Interrupts, \<^verbatim>\<open>kernel/int.c\<close>: the segment and interrupt descriptor tables, the
  table of registered handlers and the two dispatchers.

  A handler is a function pointer; the handlers that the kernel registers are the
  constructors of the type \<open>isr\<close>, and a call through the pointer is the argument \<open>call\<close> of
  the dispatchers. The addresses that the linker chooses are the argument \<open>syms\<close>.
\<close>

section \<open>Data\<close>

record regs =
  r_ds :: LONG
  edi :: LONG
  esi :: LONG
  ebp :: LONG
  esp :: LONG
  ebx :: LONG
  edx :: LONG
  ecx :: LONG
  eax :: LONG
  int_no :: LONG
  err_code :: LONG
  eip :: LONG
  r_cs :: LONG
  eflags :: LONG
  useresp :: LONG
  r_ss :: LONG

record idt_entry =
  off1 :: WORD
  sel :: WORD
  idt_zero :: BYTE
  attr :: BYTE
  off2 :: WORD

record gdt_entry =
  limit :: WORD
  base_low :: WORD
  base_middle :: BYTE
  access :: BYTE
  granularity :: BYTE
  base_high :: BYTE

record idtd =
  d_limit :: WORD
  d_base :: LONG

datatype isr =
    timer_handler_ptr
  | kbd_interrupt_ptr
  | syscall_handler_ptr
  | pci_irq_handler_ptr
  | ide_handle_irq_ptr

text \<open>
  \<open>gdtr\<close> and \<open>idtr\<close> are the two processor registers that \<open>gdt_set\<close> and \<open>idt_set\<close> of
  \<^verbatim>\<open>kernel/inta.asm\<close> load.
\<close>

record interrupts = memmgmt +
  gdt :: "gdt_entry list"
  gdtd :: idtd
  idt :: "idt_entry list"
  idtd :: idtd
  int_handlers :: "isr option list"
  gdtr :: idtd
  idtr :: idtd

record symbols =
  gdt_addr :: LONG
  idt_addr :: LONG
  isr_addr :: "nat \<Rightarrow> LONG"
  irq_addr :: "nat \<Rightarrow> LONG"

definition idt_entry_zero :: idt_entry where
  "idt_entry_zero = \<lparr>off1 = 0, sel = 0, idt_zero = 0, attr = 0, off2 = 0\<rparr>"

section \<open>The descriptor tables\<close>

definition gdt_set_gate :: "BYTE \<Rightarrow> LONG \<Rightarrow> LONG \<Rightarrow> BYTE \<Rightarrow> BYTE \<Rightarrow>
    'a interrupts_scheme \<Rightarrow> 'a interrupts_scheme option" where
  "gdt_set_gate i base lim acc gran s =
     (if unat i < length (gdt s) then
        (let e = gdt s ! unat i;
             e = e\<lparr>base_low := ucast (base AND 0xFFFF)\<rparr>;
             e = e\<lparr>base_middle := ucast (drop_bit 16 base AND 0xFF)\<rparr>;
             e = e\<lparr>base_high := ucast (drop_bit 24 base AND 0xFF)\<rparr>;
             e = e\<lparr>limit := ucast (lim AND 0xFFFF)\<rparr>;
             e = e\<lparr>granularity := ucast (drop_bit 16 lim AND 0x0F)\<rparr>;
             e = e\<lparr>granularity := granularity e OR (gran AND 0xF0)\<rparr>;
             e = e\<lparr>access := acc\<rparr>
         in Some (s\<lparr>gdt := (gdt s)[unat i := e]\<rparr>))
      else None)"

definition idt_set_gate :: "BYTE \<Rightarrow> LONG \<Rightarrow> WORD \<Rightarrow> BYTE \<Rightarrow>
    'a interrupts_scheme \<Rightarrow> 'a interrupts_scheme option" where
  "idt_set_gate i base slct flags s =
     (if unat i < length (idt s) then
        (let e = idt s ! unat i;
             e = e\<lparr>off1 := ucast (base AND 0xFFFF)\<rparr>;
             e = e\<lparr>off2 := ucast (drop_bit 16 base AND 0xFFFF)\<rparr>;
             e = e\<lparr>sel := slct\<rparr>;
             e = e\<lparr>idt_zero := 0\<rparr>;
             e = e\<lparr>attr := flags\<rparr>
         in Some (s\<lparr>idt := (idt s)[unat i := e]\<rparr>))
      else None)"

definition gdt_setup :: "symbols \<Rightarrow> 'a interrupts_scheme \<Rightarrow> 'a interrupts_scheme option" where
  "gdt_setup syms s = do {
     s \<leftarrow> puts (str ''GDT setup...'') s;
     let s = s\<lparr>gdtd := \<lparr>d_limit = 8 * 5 - 1, d_base = gdt_addr syms\<rparr>\<rparr>;
     s \<leftarrow> gdt_set_gate 0 0 0 0 0 s;
     s \<leftarrow> gdt_set_gate 1 0 0xFFFFFFFF 0x9A 0xCF s;
     s \<leftarrow> gdt_set_gate 2 0 0xFFFFFFFF 0x92 0xCF s;
     s \<leftarrow> gdt_set_gate 3 0 0xFFFFFFFF 0xFA 0xCF s;
     s \<leftarrow> gdt_set_gate 4 0 0xFFFFFFFF 0xF2 0xCF s;
     let s = s\<lparr>gdtr := gdtd s\<rparr>;
     puts (str ''OK!'' @ [10]) s
   }"

text \<open>The calls of \<open>idt_set_gate\<close> for consecutive gates, one for each stub address.\<close>

fun idt_set_gates :: "nat \<Rightarrow> LONG list \<Rightarrow> 'a interrupts_scheme \<Rightarrow> 'a interrupts_scheme option" where
  "idt_set_gates i [] s = Some s"
| "idt_set_gates i (a # as) s = do {
     s \<leftarrow> idt_set_gate (of_nat i) a 0x08 0x8E s;
     idt_set_gates (i + 1) as s
   }"

definition pic_setup_writes :: "(LONG \<times> BYTE) list" where
  "pic_setup_writes =
     [(0x20, 0x11), (0xA0, 0x11), (0x21, 0x20), (0xA1, 0x28), (0x21, 0x04), (0xA1, 0x02),
      (0x21, 0x01), (0xA1, 0x01), (0x21, 0x0), (0xA1, 0x0)]"

definition idt_setup :: "symbols \<Rightarrow> 'a interrupts_scheme \<Rightarrow> 'a interrupts_scheme option" where
  "idt_setup syms s = do {
     s \<leftarrow> puts (str ''IDT setup...'') s;
     let s = s\<lparr>idtd := \<lparr>d_limit = 8 * 256 - 1, d_base = idt_addr syms\<rparr>\<rparr>;
     let s = s\<lparr>idt := replicate 256 idt_entry_zero\<rparr>;
     let s = fold (\<lambda>(p, v). outb p v) pic_setup_writes s;
     s \<leftarrow> idt_set_gates 0 (map (isr_addr syms) [0..<32]) s;
     s \<leftarrow> idt_set_gates 32 (map (irq_addr syms) [0..<16]) s;
     s \<leftarrow> idt_set_gate 127 (isr_addr syms 127) 0x08 0x8E s;
     let s = s\<lparr>idtr := idtd s\<rparr>;
     puts (str ''OK!'' @ [10]) s
   }"

definition int_setup :: "symbols \<Rightarrow> 'a interrupts_scheme \<Rightarrow> 'a interrupts_scheme option" where
  "int_setup syms s = do { s \<leftarrow> gdt_setup syms s; idt_setup syms s }"

section \<open>Handlers\<close>

definition int_regh :: "BYTE \<Rightarrow> isr option \<Rightarrow> 'a interrupts_scheme \<Rightarrow> 'a interrupts_scheme" where
  "int_regh n handler s = s\<lparr>int_handlers := (int_handlers s)[unat n := handler]\<rparr>"

text \<open>
  The dispatchers read the table before they test the bound, and \<open>irq_handler\<close> never
  tests it: outside the table there is no continuation. A handler gets a copy of the
  registers.
\<close>

definition isr_handler :: "(isr \<Rightarrow> regs \<Rightarrow> 'a interrupts_scheme \<Rightarrow> 'a interrupts_scheme option) \<Rightarrow>
    regs \<Rightarrow> 'a interrupts_scheme \<Rightarrow> 'a interrupts_scheme option" where
  "isr_handler call r s =
     (if unat (int_no r) < length (int_handlers s) then
        (case int_handlers s ! unat (int_no r) of
           Some h \<Rightarrow> if int_no r < 256 then call h r s else Some s
         | None \<Rightarrow> Some s)
      else None)"

definition irq_handler :: "(isr \<Rightarrow> regs \<Rightarrow> 'a interrupts_scheme \<Rightarrow> 'a interrupts_scheme option) \<Rightarrow>
    regs \<Rightarrow> 'a interrupts_scheme \<Rightarrow> 'a interrupts_scheme option" where
  "irq_handler call r s =
     (if unat (int_no r) < length (int_handlers s) then do {
        s \<leftarrow> (case int_handlers s ! unat (int_no r) of
               Some h \<Rightarrow> call h r s
             | None \<Rightarrow> Some s);
        let s = (if int_no r \<ge> 40 then outb 0xA0 0x20 s else s);
        let s = outb 0x20 0x20 s;
        Some s
      }
      else None)"

section \<open>What the processor reads from a descriptor\<close>

definition seg_base :: "gdt_entry \<Rightarrow> LONG" where
  "seg_base e = ucast (base_low e) OR push_bit 16 (ucast (base_middle e)) OR
     push_bit 24 (ucast (base_high e))"

definition seg_limit :: "gdt_entry \<Rightarrow> LONG" where
  "seg_limit e = ucast (limit e) OR push_bit 16 (ucast (granularity e AND 0x0F))"

definition seg_flags :: "gdt_entry \<Rightarrow> BYTE" where
  "seg_flags e = drop_bit 4 (granularity e)"

text \<open>The number of bytes of a segment: with flag 8 the limit counts pages of 4096 bytes.\<close>

definition seg_bytes :: "gdt_entry \<Rightarrow> nat" where
  "seg_bytes e = (unat (seg_limit e) + 1) * (if bit (seg_flags e) 3 then 4096 else 1)"

definition seg_dpl :: "gdt_entry \<Rightarrow> BYTE" where
  "seg_dpl e = drop_bit 5 (access e) AND 3"

definition gate_offset :: "idt_entry \<Rightarrow> LONG" where
  "gate_offset e = ucast (off1 e) OR push_bit 16 (ucast (off2 e))"

lemma tty_ready_int [simp]:
  "tty_ready (s\<lparr>gdt := a\<rparr>) = tty_ready s" "tty_ready (s\<lparr>gdtd := b\<rparr>) = tty_ready s"
  "tty_ready (s\<lparr>idt := c\<rparr>) = tty_ready s" "tty_ready (s\<lparr>idtd := b\<rparr>) = tty_ready s"
  "tty_ready (s\<lparr>gdtr := b\<rparr>) = tty_ready s" "tty_ready (s\<lparr>idtr := b\<rparr>) = tty_ready s"
  "tty_ready (s\<lparr>int_handlers := h\<rparr>) = tty_ready s" "tty_ready (s\<lparr>io_log := l\<rparr>) = tty_ready s"
  by (simp_all add: tty_ready_def)

lemma tty_step_int:
  "tty_step s t \<Longrightarrow> tty_ready t \<and> gdt t = gdt s \<and> gdtd t = gdtd s \<and> idt t = idt s \<and>
     idtd t = idtd s \<and> gdtr t = gdtr s \<and> idtr t = idtr s \<and> int_handlers t = int_handlers s"
  by (auto simp: tty_step_def elim!: printedE)

lemma mask_low4: "w AND 0x0F = take_bit 4 w" for w :: "'a::len word"
  by (simp add: take_bit_eq_mask mask_eq_exp_minus_1)

lemma gdt_set_gate_decode:
  assumes "unat i < length (gdt s)"
  shows "\<exists>e. gdt_set_gate i base lim acc gran s = Some (s\<lparr>gdt := (gdt s)[unat i := e]\<rparr>) \<and>
    seg_base e = base \<and> seg_limit e = take_bit 20 lim \<and> seg_flags e = drop_bit 4 gran \<and>
    access e = acc"
proof -
  let ?e = "\<lparr>limit = ucast lim, base_low = ucast base, base_middle = ucast (drop_bit 16 base),
    access = acc, granularity = ucast (drop_bit 16 lim AND 0x0F) OR (gran AND 0xF0),
    base_high = ucast (drop_bit 24 base)\<rparr>"
  have high: "(0xF0 :: BYTE) = push_bit 4 (mask 4)"
    by (simp add: mask_eq_exp_minus_1 push_bit_eq_mult)
  have F0: "gran AND 0xF0 = push_bit 4 (drop_bit 4 gran)"
    unfolding high by (rule bit_word_eqI) (auto simp: bit_simps)
  have "gdt_set_gate i base lim acc gran s = Some (s\<lparr>gdt := (gdt s)[unat i := ?e]\<rparr>)"
    using assms by (cases "gdt s ! unat i") (simp add: gdt_set_gate_def Let_def)
  moreover have "seg_base ?e = base"
  proof (rule bit_word_eqI)
    fix n assume "n < LENGTH(32)"
    then show "bit (seg_base ?e) n = bit base n"
      by (cases "24 \<le> n") (auto simp: seg_base_def bit_simps)
  qed
  moreover have "seg_limit ?e = take_bit 20 lim"
    unfolding seg_limit_def F0 mask_low4
    by (rule bit_word_eqI) (auto simp: bit_simps dest: bit_imp_le_length)
  moreover have "seg_flags ?e = drop_bit 4 gran"
    unfolding seg_flags_def F0 mask_low4
    by (rule bit_word_eqI) (auto simp: bit_simps dest: bit_imp_le_length)
  ultimately show ?thesis by (intro exI [of _ ?e]) simp
qed

lemma idt_set_gate_decode:
  assumes "unat i < length (idt s)"
  shows "\<exists>e. idt_set_gate i base slct flags s = Some (s\<lparr>idt := (idt s)[unat i := e]\<rparr>) \<and>
    gate_offset e = base \<and> sel e = slct \<and> attr e = flags"
proof -
  let ?e = "\<lparr>off1 = ucast base, sel = slct, idt_zero = 0, attr = flags, off2 = ucast (drop_bit 16 base)\<rparr>"
  have "idt_set_gate i base slct flags s = Some (s\<lparr>idt := (idt s)[unat i := ?e]\<rparr>)"
    using assms by (cases "idt s ! unat i") (simp add: idt_set_gate_def Let_def)
  moreover have "gate_offset ?e = base"
    unfolding gate_offset_def
    by (rule bit_word_eqI) (auto simp: bit_simps dest: bit_imp_le_length)
  ultimately show ?thesis by (intro exI [of _ ?e]) simp
qed

text \<open>A gate that leads to the stub at \<open>a\<close>: kernel code segment, present, interrupt gate.\<close>

definition leads_to :: "idt_entry \<Rightarrow> LONG \<Rightarrow> bool" where
  "leads_to e a \<longleftrightarrow> gate_offset e = a \<and> sel e = 0x08 \<and> attr e = 0x8E"

lemma idt_set_gates_decode:
  assumes "i + length as \<le> length (idt s)" and "i + length as \<le> 256"
  shows "\<exists>es. idt_set_gates i as s = Some (s\<lparr>idt := es\<rparr>) \<and> length es = length (idt s) \<and>
    (\<forall>j < length es. if i \<le> j \<and> j < i + length as then leads_to (es ! j) (as ! (j - i))
       else es ! j = idt s ! j)"
  using assms
proof (induction "as" arbitrary: i s)
  case Nil
  show ?case by (auto intro!: exI [of _ "idt s"])
next
  case (Cons a as)
  have i: "unat (of_nat i :: BYTE) = i" using Cons.prems by (intro unat_of_nat_small) simp
  with Cons.prems idt_set_gate_decode [of "of_nat i" s a "0x08" "0x8E"]
  obtain e where e: "idt_set_gate (of_nat i) a 0x08 0x8E s = Some (s\<lparr>idt := (idt s)[i := e]\<rparr>)"
    "leads_to e a" by (auto simp: leads_to_def)
  let ?s = "s\<lparr>idt := (idt s)[i := e]\<rparr>"
  have "Suc i + length as \<le> length (idt ?s)" and "Suc i + length as \<le> 256"
    using Cons.prems by simp_all
  from Cons.IH [OF this] obtain es where es: "idt_set_gates (Suc i) as ?s = Some (?s\<lparr>idt := es\<rparr>)"
    "length es = length (idt s)"
    "\<forall>j < length es. if Suc i \<le> j \<and> j < Suc i + length as then leads_to (es ! j) (as ! (j - Suc i))
       else es ! j = (idt s)[i := e] ! j"
    by auto
  have "if i \<le> j \<and> j < i + length (a # as) then leads_to (es ! j) ((a # as) ! (j - i))
      else es ! j = idt s ! j" if "j < length es" for j
    using es(3) [rule_format, OF that] that es(2) e(2)
    by (cases "j = i") (auto simp: nth_Cons' Suc_diff_le split: if_splits)
  with e(1) es show ?case by auto
qed

lemma idt_set_gates_range:
  assumes "i + n \<le> 256" and "length (idt s) = 256"
  shows "\<exists>es. idt_set_gates i (map f [0..<n]) s = Some (s\<lparr>idt := es\<rparr>) \<and> length es = 256 \<and>
    (\<forall>j < 256. if i \<le> j \<and> j < i + n then leads_to (es ! j) (f (j - i)) else es ! j = idt s ! j)"
proof -
  obtain es where "idt_set_gates i (map f [0..<n]) s = Some (s\<lparr>idt := es\<rparr>)" "length es = 256"
    "\<forall>j < length es. if i \<le> j \<and> j < i + length (map f [0..<n])
       then leads_to (es ! j) (map f [0..<n] ! (j - i)) else es ! j = idt s ! j"
    using idt_set_gates_decode [of i "map f [0..<n]" s] assms by auto
  then show ?thesis by (intro exI [of _ es]) auto
qed

text \<open>The same as rules for total correctness.\<close>

lemma gdt_set_gate_wp:
  assumes "unat i < length (gdt s)"
    and "\<And>e. seg_base e = base \<Longrightarrow> seg_limit e = take_bit 20 lim \<Longrightarrow> seg_flags e = drop_bit 4 gran \<Longrightarrow>
      access e = acc \<Longrightarrow> Q (s\<lparr>gdt := (gdt s)[unat i := e]\<rparr>)"
  shows "returns (gdt_set_gate i base lim acc gran s) Q"
  using gdt_set_gate_decode [OF assms(1), of base lim acc gran] assms(2) by auto

lemma fold_outb_log:
  "fold (\<lambda>(p, v). outb p v) ws s =
     s\<lparr>io_log := map (\<lambda>(p, v). Wr (Port8 (ucast p)) (ucast v)) (rev ws) @ io_log s\<rparr>"
  by (induction ws arbitrary: s) (auto simp: frames)

text \<open>A console with empty interrupt tables, for the examples.\<close>

definition int0 :: interrupts where
  "int0 = \<lparr>hw = \<lambda>_ _. 0, io_log = [], mem = \<lambda>_. 0, serial_status = [0, 0, 0, 0],
     vram = \<lambda>_. 0, text_x = 0, text_y = 0, strm = 0, fg = 7, bg = 0,
     mmgmt_counter = 0, mmgmt_start = 0x100000, mmgmt_len = 16,
     gdt = replicate 5 \<lparr>limit = 0, base_low = 0, base_middle = 0, access = 0, granularity = 0,
       base_high = 0\<rparr>, gdtd = \<lparr>d_limit = 0, d_base = 0\<rparr>, idt = replicate 256 idt_entry_zero,
     idtd = \<lparr>d_limit = 0, d_base = 0\<rparr>, int_handlers = replicate 256 None,
     gdtr = \<lparr>d_limit = 0, d_base = 0\<rparr>, idtr = \<lparr>d_limit = 0, d_base = 0\<rparr>\<rparr>"

definition syms0 :: symbols where
  "syms0 = \<lparr>gdt_addr = 0x106000, idt_addr = 0x107000, isr_addr = \<lambda>i. 0x101000 + 16 * of_nat i,
     irq_addr = \<lambda>i. 0x103000 + 16 * of_nat i\<rparr>"

definition regs_int :: "LONG \<Rightarrow> regs" where
  "regs_int n = \<lparr>r_ds = 0x10, edi = 0, esi = 0, ebp = 0, esp = 0, ebx = 0, edx = 0, ecx = 0,
     eax = 0, int_no = n, err_code = 0, eip = 0, r_cs = 0x08, eflags = 0x202, useresp = 0, r_ss = 0x10\<rparr>"

lemma int0_ok: "tty_ready int0" "length (gdt int0) = 5" "length (idt int0) = 256"
    "length (int_handlers int0) = 256"
  by (simp_all add: int0_def tty_ready_def)

section \<open>Dispatch\<close>

text \<open>The invariant of the tables: they have the sizes that the source declares.\<close>

definition int_ok :: "'a interrupts_scheme \<Rightarrow> bool" where
  "int_ok s \<longleftrightarrow> length (int_handlers s) = 256 \<and> length (gdt s) = 5 \<and> length (idt s) = 256"

text \<open>The end-of-interrupt commands for a vector, in the order they are written.\<close>

definition eoi :: "LONG \<Rightarrow> io_event list" where
  "eoi n = (if n \<ge> 40 then [Wr (Port8 0xA0) 0x20] else []) @ [Wr (Port8 0x20) 0x20]"

lemma irq_handler_eq:
  "unat (int_no r) < length (int_handlers s) \<Longrightarrow>
   irq_handler call r s = do {
     t \<leftarrow> (case int_handlers s ! unat (int_no r) of Some h \<Rightarrow> call h r s | None \<Rightarrow> Some s);
     Some (t\<lparr>io_log := rev (eoi (int_no r)) @ io_log t\<rparr>) }"
  by (simp add: irq_handler_def eoi_def frames Let_def cong: option.case_cong Option.bind_cong)

lemma isr_handler_eq:
  "unat (int_no r) < 256 \<Longrightarrow> length (int_handlers s) = 256 \<Longrightarrow>
   isr_handler call r s =
     (case int_handlers s ! unat (int_no r) of Some h \<Rightarrow> call h r s | None \<Rightarrow> Some s)"
  by (simp add: isr_handler_def word_less_nat_alt split: option.split)

lemma int_regh_handlers [simp]:
  "int_handlers (int_regh n h s) = (int_handlers s)[unat n := h]"
  by (simp add: int_regh_def)

lemma tty_ready_int_regh [simp]: "tty_ready (int_regh n h s) = tty_ready s"
  by (simp add: int_regh_def)

section \<open>The properties of the tables\<close>

text \<open>
  \<open>gdt_setup\<close> returns with the table loaded at its address and with its exact size, a null
  descriptor first, and four flat segments behind it: base 0, 4 GiB long, code then data for
  privilege level 0 and code then data for privilege level 3.
\<close>

theorem gdt_setup_flat:
  assumes "tty_ready s" and "length (gdt s) = 5"
  shows "\<exists>t. gdt_setup syms s = Some t \<and> gdtr t = \<lparr>d_limit = 39, d_base = gdt_addr syms\<rparr> \<and>
    length (gdt t) = 5 \<and> access (gdt t ! 0) = 0 \<and>
    (\<forall>i \<in> {1..4}. seg_base (gdt t ! i) = 0 \<and> seg_bytes (gdt t ! i) = 2 ^ 32 \<and>
       seg_dpl (gdt t ! i) = (if i \<le> 2 then 0 else 3) \<and>
       (bit (access (gdt t ! i)) 3 \<longleftrightarrow> i \<in> {1, 3}) \<and> bit (access (gdt t ! i)) 7)"
proof -
  have all4: "(\<forall>i \<in> {1..4}. P i) \<longleftrightarrow> P 1 \<and> P 2 \<and> P 3 \<and> P (4::nat)" for P
    by (auto simp: atLeastAtMost_iff le_Suc_eq numeral_eq_Suc)
  have seg: "seg_bytes e = 2 ^ 32"
    if "seg_limit e = take_bit 20 0xFFFFFFFF" "seg_flags e = drop_bit 4 0xCF" for e
    using that by (simp add: seg_bytes_def bit_iff_odd drop_bit_eq_div take_bit_eq_mod)
  have "returns (gdt_setup syms s) (\<lambda>t. gdtr t = \<lparr>d_limit = 39, d_base = gdt_addr syms\<rparr> \<and>
    length (gdt t) = 5 \<and> access (gdt t ! 0) = 0 \<and>
    (\<forall>i \<in> {1..4}. seg_base (gdt t ! i) = 0 \<and> seg_bytes (gdt t ! i) = 2 ^ 32 \<and>
       access (gdt t ! i) = [0x9A, 0x92, 0xFA, 0xF2] ! (i - 1)))"
    unfolding gdt_setup_def returns_bind Let_def all4
    by (rule puts_wp [OF tty_step_refl [OF assms(1)]], drule tty_step_int,
        (rule gdt_set_gate_wp, simp add: assms(2))+,
        rule puts_wp [OF tty_step_refl], simp, drule tty_step_int)
      (auto simp: assms(2) seg)
  then show ?thesis
    unfolding all4 by (auto dest!: returnsD simp: seg_dpl_def bit_iff_odd drop_bit_eq_div)
qed

theorem gdt_setup_flat_witness:
  "\<exists>t. gdt_setup syms0 int0 = Some t \<and> gdtr t = \<lparr>d_limit = 39, d_base = 0x106000\<rparr> \<and>
     length (gdt t) = 5"
  using gdt_setup_flat [OF int0_ok(1,2), of syms0] by (auto simp: syms0_def)

definition idt_gates_ok :: "symbols \<Rightarrow> idt_entry list \<Rightarrow> bool" where
  "idt_gates_ok syms gs \<longleftrightarrow> length gs = 256 \<and>
    (\<forall>i < 256. if i < 32 then leads_to (gs ! i) (isr_addr syms i)
       else if i < 48 then leads_to (gs ! i) (irq_addr syms (i - 32))
       else if i = 127 then leads_to (gs ! i) (isr_addr syms 127)
       else gs ! i = idt_entry_zero)"

lemma idt_gates_set:
  assumes u: "idt u = replicate 256 idt_entry_zero"
  shows "\<exists>gs. do {
      s \<leftarrow> idt_set_gates 0 (map (isr_addr syms) [0..<32]) u;
      s \<leftarrow> idt_set_gates 32 (map (irq_addr syms) [0..<16]) s;
      idt_set_gate 127 (isr_addr syms 127) 0x08 0x8E s
    } = Some (u\<lparr>idt := gs\<rparr>) \<and> idt_gates_ok syms gs"
proof -
  obtain es where es: "idt_set_gates 0 (map (isr_addr syms) [0..<32]) u = Some (u\<lparr>idt := es\<rparr>)"
      "length es = 256"
      "\<forall>j < 256. if 0 \<le> j \<and> j < 0 + 32 then leads_to (es ! j) (isr_addr syms (j - 0))
         else es ! j = idt u ! j"
    using idt_set_gates_range [of 0 32 u "isr_addr syms"] u by (auto simp del: upt_rec_numeral)
  obtain fs where fs: "idt_set_gates 32 (map (irq_addr syms) [0..<16]) (u\<lparr>idt := es\<rparr>) =
        Some (u\<lparr>idt := es, idt := fs\<rparr>)" "length fs = 256"
      "\<forall>j < 256. if 32 \<le> j \<and> j < 32 + 16 then leads_to (fs ! j) (irq_addr syms (j - 32))
         else fs ! j = idt (u\<lparr>idt := es\<rparr>) ! j"
    using idt_set_gates_range [of 32 16 "u\<lparr>idt := es\<rparr>" "irq_addr syms"] es(2)
    by (auto simp del: upt_rec_numeral)
  obtain e where e: "idt_set_gate 127 (isr_addr syms 127) 0x08 0x8E (u\<lparr>idt := fs\<rparr>) =
        Some (u\<lparr>idt := fs[127 := e]\<rparr>)" "leads_to e (isr_addr syms 127)"
    using idt_set_gate_decode [of 127 "u\<lparr>idt := fs\<rparr>" "isr_addr syms 127" "0x08" "0x8E"] fs(2)
    by (auto simp: leads_to_def)
  have "idt_gates_ok syms (fs[127 := e])"
    unfolding idt_gates_ok_def
  proof (intro conjI allI impI)
    fix i :: nat
    assume i: "i < 256"
    show "if i < 32 then leads_to (fs[127 := e] ! i) (isr_addr syms i)
       else if i < 48 then leads_to (fs[127 := e] ! i) (irq_addr syms (i - 32))
       else if i = 127 then leads_to (fs[127 := e] ! i) (isr_addr syms 127)
       else fs[127 := e] ! i = idt_entry_zero"
      using es(3) [rule_format, OF i] fs(3) [rule_format, OF i] fs(2) e(2) i u
      by (cases "i = 127") (auto split: if_splits)
  qed (simp add: fs(2))
  with es(1) fs(1) e(1) show ?thesis by auto
qed

text \<open>
  C28: \<open>idt_setup\<close> returns with a table of 256 gates loaded: the gates 0 to 31 lead to the
  exception stubs, 32 to 47 to the stubs of the interrupt lines 0 to 15 in order, 127 to the
  system call stub, and every other gate is empty.
\<close>

theorem idt_setup_gates:
  assumes "tty_ready s"
  shows "\<exists>t. idt_setup syms s = Some t \<and> idtr t = \<lparr>d_limit = 2047, d_base = idt_addr syms\<rparr> \<and>
    length (idt t) = 256 \<and>
    (\<forall>i < 256. if i < 32 then leads_to (idt t ! i) (isr_addr syms i)
       else if i < 48 then leads_to (idt t ! i) (irq_addr syms (i - 32))
       else if i = 127 then leads_to (idt t ! i) (isr_addr syms 127)
       else idt t ! i = idt_entry_zero)"
proof -
  obtain u where u: "puts (str ''IDT setup...'') s = Some u" "tty_ready u"
    using puts_tty_step [OF assms] tty_step_ready by blast
  define v where "v = fold (\<lambda>(p, v). outb p v) pic_setup_writes
    (u\<lparr>idtd := \<lparr>d_limit = 2047, d_base = idt_addr syms\<rparr>, idt := replicate 256 idt_entry_zero\<rparr>)"
  have v: "idt v = replicate 256 idt_entry_zero" "tty_ready v"
      "idtd v = \<lparr>d_limit = 2047, d_base = idt_addr syms\<rparr>"
    using u(2) by (simp_all add: v_def fold_outb_log)
  obtain gs where gs: "do {
      s \<leftarrow> idt_set_gates 0 (map (isr_addr syms) [0..<32]) v;
      s \<leftarrow> idt_set_gates 32 (map (irq_addr syms) [0..<16]) s;
      idt_set_gate 127 (isr_addr syms 127) 0x08 0x8E s
    } = Some (v\<lparr>idt := gs\<rparr>)" and ok: "idt_gates_ok syms gs"
    using idt_gates_set [OF v(1)] by blast
  let ?v = "v\<lparr>idt := gs, idtr := idtd v\<rparr>"
  obtain t where t: "puts (str ''OK!'' @ [10]) ?v = Some t" "tty_step ?v t"
    using puts_tty_step [of ?v] v(2) by auto
  have "idt_setup syms s = Some t"
    unfolding idt_setup_def using u(1) gs t(1)
    by (auto simp: Let_def v_def [symmetric] bind_eq_Some_conv simp del: upt_rec_numeral)
  with tty_step_int [OF t(2)] v ok show ?thesis by (simp add: idt_gates_ok_def)
qed

theorem idt_setup_gates_witness:
  "\<exists>t. idt_setup syms0 int0 = Some t \<and> leads_to (idt t ! 33) 0x103010"
proof -
  from idt_setup_gates [OF int0_ok(1), of syms0] obtain t where
    t: "idt_setup syms0 int0 = Some t"
    "\<forall>i < 256. if i < 32 then leads_to (idt t ! i) (isr_addr syms0 i)
       else if i < 48 then leads_to (idt t ! i) (irq_addr syms0 (i - 32))
       else if i = 127 then leads_to (idt t ! i) (isr_addr syms0 127)
       else idt t ! i = idt_entry_zero" by blast
  from t(1) t(2) [rule_format, of 33] show ?thesis by (simp add: syms0_def)
qed

end
