(* ===== verification/Timer.thy ===== *)
theory Timer
  imports Interrupts
begin

text \<open>
  The timer, \<^verbatim>\<open>dev/timer.c\<close>: the interrupt handler that counts ticks and seconds, and
  the sleep loop that waits for the counter to move.
\<close>

record timer = interrupts +
  seconds :: LONG
  ticks :: LONG
  ticks2 :: LONG

definition IRQ0 :: BYTE where
  "IRQ0 = 32"

definition timer_handler :: "regs \<Rightarrow> 'a timer_scheme \<Rightarrow> 'a timer_scheme" where
  "timer_handler r s =
     (let s = s\<lparr>ticks := ticks s + 1\<rparr>;
          s = s\<lparr>ticks2 := ticks2 s + 1\<rparr>
      in if ticks s = 100 then s\<lparr>seconds := seconds s + 1, ticks := 0\<rparr> else s)"

definition timer_setup :: "'a timer_scheme \<Rightarrow> 'a timer_scheme option" where
  "timer_setup s = do {
     s \<leftarrow> puts (str ''[timer] Timer setup...'') s;
     let s = s\<lparr>ticks := 0, ticks2 := 0, seconds := 0\<rparr>;
     let s = outb 0x43 0x36 s;
     let divisor = (11931 :: WORD);
     let l = (ucast (divisor AND 0xFF) :: BYTE);
     let h = (ucast (drop_bit 8 divisor AND 0xFF) :: BYTE);
     let s = outb 0x40 l s;
     let s = outb 0x40 h s;
     let s = int_regh IRQ0 (Some timer_handler_ptr) s;
     puts (str ''OK!'' @ [10]) s
   }"

text \<open>
  The sleep loop only reads the counter; what moves the counter are the interrupts that the
  processor takes between two evaluations of the condition. They are the argument \<open>irqs\<close>.
\<close>

definition sleep_loop :: "('a timer_scheme \<Rightarrow> 'a timer_scheme option) \<Rightarrow> LONG \<Rightarrow>
    'a timer_scheme \<Rightarrow> 'a timer_scheme option" where
  "sleep_loop irqs stop =
     spin (\<lambda>s. if stop > ticks2 s then do { s \<leftarrow> irqs s; Some (True, s) } else Some (False, s))"

definition sleep :: "('a timer_scheme \<Rightarrow> 'a timer_scheme option) \<Rightarrow> LONG \<Rightarrow>
    'a timer_scheme \<Rightarrow> 'a timer_scheme option" where
  "sleep irqs n s = (if ticks2 s = 0 then Some s else sleep_loop irqs (ticks2 s + n) s)"

definition ticks_now :: "'a timer_scheme \<Rightarrow> LONG" where
  "ticks_now s = ticks2 s"

definition time :: "'a timer_scheme \<Rightarrow> LONG" where
  "time s = seconds s"

section \<open>The clock\<close>

text \<open>The invariant: a hundred ticks make a second, and the two counts agree modulo \<open>2 ^ 32\<close>.\<close>

definition timer_ok :: "'a timer_scheme \<Rightarrow> bool" where
  "timer_ok s \<longleftrightarrow> ticks s < 100 \<and> seconds s * 100 + ticks s = ticks2 s"

lemma timer_handler_ticks2 [simp]: "ticks2 (timer_handler r s) = ticks2 s + 1"
  by (simp add: timer_handler_def Let_def)

lemma word_less_100_inc: "w < 100 \<Longrightarrow> w + 1 = 100 \<or> w + 1 < 100" for w :: LONG
  by (auto simp: word_less_nat_alt word_unat_eq_iff unat_word_ariths)

lemma timer_handler_ok [invs]:
  assumes "timer_ok s"
  shows "timer_ok (timer_handler r s)"
proof -
  have sum: "seconds s * 100 + (ticks s + 1) = ticks2 s + 1"
    using assms by (simp add: timer_ok_def add.assoc [symmetric])
  show ?thesis
  proof (cases "ticks s + 1 = 100")
    case True
    then show ?thesis
      using sum by (simp only: timer_ok_def timer_handler_def Let_def) (simp add: distrib_right)
  next
    case False
    then show ?thesis
      using sum assms word_less_100_inc [of "ticks s"]
      by (simp add: timer_ok_def timer_handler_def Let_def add.assoc)
  qed
qed

text \<open>
  The contract of the interrupts that the sleep loop waits for: each round is one timer tick,
  and keeps an invariant of the kernel.
\<close>

locale clock =
  fixes irqs :: "'a timer_scheme \<Rightarrow> 'a timer_scheme option"
    and inv :: "'a timer_scheme \<Rightarrow> bool"
  assumes tick: "inv s \<Longrightarrow> \<exists>t. irqs s = Some t \<and> inv t \<and> ticks2 t = ticks2 s + 1"
begin

lemma sleep_loop_returns:
  assumes "inv s"
  shows "\<exists>t. sleep_loop irqs stop s = Some t \<and> inv t \<and>
    ticks2 t = (if ticks2 s < stop then stop else ticks2 s)"
  using assms
proof (induction "unat stop - unat (ticks2 s)" arbitrary: s)
  case 0
  then have "\<not> ticks2 s < stop" by (simp add: word_less_nat_alt)
  with 0 show ?case by (simp add: sleep_loop_def spin_stop)
next
  case (Suc n)
  then have less: "ticks2 s < stop" by (simp add: word_less_nat_alt)
  obtain t where t: "irqs s = Some t" "inv t" "ticks2 t = ticks2 s + 1"
    using tick [OF Suc.prems] by blast
  have u: "unat (ticks2 t) = unat (ticks2 s) + 1"
    using less unat_bounds(3) [of stop] by (simp add: t word_less_nat_alt unat_word_ariths)
  have "sleep_loop irqs stop s = sleep_loop irqs stop t"
    unfolding sleep_loop_def by (rule spin_again) (simp add: less t)
  moreover have "ticks2 t \<le> stop" using less u by (simp add: word_less_nat_alt word_le_nat_alt)
  then have "(if ticks2 t < stop then stop else ticks2 t) = stop" by auto
  moreover have "n = unat stop - unat (ticks2 t)" using Suc.hyps(2) u by simp
  ultimately show ?case
    using Suc.hyps(1) [of t] t(2) less by simp
qed

lemma sleep_returns:
  assumes "inv s"
  shows "\<exists>t. sleep irqs n s = Some t \<and> inv t \<and>
    ticks2 t = (if ticks2 s \<noteq> 0 \<and> ticks2 s < ticks2 s + n then ticks2 s + n else ticks2 s)"
  using assms sleep_loop_returns [OF assms, of "ticks2 s + n"] by (auto simp: sleep_def)

end

end
