(* ===== verification/Kbd.thy ===== *)
theory Kbd
  imports Timer
begin

text \<open>
  The keyboard driver, \<^verbatim>\<open>dev/kbd.c\<close>: the PS/2 controller commands, the interrupt
  handler that turns scan codes into events, and the buffer of events, a stack that grows
  downwards from the end of the array. The stack pointer is the index that
  it points to, an integer: it may leave the array on both sides, and an access through it then
  has no continuation.
\<close>

record kbd_event =
  keycode :: BYTE
  release :: bool
  ev_ctrl :: bool
  ev_alt :: bool
  ev_shift :: bool
  special :: bool

text \<open>The value that a bit field of width one keeps of what is assigned to it.\<close>

definition bitfield1 :: "LONG \<Rightarrow> bool" where
  "bitfield1 v = bit v 0"

definition kbd_event_zero :: kbd_event where
  "kbd_event_zero = \<lparr>keycode = 0, release = False, ev_ctrl = False, ev_alt = False,
     ev_shift = False, special = False\<rparr>"

record kbd = timer +
  kbd_stack :: "kbd_event list"
  kbd_stack_sp :: int
  ctrl :: BYTE
  alt :: BYTE
  shift :: BYTE
  kbd_keycode_map :: "BYTE list"
  kbd_keycode_shift_map :: "BYTE list"

definition IRQ1 :: BYTE where
  "IRQ1 = 33"

text \<open>The two tables have 128 entries, with a few designated ones and zeros elsewhere.\<close>

definition keymap :: "BYTE list \<Rightarrow> BYTE list" where
  "keymap cs = (cs @ replicate (128 - length cs) 0)[74 := 45, 78 := 43, 127 := 0]"

definition kbd_keycode_default_map :: "BYTE list" where
  "kbd_keycode_default_map = keymap
     ([0, 0] @ str ''1234567890-='' @ [8, 9] @ str ''qwertyuiop{}'' @ [10, 0] @ str ''asdfghjkl;'' @
      [39, 96, 0] @ str ''|zxcvbnm,./'' @ [0] @ str ''*'' @ [0] @ str '' '')"

definition kbd_keycode_shift_default_map :: "BYTE list" where
  "kbd_keycode_shift_default_map = keymap
     ([0, 0] @ str ''!@#$%^&*()_+'' @ [8, 9] @ str ''QWERTYUIOP[]'' @ [10, 0] @ str ''ASDFGHJKL:'' @
      [34, 126, 0, 39] @ str ''ZXCVBNM<>?'' @ [0] @ str ''*'' @ [0] @ str '' '')"

section \<open>The controller\<close>

definition kbd_ps2_cmd :: "BYTE \<Rightarrow> 'a machine_scheme \<Rightarrow> 'a machine_scheme option" where
  "kbd_ps2_cmd cmd s = do {
     s \<leftarrow> spin (\<lambda>s. let (v, s) = inb 0x64 s in Some (v AND 2 \<noteq> 0, s)) s;
     Some (outb 0x64 cmd s)
   }"

definition kbd_ps2_flush_buf :: "'a machine_scheme \<Rightarrow> 'a machine_scheme" where
  "kbd_ps2_flush_buf s = snd (inb 0x60 s)"

definition kbd_ps2_read_data :: "'a machine_scheme \<Rightarrow> (BYTE \<times> 'a machine_scheme) option" where
  "kbd_ps2_read_data s = do {
     s \<leftarrow> spin (\<lambda>s. let (v, s) = inb 0x64 s in Some (NOT v AND 1 \<noteq> 0, s)) s;
     Some (inb 0x60 s)
   }"

definition kbd_ps2_write_data :: "BYTE \<Rightarrow> 'a machine_scheme \<Rightarrow> 'a machine_scheme option" where
  "kbd_ps2_write_data val s = do {
     s \<leftarrow> spin (\<lambda>s. let (v, s) = inb 0x64 s in Some (v AND 2 \<noteq> 0, s)) s;
     Some (outb 0x60 val s)
   }"

definition kbd_ps2_selftest :: "'a machine_scheme \<Rightarrow> (bool \<times> 'a machine_scheme) option" where
  "kbd_ps2_selftest s = do {
     s \<leftarrow> kbd_ps2_cmd 0xAA s;
     (v, s) \<leftarrow> kbd_ps2_read_data s;
     Some (v = 0x55, s)
   }"

definition kbd_ps2_testch :: "BYTE \<Rightarrow> 'a machine_scheme \<Rightarrow> (bool \<times> 'a machine_scheme) option" where
  "kbd_ps2_testch ch s =
     (if ch = 1 then do {
        s \<leftarrow> kbd_ps2_cmd 0xAB s;
        (v, s) \<leftarrow> kbd_ps2_read_data s;
        Some (v = 0, s)
      }
      else if ch = 2 then do {
        s \<leftarrow> kbd_ps2_cmd 0xA9 s;
        (v, s) \<leftarrow> kbd_ps2_read_data s;
        Some (v = 0, s)
      }
      else Some (False, s))"

definition kbd_ps2_enable_irq :: "'a machine_scheme \<Rightarrow> 'a machine_scheme option" where
  "kbd_ps2_enable_irq s = do { s \<leftarrow> kbd_ps2_cmd 0x60 s; kbd_ps2_write_data 0x67 s }"

section \<open>The handler and the event stack\<close>

text \<open>
  The handler in three parts: reading the ports, the scan code, and the store through the
  stack pointer, which moves only while it is above the start of the array.
\<close>

definition kbd_push :: "kbd_event \<Rightarrow> 'a kbd_scheme \<Rightarrow> 'a kbd_scheme option" where
  "kbd_push e s =
     (if 0 \<le> kbd_stack_sp s \<and> kbd_stack_sp s < int (length (kbd_stack s)) then
        (let s = s\<lparr>kbd_stack := (kbd_stack s)[nat (kbd_stack_sp s) := e]\<rparr>
         in Some (if kbd_stack_sp s \<noteq> 0 then s\<lparr>kbd_stack_sp := kbd_stack_sp s - 1\<rparr> else s))
      else None)"

definition kbd_key :: "bool \<Rightarrow> BYTE \<Rightarrow> 'a kbd_scheme \<Rightarrow> 'a kbd_scheme option" where
  "kbd_key spec scancode s =
     (let kc = (ucast scancode AND NOT 0x80 :: LONG);
          made = (if scancode AND 0x80 = 0 then 1 else 0)
      in if kc = 0x2a \<or> kc = 0x36 then Some (s\<lparr>shift := made\<rparr>)
         else if kc = 0x1d then Some (s\<lparr>ctrl := made\<rparr>)
         else if kc = 0x38 then Some (s\<lparr>alt := made\<rparr>)
         else kbd_push
           \<lparr>keycode = ucast kc,
            release = bitfield1 (ucast (scancode AND 0x80)),
            ev_ctrl = bitfield1 (ucast (ctrl s)),
            ev_alt = bitfield1 (ucast (alt s)),
            ev_shift = bitfield1 (ucast (shift s)),
            special = spec\<rparr> s)"

definition kbd_interrupt :: "regs \<Rightarrow> 'a kbd_scheme \<Rightarrow> 'a kbd_scheme option" where
  "kbd_interrupt r s =
     (let (st, s) = inb 0x64 s
      in if st AND 1 = 0 then Some s
         else
           (let (scancode, s) = inb 0x60 s;
                (a, s) = inb 0x61 s
            in if scancode = 0xE0 then
                 (let (scancode, s) = inb 0x60 s;
                      (a, s) = inb 0x61 s;
                      s = outb 0x61 (a OR 0x80) s;
                      s = outb 0x61 a s
                  in kbd_key True scancode s)
               else kbd_key False scancode s))"

definition kbd_reset :: "'a kbd_scheme \<Rightarrow> 'a kbd_scheme" where
  "kbd_reset s = s\<lparr>kbd_stack_sp := 511\<rparr>"

definition kbd_avail :: "'a kbd_scheme \<Rightarrow> bool" where
  "kbd_avail s \<longleftrightarrow> kbd_stack_sp s \<noteq> 511"

definition kbd_pop :: "'a kbd_scheme \<Rightarrow> (kbd_event \<times> 'a kbd_scheme) option" where
  "kbd_pop s =
     (let s = s\<lparr>kbd_stack_sp := kbd_stack_sp s + 1\<rparr>
      in if 0 \<le> kbd_stack_sp s \<and> kbd_stack_sp s < int (length (kbd_stack s))
         then Some (kbd_stack s ! nat (kbd_stack_sp s), s) else None)"

definition kbd_kc2ch :: "kbd_event \<Rightarrow> BYTE" where
  "kbd_kc2ch kc = 0"

text \<open>The end of the setup, after both tests have passed.\<close>

definition kbd_start :: "'a kbd_scheme \<Rightarrow> 'a kbd_scheme option" where
  "kbd_start s = do {
     s \<leftarrow> kbd_ps2_cmd 0xAE s;
     s \<leftarrow> kbd_ps2_enable_irq s;
     s \<leftarrow> kbd_ps2_write_data 0xFF s;
     let s = s\<lparr>ctrl := 0, alt := 0, shift := 0\<rparr>;
     let s = int_regh IRQ1 (Some kbd_interrupt_ptr) s;
     let s = s\<lparr>kbd_keycode_map := kbd_keycode_default_map,
               kbd_keycode_shift_map := kbd_keycode_shift_default_map\<rparr>;
     puts (str ''OK!'' @ [10]) s
   }"

definition kbd_setup :: "'a kbd_scheme \<Rightarrow> 'a kbd_scheme option" where
  "kbd_setup s = do {
     s \<leftarrow> puts (str ''[kbd] Keyboard setup...'') s;
     let s = s\<lparr>kbd_stack := replicate 512 kbd_event_zero\<rparr>;
     s \<leftarrow> kbd_ps2_cmd 0xAD s;
     s \<leftarrow> kbd_ps2_cmd 0xA7 s;
     let s = kbd_ps2_flush_buf s;
     (ok, s) \<leftarrow> kbd_ps2_selftest s;
     if \<not> ok then puts (str ''SELF TEST FAIL'' @ [10]) s
     else do {
       (ok, s) \<leftarrow> kbd_ps2_testch 1 s;
       if \<not> ok then puts (str ''CH1 TEST FAIL'' @ [10]) s else kbd_start s
     }
   }"

section \<open>The event stack\<close>

definition kbd_ok :: "'a kbd_scheme \<Rightarrow> bool" where
  "kbd_ok s \<longleftrightarrow> length (kbd_stack s) = 512 \<and> 0 \<le> kbd_stack_sp s \<and> kbd_stack_sp s \<le> 511"

text \<open>The events that wait to be read, the latest first.\<close>

definition kbd_events :: "'a kbd_scheme \<Rightarrow> kbd_event list" where
  "kbd_events s = drop (nat (kbd_stack_sp s + 1)) (kbd_stack s)"

fun push_all :: "('e \<Rightarrow> 's \<Rightarrow> 's option) \<Rightarrow> 'e list \<Rightarrow> 's \<Rightarrow> 's option" where
  "push_all push [] s = Some s"
| "push_all push (e # es) s = do { s \<leftarrow> push e s; push_all push es s }"

fun pop_n :: "('s \<Rightarrow> ('e \<times> 's) option) \<Rightarrow> nat \<Rightarrow> 's \<Rightarrow> ('e list \<times> 's) option" where
  "pop_n pop 0 s = Some ([], s)"
| "pop_n pop (Suc n) s = do { (e, s) \<leftarrow> pop s; (es, s) \<leftarrow> pop_n pop n s; Some (e # es, s) }"

text \<open>
  The contract of a bounded stack of events: a push adds one event in front, or none when
  the stack is full; a pop takes the first one. Its clients are the system calls.
\<close>

locale event_stack =
  fixes inv :: "'s \<Rightarrow> bool"
    and events :: "'s \<Rightarrow> 'e list"
    and capacity :: nat
    and avail :: "'s \<Rightarrow> bool"
    and push :: "'e \<Rightarrow> 's \<Rightarrow> 's option"
    and pop :: "'s \<Rightarrow> ('e \<times> 's) option"
  assumes avail_iff: "inv s \<Longrightarrow> avail s \<longleftrightarrow> events s \<noteq> []"
    and push_events: "inv s \<Longrightarrow> \<exists>t. push e s = Some t \<and> inv t \<and>
      events t = (if length (events s) < capacity then e # events s else events s)"
    and pop_events: "inv s \<Longrightarrow> events s = e # es \<Longrightarrow>
      \<exists>t. pop s = Some (e, t) \<and> inv t \<and> events t = es"
begin

lemma push_all_events:
  assumes "inv s" and "length (events s) + length es \<le> capacity"
  shows "\<exists>t. push_all push es s = Some t \<and> inv t \<and> events t = rev es @ events s"
  using assms
proof (induction es arbitrary: s)
  case (Cons e es)
  obtain u where u: "push e s = Some u" "inv u" "events u = e # events s"
    using push_events [OF Cons.prems(1), of e] Cons.prems(2) by auto
  with Cons.IH [of u] Cons.prems(2) show ?case by auto
qed simp

lemma pop_n_events:
  assumes "inv s" and "events s = es @ rest"
  shows "\<exists>t. pop_n pop (length es) s = Some (es, t) \<and> inv t \<and> events t = rest"
  using assms
proof (induction es arbitrary: s)
  case (Cons e es)
  obtain u where "pop s = Some (e, u)" "inv u" "events u = es @ rest"
    using pop_events [OF Cons.prems(1), of e "es @ rest"] Cons.prems(2) by auto
  with Cons.IH [of u] show ?case by auto
qed simp

text \<open>What is pushed comes back in the reverse order.\<close>

lemma push_pop:
  assumes "inv s" and "length (events s) + length es \<le> capacity"
  shows "\<exists>t u. push_all push es s = Some t \<and> pop_n pop (length es) t = Some (rev es, u) \<and>
    events u = events s"
proof -
  obtain t where t: "push_all push es s = Some t" "inv t" "events t = rev es @ events s"
    using push_all_events [OF assms] by blast
  from pop_n_events [OF t(2,3)] t(1) show ?thesis by auto
qed

end

lemma kbd_push_events:
  assumes "kbd_ok s"
  shows "\<exists>t. kbd_push e s = Some t \<and> kbd_ok t \<and>
    kbd_events t = (if length (kbd_events s) < 511 then e # kbd_events s else kbd_events s)"
proof -
  obtain p where p: "kbd_stack_sp s = int p" "p \<le> 511" and len: "length (kbd_stack s) = 512"
    using assms by (auto simp: kbd_ok_def intro: that [of "nat (kbd_stack_sp s)"])
  have "drop p ((kbd_stack s)[p := e]) = e # drop (Suc p) (kbd_stack s)"
    using len p(2) by (simp add: drop_update_swap Cons_nth_drop_Suc [symmetric])
  then show ?thesis
    using len p by (cases "p = 0") (auto simp: kbd_push_def kbd_ok_def kbd_events_def Let_def nat_add_distrib)
qed

lemma kbd_pop_events:
  assumes "kbd_ok s" and "kbd_events s = e # es"
  shows "\<exists>t. kbd_pop s = Some (e, t) \<and> kbd_ok t \<and> kbd_events t = es"
proof -
  obtain p where p: "kbd_stack_sp s = int p" and len: "length (kbd_stack s) = 512"
    using assms(1) by (auto simp: kbd_ok_def intro: that [of "nat (kbd_stack_sp s)"])
  then have ev: "drop (Suc p) (kbd_stack s) = e # es" using assms(2) by (simp add: kbd_events_def nat_add_distrib)
  then have q: "Suc p < length (kbd_stack s)" by (metis drop_all list.discI not_le)
  then have "kbd_stack s ! Suc p = e" and "drop (Suc (Suc p)) (kbd_stack s) = es"
    using ev by (auto simp: Cons_nth_drop_Suc [symmetric])
  with len p q show ?thesis by (auto simp: kbd_pop_def kbd_ok_def kbd_events_def nat_add_distrib)
qed

interpretation kbdq: event_stack kbd_ok kbd_events 511 kbd_avail kbd_push kbd_pop
proof
  fix s :: "'a kbd_scheme"
  assume "kbd_ok s"
  then show "kbd_avail s \<longleftrightarrow> kbd_events s \<noteq> []"
    by (auto simp: kbd_avail_def kbd_events_def kbd_ok_def nat_le_iff)
qed (use kbd_push_events kbd_pop_events in blast)+

section \<open>The properties of the keyboard\<close>

text \<open>A kernel state with an empty event stack, for the examples.\<close>

definition kbd0 :: kbd where
  "kbd0 = interrupts.extend int0 \<lparr>seconds = 0, ticks = 0, ticks2 = 0,
     kbd_stack = replicate 512 kbd_event_zero, kbd_stack_sp = 511, ctrl = 0, alt = 0, shift = 0,
     kbd_keycode_map = [], kbd_keycode_shift_map = []\<rparr>"

lemma kbd0_ok: "kbd_ok kbd0" "kbd_events kbd0 = []"
  by (simp_all add: kbd0_def kbd_ok_def kbd_events_def interrupts.defs)

text \<open>The key code is the scan code without its high bit, which a one-bit field never sees.\<close>

lemma bit_0x80: "bit (0x80 :: 'a::len word) n \<longleftrightarrow> n = 7 \<and> 7 < LENGTH('a)"
proof -
  have "(0x80 :: 'a word) = 2 ^ 7" by simp
  then show ?thesis by (simp only: bit_exp_iff) auto
qed

lemma bit_0x7F: "bit (0x7F :: 'a::len word) n \<longleftrightarrow> n < 7 \<and> n < LENGTH('a)"
proof -
  have "(0x7F :: 'a word) = mask 7" by (simp add: mask_eq_exp_minus_1)
  then show ?thesis by (simp only: bit_mask_iff) auto
qed

lemma keycode_low7: "ucast scancode AND NOT 0x80 = (ucast (scancode AND 0x7F) :: LONG)"
  for scancode :: BYTE
proof (rule bit_word_eqI)
  fix n assume "n < LENGTH(32)"
  then show "bit (ucast scancode AND NOT 0x80 :: LONG) n = bit (ucast (scancode AND 0x7F) :: LONG) n"
    by (simp only: bit_and_iff bit_not_iff bit_unsigned_iff bit_0x80 bit_0x7F)
      (auto dest: bit_imp_le_length)
qed

lemma release_lost: "bitfield1 (ucast (scancode AND 0x80 :: BYTE)) = False"
  by (simp add: bitfield1_def bit_simps bit_0x80)

definition is_modifier :: "BYTE \<Rightarrow> bool" where
  "is_modifier scancode \<longleftrightarrow> scancode AND 0x7F \<in> {0x2a, 0x36, 0x1d, 0x38}"

definition key_event :: "bool \<Rightarrow> BYTE \<Rightarrow> 'a kbd_scheme \<Rightarrow> kbd_event" where
  "key_event spec scancode s =
     \<lparr>keycode = scancode AND 0x7F, release = False, ev_ctrl = bit (ctrl s) 0,
      ev_alt = bit (alt s) 0, ev_shift = bit (shift s) 0, special = spec\<rparr>"

lemma ucast_eq_iff_byte: "ucast b = (ucast c :: LONG) \<longleftrightarrow> b = c" for b c :: BYTE
  by (metis ucast_up_down_byte)

lemma modifier_codes: "is_modifier scancode \<longleftrightarrow> (ucast (scancode AND 0x7F) :: LONG) \<in> {0x2a, 0x36, 0x1d, 0x38}"
  using ucast_eq_iff_byte [of "scancode AND 0x7F" "0x2a"] ucast_eq_iff_byte [of "scancode AND 0x7F" "0x36"]
    ucast_eq_iff_byte [of "scancode AND 0x7F" "0x1d"] ucast_eq_iff_byte [of "scancode AND 0x7F" "0x38"]
  by (simp add: is_modifier_def)

lemma kbd_key_plain:
  "\<not> is_modifier scancode \<Longrightarrow> kbd_key spec scancode s = kbd_push (key_event spec scancode s) s"
  unfolding kbd_key_def keycode_low7 release_lost Let_def modifier_codes key_event_def
  by (simp add: bitfield1_def bit_simps)

text \<open>The shift, control and alt flags after a scan code.\<close>

definition modifiers :: "BYTE \<Rightarrow> BYTE \<times> BYTE \<times> BYTE \<Rightarrow> BYTE \<times> BYTE \<times> BYTE" where
  "modifiers scancode = (\<lambda>(sh, ct, al).
     let made = (if scancode AND 0x80 = 0 then 1 else 0); kc = scancode AND 0x7F
     in (if kc = 0x2a \<or> kc = 0x36 then made else sh, if kc = 0x1d then made else ct, if kc = 0x38 then made else al))"

lemma modifiers_plain: "\<not> is_modifier scancode \<Longrightarrow> modifiers scancode m = m"
  by (cases m) (simp add: modifiers_def is_modifier_def Let_def)

lemma kbd_key_modifier:
  assumes "is_modifier scancode"
  shows "\<exists>t. kbd_key spec scancode s = Some t \<and> kbd_stack t = kbd_stack s \<and> kbd_stack_sp t = kbd_stack_sp s \<and>
     (shift t, ctrl t, alt t) = modifiers scancode (shift s, ctrl s, alt s)"
proof -
  have c: "(ucast (scancode AND 0x7F) = (n :: LONG)) = (scancode AND 0x7F = ucast n)" if "n \<in> {0x2a, 0x36, 0x1d, 0x38}" for n
    using that ucast_eq_iff_byte [of "scancode AND 0x7F" "ucast n"] by auto
  show ?thesis
    using assms unfolding kbd_key_def keycode_low7 Let_def by (auto simp: c is_modifier_def modifiers_def)
qed

lemma kbd_push_keeps:
  "kbd_push e s = Some t \<Longrightarrow> shift t = shift s \<and> ctrl t = ctrl s \<and> alt t = alt s"
  by (auto simp: kbd_push_def Let_def split: if_splits)

lemma kbd_key_events:
  assumes "kbd_ok s"
  shows "\<exists>t. kbd_key spec scancode s = Some t \<and> kbd_ok t \<and>
    kbd_events t = (if is_modifier scancode \<or> length (kbd_events s) = 511 then kbd_events s
      else key_event spec scancode s # kbd_events s) \<and>
    (shift t, ctrl t, alt t) = modifiers scancode (shift s, ctrl s, alt s)"
proof (cases "is_modifier scancode")
  case True
  then show ?thesis
    using kbd_key_modifier [OF True, of spec s] assms by (auto simp: kbd_ok_def kbd_events_def)
next
  case False
  have "length (kbd_events s) \<le> 511" using assms by (simp add: kbd_ok_def kbd_events_def nat_add_distrib)
  moreover obtain t where "kbd_push (key_event spec scancode s) s = Some t" "kbd_ok t"
      "kbd_events t = (if length (kbd_events s) < 511 then key_event spec scancode s # kbd_events s else kbd_events s)"
    using kbd_push_events [OF assms, of "key_event spec scancode s"] by blast
  ultimately show ?thesis
    using False kbd_push_keeps by (fastforce simp: kbd_key_plain modifiers_plain)
qed

lemma kbd_log [simp]:
  "kbd_ok (s\<lparr>io_log := l\<rparr>) = kbd_ok s" "kbd_events (s\<lparr>io_log := l\<rparr>) = kbd_events s"
  "key_event spec c (s\<lparr>io_log := l\<rparr>) = key_event spec c s"
  by (simp_all add: kbd_ok_def kbd_events_def key_event_def)

text \<open>
  What the controller delivers in a state: nothing unless its status says that there is data, else
  the scan code at the data port, or after the prefix 0xE0 the one that follows it.
\<close>

definition kbd_delivers :: "'a machine_scheme \<Rightarrow> (bool \<times> BYTE) option" where
  "kbd_delivers s =
     (let (st, s) = inb 0x64 s; (c, s) = inb 0x60 s; (a, s) = inb 0x61 s
      in if st AND 1 = 0 then None else if c = 0xE0 then Some (True, fst (inb 0x60 s)) else Some (False, c))"

text \<open>
  C27: Whatever the keyboard controller answers, the keyboard interrupt returns and stays inside
  the event array. Without data nothing changes. A modifier key only sets its flag, to whether it
  is pressed. Any other scan code that is delivered puts one event in front of the waiting ones,
  with the key code without the release bit and the modifiers as they were, or none when 511
  events wait.
\<close>

theorem kbd_interrupt_safe:
  assumes "kbd_ok s"
  shows "\<exists>t. kbd_interrupt r s = Some t \<and> kbd_ok t \<and>
    (case kbd_delivers s of
       None \<Rightarrow> kbd_events t = kbd_events s \<and> (shift t, ctrl t, alt t) = (shift s, ctrl s, alt s)
     | Some (spec, scancode) \<Rightarrow>
         kbd_events t = (if is_modifier scancode \<or> length (kbd_events s) = 511 then kbd_events s
           else key_event spec scancode s # kbd_events s) \<and>
         (shift t, ctrl t, alt t) = modifiers scancode (shift s, ctrl s, alt s))"
proof -
  have "\<exists>t. kbd_key spec scancode (s\<lparr>io_log := l\<rparr>) = Some t \<and> kbd_ok t \<and>
    kbd_events t = (if is_modifier scancode \<or> length (kbd_events s) = 511 then kbd_events s
      else key_event spec scancode s # kbd_events s) \<and>
    (shift t, ctrl t, alt t) = modifiers scancode (shift s, ctrl s, alt s)" for spec scancode l
    using kbd_key_events [of "s\<lparr>io_log := l\<rparr>" spec scancode, unfolded kbd_log] assms by simp
  then show ?thesis
    using assms by (simp add: kbd_interrupt_def kbd_delivers_def frames Let_def)
qed

theorem kbd_interrupt_safe_witness:
  "\<exists>t. kbd_interrupt (regs_int 33) (kbd0\<lparr>hw := \<lambda>_ _. 0x1f\<rparr>) = Some t \<and> kbd_ok t \<and>
     map keycode (kbd_events t) = [0x1f]"
proof -
  have ok: "kbd_ok (kbd0\<lparr>hw := \<lambda>_ _. 0x1f\<rparr>)" "kbd_events (kbd0\<lparr>hw := \<lambda>_ _. 0x1f\<rparr>) = []"
    using kbd0_ok by (simp_all add: kbd_ok_def kbd_events_def)
  have "kbd_delivers (kbd0\<lparr>hw := \<lambda>_ _. 0x1f\<rparr>) = Some (False, 0x1f)" by (simp add: kbd_delivers_def frames Let_def)
  with kbd_interrupt_safe [OF ok(1), of "regs_int 33"] ok(2) show ?thesis
    by (auto simp: is_modifier_def key_event_def)
qed

text \<open>
  For every key that is not a modifier, the driver does exactly the same on the scan code
  of its release as on that of its press: the one-bit field \<open>release\<close> drops bit 7 of what it
  is assigned, so a reader of the events cannot tell them apart.
\<close>

theorem kbd_release_indistinguishable:
  assumes "\<not> is_modifier scancode"
  shows "kbd_key spec (scancode XOR 0x80) s = kbd_key spec scancode s"
proof -
  have low: "(scancode XOR 0x80) AND 0x7F = scancode AND 0x7F"
    by (rule bit_word_eqI) (simp only: bit_and_iff bit_xor_iff bit_0x80 bit_0x7F, auto)
  then have "\<not> is_modifier (scancode XOR 0x80)" using assms by (simp add: is_modifier_def)
  with assms low show ?thesis by (simp add: kbd_key_plain key_event_def)
qed

theorem kbd_release_indistinguishable_witness:
  "kbd_key False (0x1e XOR 0x80) kbd0 = kbd_key False 0x1e kbd0"
  using kbd_release_indistinguishable [of "0x1e" False kbd0] by (simp add: is_modifier_def)

text \<open>
  C32: The event buffer is a stack: up to 511 events that are stored one after the other are
  read back in the reverse order of their arrival, and the events that waited before are
  untouched.
\<close>

theorem kbd_lifo:
  assumes "kbd_ok s" and "length (kbd_events s) + length es \<le> 511"
  shows "\<exists>t u. push_all kbd_push es s = Some t \<and> kbd_avail t = (rev es @ kbd_events s \<noteq> []) \<and>
    pop_n kbd_pop (length es) t = Some (rev es, u) \<and> kbd_events u = kbd_events s"
proof -
  obtain t u where tu: "push_all kbd_push es s = Some t" "pop_n kbd_pop (length es) t = Some (rev es, u)"
    "kbd_events u = kbd_events s"
    using kbdq.push_pop [OF assms] by blast
  moreover have "kbd_ok t" "kbd_events t = rev es @ kbd_events s"
    using kbdq.push_all_events [OF assms] tu(1) by auto
  ultimately show ?thesis using kbdq.avail_iff [of t] by auto
qed

theorem kbd_lifo_witness:
  "\<exists>t u. push_all kbd_push [key_event False 0x1e kbd0, key_event False 0x30 kbd0] kbd0 = Some t \<and>
     pop_n kbd_pop 2 t = Some ([key_event False 0x30 kbd0, key_event False 0x1e kbd0], u)"
  using kbd_lifo [OF kbd0_ok(1), of "[key_event False 0x1e kbd0, key_event False 0x30 kbd0]"]
  by (auto simp: kbd0_ok numeral_2_eq_2)

end
