(* ===== verification/Pci.thy ===== *)
theory Pci
  imports Kbd
begin

text \<open>
  The PCI bus, \<^verbatim>\<open>dev/pci.c\<close>: configuration space accesses, the enumeration of the bus
  with the table of device drivers, and the shared interrupt line with its table of
  handlers. Drivers and handlers are function pointers; a call through one is an argument of
  the operation that makes it.
\<close>

section \<open>Data\<close>

datatype pci_initf = ide_init_ptr

datatype pci_isr = ide_handle_int_ptr | e1000_handler_ptr

record pci_devid =
  id_vendor :: WORD
  id_device :: WORD

record pci_dev =
  dev_name :: "BYTE list"
  initf :: "pci_initf option"
  ids_len :: LONG
  ids :: "pci_devid list"
  class_code :: BYTE
  sub_class :: BYTE

record pci_int_entry =
  ie_dev :: LONG
  ie_handler :: "pci_isr option"
  ie_bus :: LONG
  ie_device :: LONG
  ie_function :: LONG

definition pci_int_entry_zero :: pci_int_entry where
  "pci_int_entry_zero = \<lparr>ie_dev = 0, ie_handler = None, ie_bus = 0, ie_device = 0, ie_function = 0\<rparr>"

record pci = kbd +
  pci_int_entries :: "pci_int_entry list"

definition IRQ10 :: BYTE where
  "IRQ10 = 42"

definition PCI_CFG_VEN :: BYTE where "PCI_CFG_VEN = 0x00"
definition PCI_CFG_DEV :: BYTE where "PCI_CFG_DEV = 0x02"
definition PCI_CFG_PIF :: BYTE where "PCI_CFG_PIF = 0x09"
definition PCI_CFG_SCL :: BYTE where "PCI_CFG_SCL = 0x0A"
definition PCI_CFG_CLA :: BYTE where "PCI_CFG_CLA = 0x0B"
definition PCI_CFG_BR0 :: BYTE where "PCI_CFG_BR0 = 0x10"
definition PCI_CFG_INT :: BYTE where "PCI_CFG_INT = 0x3C"

section \<open>Configuration space\<close>

definition pci_cfg_addr :: "BYTE \<Rightarrow> BYTE \<Rightarrow> BYTE \<Rightarrow> BYTE \<Rightarrow> LONG" where
  "pci_cfg_addr bus dev func off =
     push_bit 16 (ucast bus) OR push_bit 11 (ucast dev) OR push_bit 8 (ucast func) OR
     ucast (off AND 0xFC) OR 0x80000000"

definition pci_cfg_readb :: "BYTE \<Rightarrow> BYTE \<Rightarrow> BYTE \<Rightarrow> BYTE \<Rightarrow> 'a machine_scheme \<Rightarrow> BYTE \<times> 'a machine_scheme" where
  "pci_cfg_readb bus dev func off s =
     (let s = outl 0xCF8 (pci_cfg_addr bus dev func off) s;
          (v, s) = inl 0xCFC s
      in (ucast (drop_bit (unat (off AND 2) * 8) v AND 0xff), s))"

definition pci_cfg_readw :: "BYTE \<Rightarrow> BYTE \<Rightarrow> BYTE \<Rightarrow> BYTE \<Rightarrow> 'a machine_scheme \<Rightarrow> WORD \<times> 'a machine_scheme" where
  "pci_cfg_readw bus dev func off s =
     (let s = outl 0xCF8 (pci_cfg_addr bus dev func off) s;
          (v, s) = inl 0xCFC s
      in (ucast (drop_bit (unat (off AND 2) * 8) v AND 0xffff), s))"

definition pci_cfg_readl :: "BYTE \<Rightarrow> BYTE \<Rightarrow> BYTE \<Rightarrow> BYTE \<Rightarrow> 'a machine_scheme \<Rightarrow> LONG \<times> 'a machine_scheme" where
  "pci_cfg_readl bus dev func off s =
     (let s = outl 0xCF8 (pci_cfg_addr bus dev func off) s;
          (v, s) = inl 0xCFC s
      in (drop_bit (unat (off AND 2) * 8) v, s))"

definition pci_cfg_writeb :: "BYTE \<Rightarrow> BYTE \<Rightarrow> BYTE \<Rightarrow> BYTE \<Rightarrow> BYTE \<Rightarrow> 'a machine_scheme \<Rightarrow> 'a machine_scheme" where
  "pci_cfg_writeb bus dev func off val s =
     (let s = outl 0xCF8 (pci_cfg_addr bus dev func off) s in outb 0xCFC val s)"

definition pci_cfg_writew :: "BYTE \<Rightarrow> BYTE \<Rightarrow> BYTE \<Rightarrow> BYTE \<Rightarrow> WORD \<Rightarrow> 'a machine_scheme \<Rightarrow> 'a machine_scheme" where
  "pci_cfg_writew bus dev func off val s =
     (let s = outl 0xCF8 (pci_cfg_addr bus dev func off) s in outw 0xCFC val s)"

definition pci_cfg_writel :: "BYTE \<Rightarrow> BYTE \<Rightarrow> BYTE \<Rightarrow> BYTE \<Rightarrow> LONG \<Rightarrow> 'a machine_scheme \<Rightarrow> 'a machine_scheme" where
  "pci_cfg_writel bus dev func off val s =
     (let s = outl 0xCF8 (pci_cfg_addr bus dev func off) s in outl 0xCFC val s)"

section \<open>Interrupts\<close>

fun pci_irq_loop :: "(pci_isr \<Rightarrow> regs \<Rightarrow> LONG \<Rightarrow> 'a pci_scheme \<Rightarrow> 'a pci_scheme option) \<Rightarrow> regs \<Rightarrow>
    nat \<Rightarrow> nat \<Rightarrow> 'a pci_scheme \<Rightarrow> 'a pci_scheme option" where
  "pci_irq_loop call r 0 i s = Some s"
| "pci_irq_loop call r (Suc n) i s =
     (if i < length (pci_int_entries s) then
        (let ie = pci_int_entries s ! i
         in if ie_dev ie = 0 then pci_irq_loop call r n (i + 1) s
            else do {
              h \<leftarrow> ie_handler ie;
              s \<leftarrow> call h r (ie_dev ie) s;
              pci_irq_loop call r n (i + 1) s
            })
      else None)"

definition pci_irq_handler :: "(pci_isr \<Rightarrow> regs \<Rightarrow> LONG \<Rightarrow> 'a pci_scheme \<Rightarrow> 'a pci_scheme option) \<Rightarrow>
    regs \<Rightarrow> 'a pci_scheme \<Rightarrow> 'a pci_scheme option" where
  "pci_irq_handler call r s = do {
     s \<leftarrow> puts (str ''[pci] int'' @ [10]) s;
     pci_irq_loop call r 256 0 s
   }"

definition pci_int_request :: "LONG \<Rightarrow> LONG \<Rightarrow> LONG \<Rightarrow> LONG \<Rightarrow> pci_isr \<Rightarrow> 'a pci_scheme \<Rightarrow>
    (LONG \<times> 'a pci_scheme) option" where
  "pci_int_request bus device func dev_id handler s =
     (case first_free (\<lambda>ie. ie_dev ie = 0) (pci_int_entries s) of
        Some i \<Rightarrow>
          (let e = pci_int_entries s ! i;
               e = e\<lparr>ie_bus := bus, ie_device := device, ie_function := func, ie_dev := dev_id,
                     ie_handler := Some handler\<rparr>
           in Some (0, s\<lparr>pci_int_entries := (pci_int_entries s)[i := e]\<rparr>))
      | None \<Rightarrow> do {
          s \<leftarrow> puts (str ''[pci] out of interrupt handler entries'' @ [10]) s;
          Some (1, s)
        })"

definition pci_int_release :: "LONG \<Rightarrow> 'a pci_scheme \<Rightarrow> 'a pci_scheme" where
  "pci_int_release dev_id s =
     s\<lparr>pci_int_entries := map (\<lambda>ie. if ie_dev ie = dev_id then pci_int_entry_zero else ie)
         (pci_int_entries s)\<rparr>"

section \<open>Enumeration\<close>

definition pci_print_loc :: "BYTE \<Rightarrow> BYTE \<Rightarrow> BYTE \<Rightarrow> 'a console_scheme \<Rightarrow> 'a console_scheme option" where
  "pci_print_loc bus device function s = do {
     s \<leftarrow> putn (ucast bus) 16 s;
     s \<leftarrow> puts (str '':'') s;
     s \<leftarrow> putn (ucast device) 16 s;
     s \<leftarrow> puts (str ''.'') s;
     s \<leftarrow> putn (ucast function) 16 s;
     puts [10] s
   }"

definition pci_print_name :: "pci_dev \<Rightarrow> BYTE \<Rightarrow> BYTE \<Rightarrow> BYTE \<Rightarrow> 'a console_scheme \<Rightarrow>
    'a console_scheme option" where
  "pci_print_name d bus device function s = do {
     s \<leftarrow> puts (str ''[pci] '' @ [34]) s;
     s \<leftarrow> puts (dev_name d) s;
     s \<leftarrow> puts ([34] @ str ''@pci://'') s;
     pci_print_loc bus device function s
   }"

text \<open>What follows a match; the two kinds of match differ in what they print on success.\<close>

definition pci_start :: "(pci_initf \<Rightarrow> LONG \<Rightarrow> LONG \<Rightarrow> LONG \<Rightarrow> 'a pci_scheme \<Rightarrow> (LONG \<times> 'a pci_scheme) option) \<Rightarrow>
    pci_dev \<Rightarrow> BYTE list \<Rightarrow> BYTE \<Rightarrow> BYTE \<Rightarrow> BYTE \<Rightarrow> 'a pci_scheme \<Rightarrow> 'a pci_scheme option" where
  "pci_start call d ok bus device function s = do {
     s \<leftarrow> pci_print_name d bus device function s;
     case initf d of
       Some f \<Rightarrow> do {
         (res, s) \<leftarrow> call f (ucast bus) (ucast device) (ucast function) s;
         if res \<noteq> 0 then puts (str ''[pci] Initialization failure.'' @ [10]) s
         else if ok = [] then Some s else puts ok s
       }
     | None \<Rightarrow> puts (str ''[pci] Missing driver.'' @ [10]) s
   }"

fun pci_ids_loop :: "(pci_initf \<Rightarrow> LONG \<Rightarrow> LONG \<Rightarrow> LONG \<Rightarrow> 'a pci_scheme \<Rightarrow> (LONG \<times> 'a pci_scheme) option) \<Rightarrow>
    pci_dev \<Rightarrow> BYTE \<Rightarrow> BYTE \<Rightarrow> BYTE \<Rightarrow> WORD \<Rightarrow> WORD \<Rightarrow> nat \<Rightarrow> nat \<Rightarrow> 'a pci_scheme \<Rightarrow> 'a pci_scheme option" where
  "pci_ids_loop call d bus device function vendor devid 0 i s = Some s"
| "pci_ids_loop call d bus device function vendor devid (Suc n) i s =
     (if i < length (ids d) then
        (if id_vendor (ids d ! i) = vendor \<and> id_device (ids d ! i) = devid
         then pci_start call d (str ''[pci] OK'' @ [10]) bus device function s
         else pci_ids_loop call d bus device function vendor devid n (i + 1) s)
      else None)"

fun pci_match :: "(pci_initf \<Rightarrow> LONG \<Rightarrow> LONG \<Rightarrow> LONG \<Rightarrow> 'a pci_scheme \<Rightarrow> (LONG \<times> 'a pci_scheme) option) \<Rightarrow>
    BYTE \<Rightarrow> BYTE \<Rightarrow> BYTE \<Rightarrow> WORD \<Rightarrow> WORD \<Rightarrow> BYTE \<Rightarrow> BYTE \<Rightarrow> pci_dev list \<Rightarrow> 'a pci_scheme \<Rightarrow>
    'a pci_scheme option" where
  "pci_match call bus device function vendor devid cls scls [] s = Some s"
| "pci_match call bus device function vendor devid cls scls (d # ds) s =
     (if ids_len d = 33 \<and> class_code d = cls \<and> sub_class d = scls
      then pci_start call d [] bus device function s
      else do {
        s \<leftarrow> (if ids_len d = 33 then Some s
             else pci_ids_loop call d bus device function vendor devid (unat (ids_len d)) 0 s);
        s \<leftarrow> puts (str ''[pci] ('') s;
        s \<leftarrow> putn (ucast vendor) 16 s;
        s \<leftarrow> puts (str '':'') s;
        s \<leftarrow> putn (ucast devid) 16 s;
        s \<leftarrow> puts (str '')@pci://'') s;
        s \<leftarrow> pci_print_loc bus device function s;
        pci_match call bus device function vendor devid cls scls ds s
      })"

definition pci_probe :: "(pci_initf \<Rightarrow> LONG \<Rightarrow> LONG \<Rightarrow> LONG \<Rightarrow> 'a pci_scheme \<Rightarrow> (LONG \<times> 'a pci_scheme) option) \<Rightarrow>
    pci_dev list \<Rightarrow> BYTE \<times> BYTE \<times> BYTE \<Rightarrow> 'a pci_scheme \<Rightarrow> 'a pci_scheme option" where
  "pci_probe call pci_devices = (\<lambda>(bus, device, function) s.
     (let (vendor, s) = pci_cfg_readw bus device function PCI_CFG_VEN s
      in if vendor = 0xffff then Some s
         else
           (let (devid, s) = pci_cfg_readw bus device function PCI_CFG_DEV s;
                (cls, s) = pci_cfg_readb bus device function PCI_CFG_CLA s;
                (scls, s) = pci_cfg_readb bus device function PCI_CFG_SCL s
            in if devid = 0x0000 \<or> devid = 0xffff then Some s
               else pci_match call bus device function vendor devid cls scls pci_devices s)))"

lemma byte_succ: "i < n \<Longrightarrow> unat (i + 1) = unat i + 1" for i n :: BYTE
  using unat_bounds(1) [of n] by (simp add: word_less_nat_alt unat_word_ariths)

text \<open>A loop of a counter of eight bits up to a bound, and the three nested loops of the scan.\<close>

function byte_loop :: "(BYTE \<Rightarrow> 's \<Rightarrow> 's option) \<Rightarrow> BYTE \<Rightarrow> BYTE \<Rightarrow> 's \<Rightarrow> 's option" where
  "byte_loop body n i s = (if i < n then do { s \<leftarrow> body i s; byte_loop body n (i + 1) s } else Some s)"
  by pat_completeness auto

termination
  by (relation "measure (\<lambda>(body, n, i, s). unat n - unat i)")
    (auto simp: byte_succ word_less_nat_alt intro!: diff_less_mono2)

definition pci_scan :: "(BYTE \<times> BYTE \<times> BYTE \<Rightarrow> 's \<Rightarrow> 's option) \<Rightarrow> 's \<Rightarrow> 's option" where
  "pci_scan probe s =
     byte_loop (\<lambda>bus. byte_loop (\<lambda>device. byte_loop (\<lambda>function. probe (bus, device, function)) 8 0) 32 0) 255 0 s"

definition pci_setup :: "(pci_initf \<Rightarrow> LONG \<Rightarrow> LONG \<Rightarrow> LONG \<Rightarrow> 'a pci_scheme \<Rightarrow> (LONG \<times> 'a pci_scheme) option) \<Rightarrow>
    pci_dev list \<Rightarrow> 'a pci_scheme \<Rightarrow> 'a pci_scheme option" where
  "pci_setup call pci_devices s = do {
     s \<leftarrow> puts (str ''[pci] Resetting interrupt entries'' @ [10]) s;
     let s = s\<lparr>pci_int_entries := replicate 256 pci_int_entry_zero\<rparr>;
     let s = int_regh IRQ10 (Some pci_irq_handler_ptr) s;
     s \<leftarrow> puts (str ''[pci] Bus enumeration...'' @ [10]) s;
     pci_scan (pci_probe call pci_devices) s
   }"

section \<open>Configuration addresses\<close>

lemma bit_0xFC: "bit (0xFC :: BYTE) n \<longleftrightarrow> 2 \<le> n \<and> n < 8"
proof -
  have "(0xFC :: BYTE) = push_bit 2 (mask 6)" by (simp add: push_bit_eq_mult mask_eq_exp_minus_1)
  then show ?thesis by (simp only: bit_push_bit_iff bit_mask_iff) auto
qed

lemma bit_0x80000000: "bit (0x80000000 :: LONG) n \<longleftrightarrow> n = 31"
proof -
  have "(0x80000000 :: LONG) = 2 ^ 31" by simp
  then show ?thesis by (simp only: bit_exp_iff) auto
qed

lemma less_pow2_bit: "unat w < 2 ^ k \<Longrightarrow> bit w n \<Longrightarrow> n < k" for w :: "'a::len word"
proof (rule ccontr)
  assume "unat w < 2 ^ k" and "bit w n" and "\<not> n < k"
  then have "take_bit k (unat w) = unat w" by (simp add: take_bit_nat_eq_self)
  with \<open>\<not> n < k\<close> have "\<not> bit (unat w) n" by (metis bit_take_bit_iff)
  with \<open>bit w n\<close> show False by (simp add: bit_unsigned_iff)
qed

lemma bit_pci_cfg_addr:
  "bit (pci_cfg_addr bus dev func off) n \<longleftrightarrow>
     16 \<le> n \<and> bit bus (n - 16) \<or> 11 \<le> n \<and> bit dev (n - 11) \<or> 8 \<le> n \<and> bit func (n - 8) \<or>
     2 \<le> n \<and> bit off n \<or> n = 31"
  unfolding pci_cfg_addr_def
  by (simp only: bit_or_iff bit_push_bit_iff bit_unsigned_iff bit_and_iff bit_0xFC bit_0x80000000)
    (auto dest: bit_imp_le_length)

lemma pci_cfg_addr_fields:
  assumes "unat dev < 2 ^ 5" and "unat func < 2 ^ 3"
  shows "ucast (drop_bit 16 (pci_cfg_addr bus dev func off)) = bus"
    and "ucast (take_bit 5 (drop_bit 11 (pci_cfg_addr bus dev func off))) = dev"
    and "ucast (take_bit 3 (drop_bit 8 (pci_cfg_addr bus dev func off))) = func"
    and "ucast (pci_cfg_addr bus dev func off) = off AND 0xFC"
proof -
  note dev = less_pow2_bit [OF assms(1)] and func = less_pow2_bit [OF assms(2)]
  show "ucast (drop_bit 16 (pci_cfg_addr bus dev func off)) = bus"
    by (rule bit_word_eqI) (auto simp: bit_simps bit_pci_cfg_addr dest!: dev func dest: bit_imp_le_length)
  show "ucast (take_bit 5 (drop_bit 11 (pci_cfg_addr bus dev func off))) = dev"
    by (rule bit_word_eqI) (auto simp: bit_simps bit_pci_cfg_addr dest: dev func bit_imp_le_length)
  show "ucast (take_bit 3 (drop_bit 8 (pci_cfg_addr bus dev func off))) = func"
    by (rule bit_word_eqI) (auto simp: bit_simps bit_pci_cfg_addr dest: dev func bit_imp_le_length)
  show "ucast (pci_cfg_addr bus dev func off) = off AND 0xFC"
  proof (rule bit_word_eqI)
    fix n assume "n < LENGTH(8)"
    then show "bit (ucast (pci_cfg_addr bus dev func off) :: BYTE) n = bit (off AND 0xFC) n"
      by (simp only: bit_unsigned_iff bit_and_iff bit_0xFC bit_pci_cfg_addr) auto
  qed
qed

lemma pci_cfg_readb_value:
  "fst (pci_cfg_readb bus dev func off s) =
     ucast (drop_bit (unat (off AND 2) * 8)
       (hw s (Wr (Port32 0xCF8) (pci_cfg_addr bus dev func off) # io_log s) (Port32 0xCFC)))"
  by (simp add: pci_cfg_readb_def frames Let_def)

section \<open>The visited places\<close>

lemma unat_of_nat_byte: "x < 256 \<Longrightarrow> unat (of_nat x :: BYTE) = x"
  by (simp add: unat_of_nat_small)

lemma of_nat_byte_inj: "x < 256 \<Longrightarrow> y < 256 \<Longrightarrow> (of_nat x :: BYTE) = of_nat y \<Longrightarrow> x = y"
  by (metis unat_of_nat_byte)

text \<open>The places in the order in which the loops should visit them.\<close>

definition pci_places :: "(BYTE \<times> BYTE \<times> BYTE) list" where
  "pci_places = map (\<lambda>(b, d, f). (of_nat b, of_nat d, of_nat f))
     (List.product [0..<255] (List.product [0..<32] [0..<8]))"

lemma byte_loop_eq: "byte_loop body n i s = for_each (\<lambda>k. body (of_nat k)) [unat i..<unat n] s"
proof (induction body n i s rule: byte_loop.induct)
  case (1 body n i s)
  show ?case
  proof (cases "i < n")
    case True
    then have "[unat i..<unat n] = unat i # [unat (i + 1)..<unat n]"
      by (simp add: byte_succ word_less_nat_alt upt_conv_Cons)
    with True 1 show ?thesis
      by (subst byte_loop.simps) (simp add: word_of_nat_unat cong: Option.bind_cong)
  qed (subst byte_loop.simps, simp add: word_less_nat_alt)
qed

lemma for_each_map: "for_each f (map g xs) = for_each (\<lambda>x. f (g x)) xs"
  by (induction xs; rule ext) simp_all

lemma for_each_product: "for_each (\<lambda>x. for_each (\<lambda>y. f (x, y)) ys) xs = for_each f (List.product xs ys)"
  by (induction xs; rule ext) (simp_all add: for_each_append for_each_map)

lemma pci_scan_eq: "pci_scan probe s = for_each probe pci_places s"
proof -
  have "pci_scan probe s = for_each (\<lambda>b. for_each (\<lambda>d. for_each (\<lambda>f. probe (of_nat b, of_nat d, of_nat f)) [0..<8]) [0..<32]) [0..<255] s"
    by (simp add: pci_scan_def byte_loop_eq [abs_def] del: upt_rec_numeral)
  also have "\<dots> = for_each (\<lambda>(b, d, f). probe (of_nat b, of_nat d, of_nat f)) (List.product [0..<255] (List.product [0..<32] [0..<8])) s"
    using for_each_product [of "\<lambda>(d, f). probe (of_nat b, of_nat d, of_nat f)" "[0..<8]" "[0..<32]" for b]
      for_each_product [of "\<lambda>(b, d, f). probe (of_nat b, of_nat d, of_nat f)" "List.product [0..<32] [0..<8]" "[0..<255]"]
    by (simp del: upt_rec_numeral)
  finally show ?thesis by (simp add: pci_places_def for_each_map case_prod_unfold del: upt_rec_numeral)
qed

text \<open>The places counted in the order of the loops.\<close>

definition place_index :: "BYTE \<times> BYTE \<times> BYTE \<Rightarrow> nat" where
  "place_index = (\<lambda>(b, d, f). unat b * 256 + unat d * 8 + unat f)"

lemma map_product_upt: "0 < m \<Longrightarrow> map (\<lambda>(b, x). b * m + x) (List.product [0..<n] [0..<m]) = [0..<n * m]" for n m :: nat
proof (induction n)
  case (Suc n)
  have "map (\<lambda>x. n * m + x) [0..<m] = [n * m..<n * m + m]" by (simp add: map_add_upt add.commute)
  moreover have "[0..<n * m + m] = [0..<n * m] @ [n * m..<n * m + m]" by (rule upt_add_eq_append) simp
  ultimately show ?case using Suc by (simp add: product_concat_map comp_def add.commute)
qed simp

lemma place_index_places: "map place_index pci_places = [0..<65280]"
proof -
  let ?P = "List.product [0..<32] [0..<8] :: (nat \<times> nat) list" and ?i = "\<lambda>(d, f). d * 8 + f :: nat"
  have "map place_index pci_places = map (\<lambda>(b, x). b * 256 + ?i x) (List.product [0..<255] ?P)"
    unfolding pci_places_def map_map
  proof (rule map_cong [OF refl])
    fix x assume "x \<in> set (List.product [0..<255] ?P)"
    then show "(place_index \<circ> (\<lambda>(b, d, f). (of_nat b, of_nat d, of_nat f))) x = (\<lambda>(b, x). b * 256 + ?i x) x"
      by (auto simp: place_index_def unat_of_nat_byte simp del: upt_rec_numeral)
  qed
  also have "\<dots> = map (\<lambda>(b, x). b * 256 + x) (List.product [0..<255] (map ?i ?P))"
    by (simp add: product_concat_map map_concat comp_def del: upt_rec_numeral)
  also have "\<dots> = [0..<65280]"
    using map_product_upt [of 8 32] map_product_upt [of 256 255] by (simp del: upt_rec_numeral)
  finally show ?thesis .
qed

lemma pci_places_distinct: "distinct pci_places"
  unfolding pci_places_def distinct_map
proof (intro conjI distinct_product distinct_upt inj_onI)
  fix x y :: "nat \<times> nat \<times> nat"
  assume x: "x \<in> set (List.product [0..<255] (List.product [0..<32] [0..<8]))"
    and y: "y \<in> set (List.product [0..<255] (List.product [0..<32] [0..<8]))"
    and eq: "(case x of (b, d, f) \<Rightarrow> (of_nat b :: BYTE, of_nat d :: BYTE, of_nat f :: BYTE)) =
      (case y of (b, d, f) \<Rightarrow> (of_nat b, of_nat d, of_nat f))"
  obtain b d f b' d' f' where xy: "x = (b, d, f)" "y = (b', d', f')" by (metis prod_cases3)
  have "b < 255" "d < 32" "f < 8" "b' < 255" "d' < 32" "f' < 8"
    using x y unfolding xy set_product set_upt by simp_all
  then show "x = y"
    using eq of_nat_byte_inj [of b b'] of_nat_byte_inj [of d d'] of_nat_byte_inj [of f f']
    unfolding xy by simp
qed

lemma pci_places_set:
  "set pci_places = {(b, d, f). unat b < 255 \<and> unat d < 32 \<and> unat f < 8}"
proof (intro set_eqI iffI)
  fix p :: "BYTE \<times> BYTE \<times> BYTE"
  assume "p \<in> {(b, d, f). unat b < 255 \<and> unat d < 32 \<and> unat f < (8::nat)}"
  then obtain b d f :: BYTE where p: "p = (b, d, f)" "unat b < 255" "unat d < 32" "unat f < 8" by auto
  then have "(unat b, unat d, unat f) \<in> set (List.product [0..<255] (List.product [0..<32] [0..<8]))"
    by (simp del: upt_rec_numeral)
  then have "(\<lambda>(b, d, f). (of_nat b, of_nat d, of_nat f)) (unat b, unat d, unat f) \<in> set pci_places"
    unfolding pci_places_def set_map by (rule imageI)
  then show "p \<in> set pci_places" by (simp add: p word_of_nat_unat)
qed (auto simp: pci_places_def unat_of_nat_byte simp del: upt_rec_numeral)

section \<open>The table of interrupt handlers\<close>

definition pci_ok :: "'a pci_scheme \<Rightarrow> bool" where
  "pci_ok s \<longleftrightarrow> length (pci_int_entries s) = 256"

lemma tty_step_pci:
  "tty_step s t \<Longrightarrow> tty_ready t \<and> pci_int_entries t = pci_int_entries s"
  by (auto simp: tty_step_def elim!: printedE)

lemma tty_ready_pci [simp]: "tty_ready (s\<lparr>pci_int_entries := es\<rparr>) = tty_ready s"
  by (simp add: tty_ready_def)

text \<open>A request succeeds when its result is zero.\<close>

definition pci_request :: "LONG \<Rightarrow> LONG \<Rightarrow> LONG \<Rightarrow> LONG \<Rightarrow> pci_isr \<Rightarrow> 'a pci_scheme \<Rightarrow>
    (bool \<times> 'a pci_scheme) option" where
  "pci_request bus device func dev_id handler s =
     map_option (\<lambda>(r, t). (r = 0, t)) (pci_int_request bus device func dev_id handler s)"

lemma pci_request_law:
  assumes "tty_ready s" and "dev_id \<noteq> 0"
  shows "\<exists>ok t. pci_request bus device func dev_id handler s = Some (ok, t) \<and> tty_ready t \<and>
    (if ok then \<exists>i x. i < length (pci_int_entries s) \<and> ie_dev (pci_int_entries s ! i) = 0 \<and>
        \<not> ie_dev x = 0 \<and> pci_int_entries t = (pci_int_entries s)[i := x]
     else (\<forall>x \<in> set (pci_int_entries s). \<not> ie_dev x = 0) \<and> pci_int_entries t = pci_int_entries s)"
proof (rule first_free_law)
  fix i
  assume "first_free (\<lambda>ie. ie_dev ie = 0) (pci_int_entries s) = Some i"
  then show "\<exists>x t. pci_request bus device func dev_id handler s = Some (True, t) \<and> tty_ready t \<and>
      \<not> ie_dev x = 0 \<and> pci_int_entries t = (pci_int_entries s)[i := x]"
    using assms
    by (intro exI [of _ "(pci_int_entries s ! i)\<lparr>ie_bus := bus, ie_device := device,
          ie_function := func, ie_dev := dev_id, ie_handler := Some handler\<rparr>"] exI)
      (auto simp: pci_request_def pci_int_request_def Let_def)
next
  assume None: "first_free (\<lambda>ie. ie_dev ie = 0) (pci_int_entries s) = None"
  obtain t where t: "puts (str ''[pci] out of interrupt handler entries'' @ [10]) s = Some t"
      "tty_step s t"
    using puts_tty_step [OF assms(1)] by blast
  have "pci_request bus device func dev_id handler s = Some (False, t)"
    by (simp add: pci_request_def pci_int_request_def None t(1) del: str_simps)
  with tty_step_pci [OF t(2)] show "\<exists>t. pci_request bus device func dev_id handler s = Some (False, t) \<and>
      tty_ready t \<and> pci_int_entries t = pci_int_entries s" by blast
qed

text \<open>The kernel's one caller passes the constant 0xf0f0f0f0 to identify its device.\<close>

interpretation pci_slots: slot_table tty_ready pci_int_entries "\<lambda>ie. ie_dev ie = 0"
    "pci_request bus device func 0xf0f0f0f0 handler"
  for bus device func handler
  by unfold_locales (rule pci_request_law, simp_all)

section \<open>The properties of the bus\<close>

text \<open>A kernel state whose configuration space holds one IDE controller, for the examples.\<close>

definition ide_cfg :: "LONG \<Rightarrow> LONG" where
  "ide_cfg a = (if a = pci_cfg_addr 0 1 1 0x00 then 0x70108086
     else if a = pci_cfg_addr 0 1 1 0x08 then 0x01018000 else 0xffffffff)"

fun cfg_hw :: "(LONG \<Rightarrow> LONG) \<Rightarrow> io_event list \<Rightarrow> io_req \<Rightarrow> LONG" where
  "cfg_hw cfg (Wr (Port32 p) a # l) r = (if p = 0xCF8 \<and> r = Port32 0xCFC then cfg a else 0x20)"
| "cfg_hw cfg l r = 0x20"

definition pci0 :: pci where
  "pci0 = kbd.extend (kbd0\<lparr>hw := cfg_hw ide_cfg\<rparr>)
     \<lparr>pci_int_entries = replicate 256 pci_int_entry_zero\<rparr>"

lemma pci0_ok: "tty_ready pci0" "hw pci0 = cfg_hw ide_cfg"
    "pci_int_entries pci0 = replicate 256 pci_int_entry_zero"
  by (simp_all add: pci0_def kbd.defs kbd0_def int0_def interrupts.defs tty_ready_def)


text \<open>
  The hardware's side of a configuration read: the address selects bus, device, function and a
  register of four bytes when its highest bit is set.
\<close>

definition cfg_dword :: "(BYTE \<Rightarrow> nat \<Rightarrow> nat \<Rightarrow> nat \<Rightarrow> BYTE) \<Rightarrow> LONG \<Rightarrow> LONG" where
  "cfg_dword space a =
     (let byte = (\<lambda>k. space (ucast (drop_bit 16 a)) (unat (take_bit 5 (drop_bit 11 a))) (unat (take_bit 3 (drop_bit 8 a)))
            (4 * unat (take_bit 6 (drop_bit 2 a)) + k))
      in if bit a 31 then ucast (byte 0) OR push_bit 8 (ucast (byte 1)) OR push_bit 16 (ucast (byte 2)) OR push_bit 24 (ucast (byte 3))
         else - 1)"

lemma cfg_dword_byte:
  assumes "bit a 31" and "k < 4"
  shows "ucast (drop_bit (k * 8) (cfg_dword space a)) = space (ucast (drop_bit 16 a))
     (unat (take_bit 5 (drop_bit 11 a))) (unat (take_bit 3 (drop_bit 8 a))) (4 * unat (take_bit 6 (drop_bit 2 a)) + k)"
proof -
  have "k = 0 \<or> k = 1 \<or> k = 2 \<or> k = 3" using assms(2) by arith
  then show ?thesis
    using assms(1) unfolding cfg_dword_def Let_def
    by (elim disjE; simp; intro bit_word_eqI) (auto simp: bit_simps dest: bit_imp_le_length)
qed

text \<open>The register and the byte in it that the driver selects for an offset.\<close>

lemma unat_take_bit_less: "unat (take_bit n w) < 2 ^ n" for w :: "'a::len word"
  by (simp only: unsigned_take_bit_eq take_bit_nat_less_exp)

lemma cfg_register:
  assumes "unat dev < 2 ^ 5" and "unat func < 2 ^ 3"
  shows "unat (take_bit 6 (drop_bit 2 (pci_cfg_addr bus dev func off))) = unat off div 4"
proof -
  let ?r = "take_bit 6 (drop_bit 2 (pci_cfg_addr bus dev func off))"
  have "(ucast ?r :: BYTE) = drop_bit 2 off"
    by (rule bit_word_eqI)
      (auto simp: bit_simps bit_pci_cfg_addr dest: bit_imp_le_length)
  moreover have "unat ?r < 2 ^ 6" by (rule unat_take_bit_less)
  then have "unat (ucast ?r :: BYTE) = unat ?r" by (simp add: unsigned_ucast_eq take_bit_nat_eq_self)
  ultimately show ?thesis using unat_drop_bit_eq [of 2 off] by (simp only: drop_bit_eq_div) simp
qed

lemma bit_two: "bit (2 :: BYTE) n \<longleftrightarrow> n = 1"
  by (auto simp: bit_2_iff)

lemma unat_and_2: "unat (off AND 2) = (if odd (unat off div 2) then 2 else 0)" for off :: BYTE
proof -
  have a: "off AND 2 = (if bit off 1 then 2 else 0)"
    by (rule bit_word_eqI) (auto simp only: bit_and_iff bit_two bit_0_eq bot_apply bot_bool_def split: if_splits)
  have "bit (unat off) 1 \<longleftrightarrow> bit off 1" by (simp only: bit_unsigned_iff) simp
  then have "bit off 1 \<longleftrightarrow> odd (unat off div 2)" by (simp only: bit_iff_odd power_one_right)
  then show ?thesis unfolding a by simp
qed

text \<open>
  C34: A byte read from the configuration space of an existing place gives the byte at the asked
  offset when that is even, and the byte below it when it is odd: the class code (offset 0x0B)
  reads as the subclass (offset 0x0A). The hypothesis is the documented access mechanism: a dword
  read from the data port gives the register that the address just written to the address port
  selects, where \<open>space\<close> is what the configuration spaces hold at that time.
\<close>

theorem pci_cfg_readb_byte:
  assumes "\<And>a. hw s (Wr (Port32 0xCF8) a # io_log s) (Port32 0xCFC) = cfg_dword space a"
    and "unat dev < 32" and "unat func < 8"
  shows "fst (pci_cfg_readb bus dev func off s) =
    space bus (unat dev) (unat func) (if even (unat off) then unat off else unat off - 1)"
proof -
  have d: "unat dev < 2 ^ 5" "unat func < 2 ^ 3" using assms(2,3) by simp_all
  let ?a = "pci_cfg_addr bus dev func off" and ?k = "unat (off AND 2)"
  have a: "bit ?a 31" by (simp add: bit_pci_cfg_addr)
  have k: "?k < 4" by (simp add: unat_and_2)
  have un: "unat (ucast w :: BYTE) = unat w" if "unat w < 256" for w :: LONG
    using that by (simp add: unsigned_ucast_eq take_bit_nat_eq_self)
  have "unat (take_bit 5 (drop_bit 11 ?a)) < 2 ^ 5" "unat (take_bit 3 (drop_bit 8 ?a)) < 2 ^ 3"
    by (rule unat_take_bit_less)+
  then have "unat (take_bit 5 (drop_bit 11 ?a)) = unat dev" "unat (take_bit 3 (drop_bit 8 ?a)) = unat func"
    using un [of "take_bit 5 (drop_bit 11 ?a)"] un [of "take_bit 3 (drop_bit 8 ?a)"] pci_cfg_addr_fields(2,3) [OF d, of bus off]
    by (simp_all only: power_numeral) simp_all
  moreover have "4 * (unat off div 4) + ?k = (if even (unat off) then unat off else unat off - 1)"
    unfolding unat_and_2 by presburger
  ultimately show ?thesis
    by (simp add: pci_cfg_readb_value assms(1) cfg_dword_byte [OF a k] pci_cfg_addr_fields(1) [OF d] cfg_register [OF d])
qed

theorem pci_cfg_readb_byte_witness:
  "fst (pci_cfg_readb 0 1 1 0x0B (pci0\<lparr>hw := cfg_hw (cfg_dword (\<lambda>_ _ _ r. of_nat r))\<rparr>)) = 0x0A"
  using pci_cfg_readb_byte [of "pci0\<lparr>hw := cfg_hw (cfg_dword (\<lambda>_ _ _ r. of_nat r))\<rparr>" "\<lambda>_ _ _ r. of_nat r" 1 1 0 "0x0B"]
  by simp

text \<open>
  From an empty table, exactly the first 256 requests for the shared interrupt line
  succeed; every later one fails and says so, and no request changes an entry in use.
\<close>

theorem pci_int_request_capacity:
  assumes "tty_ready s" and "pci_int_entries s = replicate 256 pci_int_entry_zero"
  shows "\<exists>t. alloc_n (pci_request bus device func 0xf0f0f0f0 handler) n s =
      Some (map (\<lambda>i. i < 256) [0..<n], t) \<and> length (pci_int_entries t) = 256"
proof -
  have "free_slots (\<lambda>ie. ie_dev ie = 0) (pci_int_entries s) = 256"
    by (simp add: assms(2) free_slots_def pci_int_entry_zero_def)
  with pci_slots.alloc_n_results [OF assms(1), of bus device func handler n] assms(2)
  show ?thesis by auto
qed

theorem pci_int_request_capacity_witness:
  "\<exists>t. alloc_n (pci_request 0 1 1 0xf0f0f0f0 ide_handle_int_ptr) 300 pci0 =
      Some (map (\<lambda>i. i < 256) [0..<300], t)"
  using pci_int_request_capacity [OF pci0_ok(1,3), of 0 1 1 ide_handle_int_ptr 300] by blast

end
