(* ===== verification/Ide.thy ===== *)
theory Ide
  imports Pci
begin

text \<open>
  The IDE driver, \<^verbatim>\<open>dev/ide.c\<close>: the PCI driver entry and its interrupt handlers. The two
  sector operations of the source are stubs that return 0; the file systems take them as an
  argument. \<open>irqs\<close> are the interrupts taken while the driver sleeps.
\<close>

record ide = pci +
  ide_pch_base :: LONG
  ide_pch_ctrl :: LONG
  ide_pch_bm :: LONG

definition IRQ14 :: BYTE where "IRQ14 = 46"
definition IRQ15 :: BYTE where "IRQ15 = 47"

definition pci_cfg_read_pif :: "LONG \<Rightarrow> LONG \<Rightarrow> LONG \<Rightarrow> 'a machine_scheme \<Rightarrow> LONG \<times> 'a machine_scheme" where
  "pci_cfg_read_pif bus dev func s =
     (let (v, s) = pci_cfg_readb (ucast bus) (ucast dev) (ucast func) PCI_CFG_PIF s in (ucast v, s))"

definition pci_cfg_read_intl :: "LONG \<Rightarrow> LONG \<Rightarrow> LONG \<Rightarrow> 'a machine_scheme \<Rightarrow> LONG \<times> 'a machine_scheme" where
  "pci_cfg_read_intl bus dev func s =
     (let (v, s) = pci_cfg_readb (ucast bus) (ucast dev) (ucast func) PCI_CFG_INT s in (ucast v, s))"

definition pci_cfg_write_intl :: "LONG \<Rightarrow> LONG \<Rightarrow> LONG \<Rightarrow> BYTE \<Rightarrow> 'a machine_scheme \<Rightarrow> 'a machine_scheme" where
  "pci_cfg_write_intl bus dev func val s =
     pci_cfg_writeb (ucast bus) (ucast dev) (ucast func) PCI_CFG_INT val s"

definition pci_cfg_read_bar :: "LONG \<Rightarrow> LONG \<Rightarrow> LONG \<Rightarrow> BYTE \<Rightarrow> 'a machine_scheme \<Rightarrow> LONG \<times> 'a machine_scheme" where
  "pci_cfg_read_bar bus dev func n s =
     pci_cfg_readl (ucast bus) (ucast dev) (ucast func) (PCI_CFG_BR0 + n * 4) s"

section \<open>Operations\<close>

definition ide_channel_setnative :: "('a ide_scheme \<Rightarrow> 'a ide_scheme option) \<Rightarrow>
    LONG \<Rightarrow> LONG \<Rightarrow> LONG \<Rightarrow> LONG \<Rightarrow> 'a ide_scheme \<Rightarrow> (LONG \<times> 'a ide_scheme) option" where
  "ide_channel_setnative irqs bus device function channel s = do {
     s \<leftarrow> puts (str ''[ide] setting channel op mode'' @ [10]) s;
     let chmask = (if channel = 2 then 4 else 1);
     let (pif, s) = pci_cfg_read_pif bus device function s;
     (fail, s) \<leftarrow>
       (if pif AND chmask = 0 then do {
          s \<leftarrow> puts (str ''[ide] channel is in compat mode'' @ [10]) s;
          let s = pci_cfg_writeb (ucast bus) (ucast device) (ucast function) PCI_CFG_PIF (ucast (pif OR 1)) s;
          s \<leftarrow> sleep irqs 1 s;
          let (pif, s) = pci_cfg_read_pif bus device function s;
          if pif AND chmask = 0 then do {
            s \<leftarrow> puts (str ''[ide] channel does not support native mode'' @ [10]) s;
            Some (True, s)
          }
          else Some (False, s)
        }
        else Some (False, s));
     if fail then Some (1, s)
     else do {
       s \<leftarrow> puts (str ''[ide] channel is in native mode'' @ [10]) s;
       Some (0, s)
     }
   }"

definition ide_reg_write :: "LONG \<Rightarrow> LONG \<Rightarrow> 'a ide_scheme \<Rightarrow> 'a ide_scheme" where
  "ide_reg_write reg data s = s"

definition ide_handle_int :: "regs \<Rightarrow> LONG \<Rightarrow> 'a console_scheme \<Rightarrow> 'a console_scheme option" where
  "ide_handle_int r dev_id s =
     (if dev_id \<noteq> 0xf0f0f0f0 then Some s else puts (str ''[ide] interrupt!'' @ [10]) s)"

definition ide_handle_irq :: "regs \<Rightarrow> 'a console_scheme \<Rightarrow> 'a console_scheme option" where
  "ide_handle_irq r s = ide_handle_int r 0xf0f0f0f0 s"

definition ide_enable_int :: "LONG \<Rightarrow> LONG \<Rightarrow> LONG \<Rightarrow> 'a ide_scheme \<Rightarrow> 'a ide_scheme option" where
  "ide_enable_int bus device function s =
     (let s = pci_cfg_write_intl bus device function 0xFE s;
          (intl, s) = pci_cfg_read_intl bus device function s
      in if intl AND 0xff = 0xfe then
           (let s = pci_cfg_write_intl bus device function IRQ10 s
            in do {
              (res, s) \<leftarrow> pci_int_request bus device function 0xf0f0f0f0 ide_handle_int_ptr s;
              if res \<noteq> 0 then Some s
              else puts (str ''[ide] interrupt line set to IRQ10'' @ [10]) s
            })
         else
           (let s = int_regh IRQ14 (Some ide_handle_irq_ptr) s;
                s = int_regh IRQ15 (Some ide_handle_irq_ptr) s
            in puts (str ''[ide] ye olde parallel'' @ [10]) s))"

text \<open>The part of \<open>ide_init\<close> after the two channels.\<close>

definition ide_finish :: "LONG \<Rightarrow> LONG \<Rightarrow> LONG \<Rightarrow> 'a ide_scheme \<Rightarrow> (LONG \<times> 'a ide_scheme) option" where
  "ide_finish bus device function s = do {
     s \<leftarrow> puts (str ''[ide] channel 2 won'' @ [39] @ str ''t be used'' @ [10]) s;
     let (bar0, s) = pci_cfg_read_bar bus device function 0 s;
     let (bar1, s) = pci_cfg_read_bar bus device function 1 s;
     let (bar4, s) = pci_cfg_read_bar bus device function 4 s;
     let s = s\<lparr>ide_pch_base := (bar0 AND 0xFFFFFFFC) + 0x1F0 * (if bar0 = 0 then 1 else 0)\<rparr>;
     let s = s\<lparr>ide_pch_ctrl := (bar1 AND 0xFFFFFFFC) + 0x3F6 * (if bar1 = 0 then 1 else 0)\<rparr>;
     let s = s\<lparr>ide_pch_bm := bar4 AND 0xFFFFFFFC\<rparr>;
     s \<leftarrow> ide_enable_int bus device function s;
     Some (0, s)
   }"

definition ide_init :: "('a ide_scheme \<Rightarrow> 'a ide_scheme option) \<Rightarrow>
    LONG \<Rightarrow> LONG \<Rightarrow> LONG \<Rightarrow> 'a ide_scheme \<Rightarrow> (LONG \<times> 'a ide_scheme) option" where
  "ide_init irqs bus device function s = do {
     s \<leftarrow> puts (str ''[ide] init'' @ [10]) s;
     (res, s) \<leftarrow> ide_channel_setnative irqs bus device function 1 s;
     if res \<noteq> 0 then Some (1, s)
     else do {
       (res, s) \<leftarrow> ide_channel_setnative irqs bus device function 2 s;
       ide_finish bus device function s
     }
   }"

definition pci_dev_disk :: pci_dev where
  "pci_dev_disk =
     \<lparr>dev_name = str ''PCI IDE Controller'', initf = Some ide_init_ptr, ids_len = 33,
      ids = replicate 32 \<lparr>id_vendor = 0, id_device = 0\<rparr>, class_code = 0x01, sub_class = 0x01\<rparr>"

definition pci_devices :: "pci_dev list" where
  "pci_devices = [pci_dev_disk]"

text \<open>The sector operations of this driver: stubs that report success and move no data.\<close>

definition ide_read_sector :: "LONG \<Rightarrow> LONG \<Rightarrow> LONG \<Rightarrow> LONG \<Rightarrow> 's \<Rightarrow> LONG \<times> 's" where
  "ide_read_sector LBA ide_buf count slavebit s = (0, s)"

definition ide_write_sector :: "LONG \<Rightarrow> LONG \<Rightarrow> LONG \<Rightarrow> LONG \<Rightarrow> 's \<Rightarrow> LONG \<times> 's" where
  "ide_write_sector LBA outarray count slavebit s = (0, s)"

section \<open>The state while the kernel boots\<close>

text \<open>
  Until interrupts are enabled the tick counter is 0, so that sleeping returns at once. The
  invariant of that phase, with the sizes of the tables; \<open>cfg\<close> is what the registers of the
  configuration space with the addresses in \<open>A\<close> answer at all times. Every other register, in
  particular the interrupt line, which the driver writes and reads back, may answer anything.
\<close>

definition boot_ok :: "LONG set \<Rightarrow> (LONG \<Rightarrow> LONG) \<Rightarrow> 'a ide_scheme \<Rightarrow> bool" where
  "boot_ok A cfg s \<longleftrightarrow> tty_ready s \<and> int_ok s \<and> pci_ok s \<and> ticks2 s = 0 \<and>
     (\<forall>a \<in> A. \<forall>l. hw s (Wr (Port32 0xCF8) a # l) (Port32 0xCFC) = cfg a)"

lemma boot_ok_simps [simp]:
  "boot_ok A cfg (s\<lparr>io_log := l\<rparr>) = boot_ok A cfg s"
  "boot_ok A cfg (s\<lparr>ide_pch_base := x\<rparr>) = boot_ok A cfg s"
  "boot_ok A cfg (s\<lparr>ide_pch_ctrl := x\<rparr>) = boot_ok A cfg s"
  "boot_ok A cfg (s\<lparr>ide_pch_bm := x\<rparr>) = boot_ok A cfg s"
  "boot_ok A cfg (int_regh n h s) = boot_ok A cfg s"
  "length es = length (pci_int_entries s) \<Longrightarrow> boot_ok A cfg (s\<lparr>pci_int_entries := es\<rparr>) = boot_ok A cfg s"
  by (simp_all add: boot_ok_def int_ok_def pci_ok_def int_regh_def tty_ready_def)

text \<open>The driver's own variables, which printing and the accesses to the bus keep.\<close>

definition ide_ports :: "'a ide_scheme \<Rightarrow> LONG \<times> LONG \<times> LONG" where
  "ide_ports s = (ide_pch_base s, ide_pch_ctrl s, ide_pch_bm s)"

lemma ide_ports_simps [simp]:
  "ide_ports (s\<lparr>io_log := l\<rparr>) = ide_ports s" "ide_ports (int_regh n h s) = ide_ports s"
  "ide_ports (s\<lparr>pci_int_entries := es\<rparr>) = ide_ports s"
  by (simp_all add: ide_ports_def int_regh_def)

lemma boot_ok_tty: "tty_step s t \<Longrightarrow> boot_ok A cfg s \<Longrightarrow> boot_ok A cfg t \<and> ide_ports t = ide_ports s"
  by (auto simp: boot_ok_def tty_step_def int_ok_def pci_ok_def ide_ports_def elim!: printedE)

lemma boot_tty_ready: "boot_ok A cfg s \<Longrightarrow> tty_ready s"
  by (simp add: boot_ok_def)

lemma boot_puts:
  assumes "boot_ok A cfg s" and "\<And>t. boot_ok A cfg t \<Longrightarrow> ide_ports t = ide_ports s \<Longrightarrow> Q t"
  shows "returns (puts cs s) Q"
  using puts_wp [OF tty_step_refl [OF boot_tty_ready [OF assms(1)]]] assms boot_ok_tty by blast

lemma boot_sleep: "boot_ok A cfg s \<Longrightarrow> sleep irqs n s = Some s"
  by (simp add: sleep_def boot_ok_def)

text \<open>The two events of a read of the configuration space.\<close>

definition cfg_events :: "(LONG \<Rightarrow> LONG) \<Rightarrow> LONG \<Rightarrow> io_event list" where
  "cfg_events cfg a = [Rd (Port32 0xCFC) (cfg a), Wr (Port32 0xCF8) a]"

lemma boot_readb:
  "boot_ok A cfg s \<Longrightarrow> pci_cfg_addr b d f off \<in> A \<Longrightarrow> pci_cfg_readb b d f off s =
     (ucast (drop_bit (unat (off AND 2) * 8) (cfg (pci_cfg_addr b d f off))),
      s\<lparr>io_log := cfg_events cfg (pci_cfg_addr b d f off) @ io_log s\<rparr>)"
  by (simp add: pci_cfg_readb_def frames Let_def boot_ok_def cfg_events_def)

lemma boot_readl:
  "boot_ok A cfg s \<Longrightarrow> pci_cfg_addr b d f off \<in> A \<Longrightarrow> pci_cfg_readl b d f off s =
     (drop_bit (unat (off AND 2) * 8) (cfg (pci_cfg_addr b d f off)),
      s\<lparr>io_log := cfg_events cfg (pci_cfg_addr b d f off) @ io_log s\<rparr>)"
  by (simp add: pci_cfg_readl_def frames Let_def boot_ok_def cfg_events_def)

lemma pci_cfg_writeb_log:
  "pci_cfg_writeb b d f off v s =
     s\<lparr>io_log := Wr (Port8 0xCFC) (ucast v) # Wr (Port32 0xCF8) (pci_cfg_addr b d f off) # io_log s\<rparr>"
  by (simp add: pci_cfg_writeb_def frames Let_def)

text \<open>
  The byte that the driver tests for native mode: it asks for the programming interface at
  offset 9 and gets the byte at offset 8, the revision.
\<close>

definition ide_mode_byte :: "(LONG \<Rightarrow> LONG) \<Rightarrow> LONG \<Rightarrow> LONG \<Rightarrow> LONG \<Rightarrow> LONG" where
  "ide_mode_byte cfg bus device function =
     cfg (pci_cfg_addr (ucast bus) (ucast device) (ucast function) 0x08) AND 0xff"

lemma boot_read_pif:
  assumes "boot_ok A cfg s" and "pci_cfg_addr (ucast b) (ucast d) (ucast f) 0x08 \<in> A"
  shows "pci_cfg_read_pif b d f s = (ide_mode_byte cfg b d f,
    s\<lparr>io_log := cfg_events cfg (pci_cfg_addr (ucast b) (ucast d) (ucast f) 0x08) @ io_log s\<rparr>)"
proof -
  have "pci_cfg_addr (ucast b) (ucast d) (ucast f) PCI_CFG_PIF =
      pci_cfg_addr (ucast b) (ucast d) (ucast f) 0x08"
    by (simp add: pci_cfg_addr_def PCI_CFG_PIF_def)
  then show ?thesis
    using assms by (simp add: pci_cfg_read_pif_def boot_readb ide_mode_byte_def ucast_down_up_byte)
      (simp add: PCI_CFG_PIF_def ucast_down_up_byte)
qed

lemma ide_channel_setnative_boot:
  assumes "boot_ok A cfg s" and "pci_cfg_addr (ucast b) (ucast d) (ucast f) 0x08 \<in> A"
    and "\<And>r t. boot_ok A cfg t \<Longrightarrow> ide_ports t = ide_ports s \<Longrightarrow>
      r = (if ide_mode_byte cfg b d f AND (if ch = 2 then 4 else 1) = 0 then 1 else 0) \<Longrightarrow> Q (r, t)"
  shows "returns (ide_channel_setnative irqs b d f ch s) Q"
  unfolding ide_channel_setnative_def returns_bind Let_def
  by (rule boot_puts [OF assms(1)])
    (auto simp: boot_read_pif assms(2) boot_sleep pci_cfg_writeb_log intro!: boot_puts [of A cfg] assms(3))

lemma boot_int_request:
  assumes "boot_ok A cfg s" and "\<And>r t. boot_ok A cfg t \<Longrightarrow> ide_ports t = ide_ports s \<Longrightarrow> Q (r, t)"
  shows "returns (pci_int_request b d f dev h s) Q"
proof (cases "first_free (\<lambda>ie. ie_dev ie = 0) (pci_int_entries s)")
  case None
  then show ?thesis
    using assms by (simp add: pci_int_request_def boot_puts [of A cfg] del: str_simps)
next
  case (Some i)
  then show ?thesis using assms by (simp add: pci_int_request_def Let_def)
qed

lemma ide_enable_int_boot:
  assumes "boot_ok A cfg s" and "\<And>t. boot_ok A cfg t \<Longrightarrow> ide_ports t = ide_ports s \<Longrightarrow> Q t"
  shows "returns (ide_enable_int b d f s) Q"
  using assms
  by (auto simp: ide_enable_int_def pci_cfg_write_intl_def pci_cfg_writeb_log pci_cfg_read_intl_def
      pci_cfg_readb_def frames Let_def simp del: str_simps intro!: boot_int_request [of A cfg] boot_puts [of A cfg])

section \<open>The properties of the driver\<close>

definition ide0 :: ide where
  "ide0 = pci.extend pci0 \<lparr>ide_pch_base = 0, ide_pch_ctrl = 0, ide_pch_bm = 0\<rparr>"

lemma ide0_ok: "boot_ok A ide_cfg ide0"
  by (simp add: ide0_def pci.defs pci0_def kbd.defs kbd0_def int0_def interrupts.defs boot_ok_def
      tty_ready_def int_ok_def pci_ok_def)

text \<open>A base address register as the driver reads it.\<close>

definition ide_bar :: "(LONG \<Rightarrow> LONG) \<Rightarrow> LONG \<Rightarrow> LONG \<Rightarrow> LONG \<Rightarrow> BYTE \<Rightarrow> LONG" where
  "ide_bar cfg b d f n = cfg (pci_cfg_addr (ucast b) (ucast d) (ucast f) (PCI_CFG_BR0 + n * 4))"

definition ide_final_ports :: "(LONG \<Rightarrow> LONG) \<Rightarrow> LONG \<Rightarrow> LONG \<Rightarrow> LONG \<Rightarrow> LONG \<times> LONG \<times> LONG" where
  "ide_final_ports cfg b d f =
     (if ide_bar cfg b d f 0 = 0 then 0x1F0 else ide_bar cfg b d f 0 AND 0xFFFFFFFC,
      if ide_bar cfg b d f 1 = 0 then 0x3F6 else ide_bar cfg b d f 1 AND 0xFFFFFFFC,
      ide_bar cfg b d f 4 AND 0xFFFFFFFC)"

text \<open>The registers that the driver reads and does not write: the revision and three base addresses.\<close>

definition ide_regs :: "LONG \<Rightarrow> LONG \<Rightarrow> LONG \<Rightarrow> LONG set" where
  "ide_regs b d f = pci_cfg_addr (ucast b) (ucast d) (ucast f) ` {0x08, 0x10, 0x14, 0x20}"

lemma ide_regs_mem:
  "pci_cfg_addr (ucast b) (ucast d) (ucast f) 0x08 \<in> ide_regs b d f"
  "n \<in> {0, 1, 4} \<Longrightarrow> pci_cfg_addr (ucast b) (ucast d) (ucast f) (PCI_CFG_BR0 + n * 4) \<in> ide_regs b d f"
  by (auto simp: ide_regs_def PCI_CFG_BR0_def)

lemma boot_read_bar:
  assumes "boot_ok (ide_regs b d f) cfg s" and "n \<in> {0, 1, 4}"
  shows "pci_cfg_read_bar b d f n s = (ide_bar cfg b d f n,
     s\<lparr>io_log := cfg_events cfg (pci_cfg_addr (ucast b) (ucast d) (ucast f) (PCI_CFG_BR0 + n * 4)) @ io_log s\<rparr>)"
  using boot_readl [OF assms(1) ide_regs_mem(2) [OF assms(2)]] assms(2)
  by (auto simp: pci_cfg_read_bar_def ide_bar_def PCI_CFG_BR0_def)

lemma ide_finish_boot:
  assumes "boot_ok (ide_regs b d f) cfg s"
  shows "returns (ide_finish b d f s)
    (\<lambda>(r, t). r = 0 \<and> boot_ok (ide_regs b d f) cfg t \<and> ide_ports t = ide_final_ports cfg b d f)"
  unfolding ide_finish_def returns_bind
proof (rule boot_puts [OF assms], goal_cases)
  case (1 t)
  define x where "x = (if ide_bar cfg b d f 0 = 0 then 1 else 0 :: LONG)"
  define y where "y = (if ide_bar cfg b d f 1 = 0 then 1 else 0 :: LONG)"
  have "ide_final_ports cfg b d f = ((ide_bar cfg b d f 0 AND 0xFFFFFFFC) + 0x1F0 * x,
      (ide_bar cfg b d f 1 AND 0xFFFFFFFC) + 0x3F6 * y, ide_bar cfg b d f 4 AND 0xFFFFFFFC)"
    by (simp add: ide_final_ports_def x_def y_def)
  with 1(1) show ?case
    unfolding Let_def
    by (simp add: boot_read_bar flip: x_def y_def) (rule ide_enable_int_boot [of "ide_regs b d f" cfg];
        simp add: ide_ports_def)
qed

text \<open>
  C35: While the kernel boots, with a ready console and the tick counter still 0, the driver's
  initialisation returns. The registers at offsets 8, 0x10, 0x14 and 0x20 of the device keep the
  values \<open>cfg\<close>: the driver writes none of them but the revision byte, which is read-only. All
  other registers, the interrupt line among them, may answer anything, also after being written.
  The initialisation succeeds exactly when bit 0 of the revision at offset 8 is set (although the
  source asks for the programming interface), and then the ports are those of the base address
  registers with the low two bits cleared, or the ports of the compatibility mode where a register
  is zero; otherwise the ports stay as they were.
\<close>

theorem ide_init_ports:
  assumes "boot_ok (ide_regs b d f) cfg s"
  shows "\<exists>r t. ide_init irqs b d f s = Some (r, t) \<and> boot_ok (ide_regs b d f) cfg t \<and>
    (r = 0 \<longleftrightarrow> bit (cfg (pci_cfg_addr (ucast b) (ucast d) (ucast f) 0x08)) 0) \<and>
    ide_ports t = (if r = 0 then
       ((if ide_bar cfg b d f 0 = 0 then 0x1F0 else ide_bar cfg b d f 0 AND 0xFFFFFFFC),
        (if ide_bar cfg b d f 1 = 0 then 0x3F6 else ide_bar cfg b d f 1 AND 0xFFFFFFFC),
        ide_bar cfg b d f 4 AND 0xFFFFFFFC) else ide_ports s)"
proof -
  have mode: "ide_mode_byte cfg b d f AND 1 = 0 \<longleftrightarrow>
      \<not> bit (cfg (pci_cfg_addr (ucast b) (ucast d) (ucast f) 0x08)) 0"
    by (simp add: ide_mode_byte_def and.assoc and_one_eq bit_0 mod_2_eq_odd even_and_iff)
  have "returns (ide_init irqs b d f s) (\<lambda>(r, t). boot_ok (ide_regs b d f) cfg t \<and>
      (r = 0 \<longleftrightarrow> \<not> ide_mode_byte cfg b d f AND 1 = 0) \<and>
      ide_ports t = (if r = 0 then ide_final_ports cfg b d f else ide_ports s))"
    unfolding ide_init_def returns_bind
  proof (rule boot_puts [OF assms], rule ide_channel_setnative_boot [where A = "ide_regs b d f" and cfg = cfg], assumption,
      rule ide_regs_mem, goal_cases)
    case (1 t r u)
    then show ?case
      by (auto intro!: ide_channel_setnative_boot [where A = "ide_regs b d f" and cfg = cfg] ide_regs_mem(1) returns_mono [OF ide_finish_boot [where cfg = cfg]])
  qed
  then show ?thesis by (auto simp: mode ide_final_ports_def dest!: returnsD)
qed

theorem ide_init_ports_witness:
  "\<exists>r t. ide_init (\<lambda>s. None) 0 1 1 ide0 = Some (r, t) \<and> r \<noteq> 0 \<and> ide_ports t = ide_ports ide0"
proof -
  have "\<not> bit (ide_cfg (pci_cfg_addr 0 1 1 0x08)) 0"
    by (simp add: ide_cfg_def pci_cfg_addr_def bit_0)
  with ide_init_ports [OF ide0_ok, of "\<lambda>s. None" 0 1 1] show ?thesis
    by (auto split: if_splits)
qed

end
