(* ===== verification/Ethernet.thy ===== *)
theory Ethernet
  imports Ide
begin

text \<open>
  The table of Ethernet devices, \<^verbatim>\<open>net/ethernet.c\<close>. The array that \<open>ethernet_setup\<close>
  allocates is the field \<open>eth_ifs\<close>, its address \<open>eth_ifs_at\<close>; a pointer into the array is the
  index of the element, and NULL is \<open>None\<close>. The function pointers of a device are addresses,
  0 when they are not set.
\<close>

definition ETH_MAX_IFS :: nat where
  "ETH_MAX_IFS = 16"

record ethdev =
  eth_allocated :: LONG
  eth_priv :: LONG
  eth_addr :: "BYTE list"
  link_status :: LONG
  mtu :: LONG
  eth_write :: LONG
  is_up :: LONG
  is_broadcast :: LONG
  is_multicast :: LONG
  is_promisc :: LONG

definition ethdev_zero :: ethdev where
  "ethdev_zero = \<lparr>eth_allocated = 0, eth_priv = 0, eth_addr = replicate 6 0, link_status = 0, mtu = 0,
     eth_write = 0, is_up = 0, is_broadcast = 0, is_multicast = 0, is_promisc = 0\<rparr>"

record ethernet = ide +
  eth_ifs :: "ethdev list"
  eth_ifs_at :: LONG

text \<open>The size of the structure in bytes, with two bytes of padding after the address.\<close>

definition sizeof_ethdev :: LONG where
  "sizeof_ethdev = 44"

section \<open>Operations\<close>

definition ethernet_setup :: "'a ethernet_scheme \<Rightarrow> 'a ethernet_scheme option" where
  "ethernet_setup s = do {
     s \<leftarrow> puts (str ''[ethernet] setup'' @ [10]) s;
     let (a, s) = malloc (of_nat ETH_MAX_IFS * sizeof_ethdev) s;
     Some (s\<lparr>eth_ifs_at := a, eth_ifs := replicate ETH_MAX_IFS ethdev_zero\<rparr>)
   }"

definition ethernet_allocate :: "'a ethernet_scheme \<Rightarrow> nat option \<times> 'a ethernet_scheme" where
  "ethernet_allocate s =
     (case first_free (\<lambda>d. eth_allocated d = 0) (eth_ifs s) of
        Some i \<Rightarrow>
          (let d = (eth_ifs s ! i)\<lparr>eth_allocated := 1, mtu := 1500\<rparr>
           in (Some i, s\<lparr>eth_ifs := (eth_ifs s)[i := d]\<rparr>))
      | None \<Rightarrow> (None, s))"

definition ethernet_free :: "nat \<Rightarrow> 'a ethernet_scheme \<Rightarrow> 'a ethernet_scheme" where
  "ethernet_free dev s = s\<lparr>eth_ifs := (eth_ifs s)[dev := ethdev_zero]\<rparr>"

text \<open>The index is signed and only its upper bound is tested: a negative one is outside the array.\<close>

definition ethernet_getdev :: "int \<Rightarrow> 'a ethernet_scheme \<Rightarrow> nat option option" where
  "ethernet_getdev index s =
     (if index \<ge> int ETH_MAX_IFS then Some None
      else if index < 0 \<or> nat index \<ge> length (eth_ifs s) then None
      else if eth_allocated (eth_ifs s ! nat index) = 0 then Some None
      else Some (Some (nat index)))"

section \<open>The device table\<close>

definition eth_ok :: "'a ethernet_scheme \<Rightarrow> bool" where
  "eth_ok s \<longleftrightarrow> length (eth_ifs s) = ETH_MAX_IFS"

definition eth_alloc :: "'a ethernet_scheme \<Rightarrow> (bool \<times> 'a ethernet_scheme) option" where
  "eth_alloc s = (case ethernet_allocate s of (p, t) \<Rightarrow> Some (p \<noteq> None, t))"

interpretation eth_slots: slot_table eth_ok eth_ifs "\<lambda>d. eth_allocated d = 0" eth_alloc
  by unfold_locales (rule first_free_law, auto simp: eth_alloc_def ethernet_allocate_def Let_def eth_ok_def,
    rule exI, rule conjI [rotated], rule refl, simp)

text \<open>A table with no device, for the examples.\<close>

definition eth0 :: ethernet where
  "eth0 = ide.extend ide0 \<lparr>eth_ifs = replicate 16 ethdev_zero, eth_ifs_at = 0x100000\<rparr>"

lemma eth0_ok: "eth_ok eth0"
  by (simp add: eth_ok_def ETH_MAX_IFS_def eth0_def ide.defs)

text \<open>
  C26: Allocating a device takes one that no lookup found, makes the lookup of its index find
  it, with the default MTU of 1500, and changes no other lookup; freeing it takes it away
  again. The allocation fails only when every lookup below 16 finds a device.
\<close>

theorem ethernet_allocate_lookup:
  assumes "eth_ok s"
  shows "case ethernet_allocate s of
      (Some i, t) \<Rightarrow>
        ethernet_getdev (int i) s = Some None \<and> ethernet_getdev (int i) t = Some (Some i) \<and>
        mtu (eth_ifs t ! i) = 1500 \<and>
        (\<forall>j. j \<noteq> int i \<longrightarrow> ethernet_getdev j t = ethernet_getdev j s) \<and>
        ethernet_getdev (int i) (ethernet_free i t) = Some None
    | (None, t) \<Rightarrow> t = s \<and> (\<forall>j < 16. ethernet_getdev (int j) s = Some (Some j))"
proof (cases "first_free (\<lambda>d. eth_allocated d = 0) (eth_ifs s)")
  case None
  then have "\<forall>j < 16. eth_allocated (eth_ifs s ! j) \<noteq> 0"
    using assms by (auto simp: first_free_None eth_ok_def ETH_MAX_IFS_def)
  with None assms show ?thesis
    by (simp add: ethernet_allocate_def ethernet_getdev_def eth_ok_def ETH_MAX_IFS_def)
next
  case (Some i)
  from first_free_Some [OF Some] have i: "i < length (eth_ifs s)" "eth_allocated (eth_ifs s ! i) = 0"
    by auto
  with Some assms show ?thesis
    by (auto simp: ethernet_allocate_def ethernet_getdev_def ethernet_free_def eth_ok_def
        ETH_MAX_IFS_def ethdev_zero_def Let_def nth_list_update)
qed

theorem ethernet_allocate_lookup_witness:
  "\<exists>i t. ethernet_allocate eth0 = (Some i, t) \<and> ethernet_getdev (int i) t = Some (Some i)"
proof -
  have "fst (ethernet_allocate eth0) = Some 0"
    by (simp add: eth0_def ide.defs ethernet_allocate_def ethdev_zero_def Let_def numeral_eq_Suc)
  with ethernet_allocate_lookup [OF eth0_ok] show ?thesis
    by (cases "ethernet_allocate eth0") auto
qed

end
