(* ===== verification/Libc.thy ===== *)
theory Libc
  imports Digits
begin

text \<open>
  The string functions of \<^verbatim>\<open>libc/stdlib.c\<close>, on a byte-addressed memory with 32-bit
  addresses that wrap around. A pointer that walks over memory until it finds a NUL may
  never find one; such loops are \<open>None\<close> when they do not end.
\<close>

type_synonym memory = "LONG \<Rightarrow> BYTE"

section \<open>memcpy, kmemset\<close>

fun memcpy_loop :: "nat \<Rightarrow> LONG \<Rightarrow> LONG \<Rightarrow> memory \<Rightarrow> memory" where
  "memcpy_loop 0 d s m = m"
| "memcpy_loop (Suc n) d s m = memcpy_loop n (d + 1) (s + 1) (m(d := m s))"

definition memcpy :: "LONG \<Rightarrow> LONG \<Rightarrow> LONG \<Rightarrow> memory \<Rightarrow> memory" where
  "memcpy dst src n m = memcpy_loop (unat n) dst src m"

fun kmemset_loop :: "nat \<Rightarrow> LONG \<Rightarrow> BYTE \<Rightarrow> memory \<Rightarrow> memory" where
  "kmemset_loop 0 p c m = m"
| "kmemset_loop (Suc n) p c m = kmemset_loop n (p + 1) c (m(p := c))"

definition kmemset :: "LONG \<Rightarrow> LONG \<Rightarrow> LONG \<Rightarrow> memory \<Rightarrow> memory" where
  "kmemset s c n m = kmemset_loop (unat n) s (ucast c) m"

section \<open>strncpy, strncat\<close>

fun strncpy_loop :: "nat \<Rightarrow> LONG \<Rightarrow> LONG \<Rightarrow> memory \<Rightarrow> memory" where
  "strncpy_loop 0 d s m = m"
| "strncpy_loop (Suc n) d s m =
     (let c = m s; m = m(d := c)
      in if c \<noteq> 0 then strncpy_loop n (d + 1) (s + 1) m else kmemset_loop n (d + 1) 0 m)"

definition strncpy :: "LONG \<Rightarrow> LONG \<Rightarrow> LONG \<Rightarrow> memory \<Rightarrow> memory" where
  "strncpy dest src n m = strncpy_loop (unat n) dest src m"

partial_function (option) nul_at :: "memory \<Rightarrow> LONG \<Rightarrow> LONG option" where
  "nul_at m p = (if m p \<noteq> 0 then nul_at m (p + 1) else Some p)"

fun strncat_loop :: "nat \<Rightarrow> LONG \<Rightarrow> LONG \<Rightarrow> memory \<Rightarrow> memory" where
  "strncat_loop 0 d s m = m(d := 0)"
| "strncat_loop (Suc n) d s m =
     (let c = m s; m = m(d := c) in if c = 0 then m else strncat_loop n (d + 1) (s + 1) m)"

definition strncat :: "LONG \<Rightarrow> LONG \<Rightarrow> LONG \<Rightarrow> memory \<Rightarrow> memory option" where
  "strncat dest src n m = do { d \<leftarrow> nul_at m dest; Some (strncat_loop (unat n) d src m) }"

section \<open>strncmp\<close>

text \<open>
  \<open>strncmp\<close> compares words first. \<open>fast\<close> is the number of words to compare, \<open>offset\<close>
  the position where the comparison by bytes starts; \<open>len\<close> is an \<open>int\<close>.
\<close>

definition load32 :: "memory \<Rightarrow> LONG \<Rightarrow> LONG" where
  "load32 m a = ucast (m a) OR push_bit 8 (ucast (m (a + 1))) OR
     push_bit 16 (ucast (m (a + 2))) OR push_bit 24 (ucast (m (a + 3)))"

definition byte_diff :: "memory \<Rightarrow> LONG \<Rightarrow> LONG \<Rightarrow> LONG" where
  "byte_diff m a b = ucast (m a) - ucast (m b)"

fun strncmp_scan :: "memory \<Rightarrow> LONG \<Rightarrow> LONG \<Rightarrow> nat \<Rightarrow> LONG \<Rightarrow> LONG option" where
  "strncmp_scan m p0 p1 0 pos = None"
| "strncmp_scan m p0 p1 (Suc k) pos =
     (if m (p0 + pos) \<noteq> m (p1 + pos) \<or> m (p0 + pos) = 0 \<or> m (p1 + pos) = 0
      then Some (byte_diff m (p0 + pos) (p1 + pos))
      else strncmp_scan m p0 p1 k (pos + 1))"

fun strncmp_blocks :: "memory \<Rightarrow> LONG \<Rightarrow> LONG \<Rightarrow> LONG \<Rightarrow> nat \<Rightarrow> LONG \<Rightarrow> LONG option" where
  "strncmp_blocks m p0 p1 len 0 cur = None"
| "strncmp_blocks m p0 p1 len (Suc k) cur =
     (if load32 m (p0 + cur * 4) \<noteq> load32 m (p1 + cur * 4)
      then (case strncmp_scan m p0 p1 (nat (sint len - sint (cur * 4))) (cur * 4) of
              Some r \<Rightarrow> Some r
            | None \<Rightarrow> strncmp_blocks m p0 p1 len k (cur + 1))
      else strncmp_blocks m p0 p1 len k (cur + 1))"

fun strncmp_tail :: "memory \<Rightarrow> LONG \<Rightarrow> LONG \<Rightarrow> nat \<Rightarrow> LONG \<Rightarrow> LONG option" where
  "strncmp_tail m p0 p1 0 off = None"
| "strncmp_tail m p0 p1 (Suc k) off =
     (if m (p0 + off) \<noteq> m (p1 + off) then Some (byte_diff m (p0 + off) (p1 + off))
      else strncmp_tail m p0 p1 k (off + 1))"

definition strncmp :: "memory \<Rightarrow> LONG \<Rightarrow> LONG \<Rightarrow> LONG \<Rightarrow> LONG" where
  "strncmp m ptr0 ptr1 len =
     (let fast = len div 4 + 1;
          offset = (fast - 1) * 4;
          fast = (if len \<le> 4 then 0 else fast)
      in case strncmp_blocks m ptr0 ptr1 len (unat fast) 0 of
           Some r \<Rightarrow> r
         | None \<Rightarrow>
             (case strncmp_tail m ptr0 ptr1 (nat (sint len - sint offset)) offset of
                Some r \<Rightarrow> r
              | None \<Rightarrow> 0))"

section \<open>atoi, itoa\<close>

partial_function (option) atoi_loop :: "memory \<Rightarrow> LONG \<Rightarrow> LONG \<Rightarrow> LONG option" where
  "atoi_loop m s n =
     (if m s \<noteq> 0 then atoi_loop m s (n * 10 + (scast (m s) - 48)) else Some n)"

definition atoi :: "memory \<Rightarrow> LONG \<Rightarrow> LONG option" where
  "atoi m s = (if m s = 0 then Some 0 else atoi_loop m s 0)"

text \<open>
  The digits in \<open>tmp\<close>, least significant first. The loop body runs once before the
  condition can fail, and ends only when the base is at least two.
\<close>

function itoa_digits :: "LONG \<Rightarrow> LONG \<Rightarrow> BYTE list" where
  "itoa_digits base v =
     (let i = v mod base; v' = v div base;
          c = (if sint i < 10 then ucast i + 48 else ucast i + 97 - 10)
      in if v' = 0 \<or> base < 2 then [c] else c # itoa_digits base v')"
  by pat_completeness auto
termination
proof (relation "measure (\<lambda>(base, v). unat v)")
  fix base v v' :: LONG
  assume "v' = v div base" and "\<not> (v' = 0 \<or> base < 2)"
  then have "v \<noteq> 0" and "2 \<le> unat base" and v': "unat v' = unat v div unat base"
    by (auto simp: unat_div_distrib word_less_nat_alt)
  then have "unat v' < unat v"
    by (simp add: v' unat_gt_0)
  then show "((base, v'), (base, v)) \<in> measure (\<lambda>(base, v). unat v)" by simp
qed simp

declare itoa_digits.simps [simp del]

fun store_list :: "BYTE list \<Rightarrow> LONG \<Rightarrow> memory \<Rightarrow> memory" where
  "store_list [] p m = m"
| "store_list (c # cs) p m = store_list cs (p + 1) (m(p := c))"

definition itoa :: "LONG \<Rightarrow> LONG \<Rightarrow> LONG \<Rightarrow> memory \<Rightarrow> memory option" where
  "itoa n s base m =
     (if base < 2 then None
      else
        (let sign = (base = 10 \<and> sint n < 0);
             v = (if sign then - n else n);
             tmp = itoa_digits base v;
             out = (if sign then [45] else []) @ rev tmp @ [0]
         in Some (store_list out s m)))"

section \<open>Copying and filling\<close>

text \<open>The offset of an address from a base that moves up by one.\<close>

lemma unat_minus_1_long: "unat (- 1 :: LONG) = 4294967295"
  by (simp add: unsigned_minus_1_eq_mask mask_eq_exp_minus_1)

lemma unat_offset_next:
  "unat (a - (d + 1)) = (if a = d then 4294967295 else unat (a - d) - 1)" for a d :: LONG
proof -
  show ?thesis
    using unat_minus_one [of "a - d"] by (cases "a = d") (simp_all add: unat_minus_1_long diff_diff_eq)
qed

lemma offset_pos: "a \<noteq> d \<Longrightarrow> 0 < unat (a - d)" for a d :: LONG
  by (simp add: unat_gt_0)

text \<open>
  A forward copy is right when no source byte is overwritten before it is read: the
  destination starts at the source or does not start inside it.
\<close>

lemma memcpy_loop_apply:
  assumes "n < 2 ^ 32" and "d = s \<or> n \<le> unat (d - s)"
  shows "memcpy_loop n d s m a = (if unat (a - d) < n then m (s + (a - d)) else m a)"
  using assms
proof (induction n arbitrary: d s m)
  case (Suc n)
  let ?m = "m(d := m s)"
  have IH: "memcpy_loop n (d + 1) (s + 1) ?m a =
      (if unat (a - (d + 1)) < n then ?m (s + 1 + (a - (d + 1))) else ?m a)"
    using Suc.prems by (intro Suc.IH) auto
  show ?case
  proof (cases "a = d")
    case True
    with Suc.prems show ?thesis unfolding memcpy_loop.simps IH by (simp add: unat_minus_1_long)
  next
    case False
    have "s + (a - d) \<noteq> d" if "unat (a - d) \<le> n"
    proof
      assume "s + (a - d) = d"
      then have "a - d = d - s" by (metis add_diff_cancel_left')
      with that Suc.prems(2) False offset_pos [OF False] show False by auto
    qed
    with False offset_pos [OF False] show ?thesis
      unfolding memcpy_loop.simps IH
      by (auto simp: unat_offset_next less_Suc_eq_le)
  qed
qed simp

lemma kmemset_loop_apply:
  assumes "n < 2 ^ 32"
  shows "kmemset_loop n p c m a = (if unat (a - p) < n then c else m a)"
  using assms
proof (induction n arbitrary: p m)
  case (Suc n)
  then show ?case
    using offset_pos [of a p] by (auto simp: unat_offset_next less_Suc_eq_le)
qed simp

lemma ex_le_Suc: "(\<exists>j \<le> Suc i. P j) \<longleftrightarrow> P 0 \<or> (\<exists>j \<le> i. P (Suc j))"
  by (metis Suc_le_mono le0 not0_implies_Suc)

lemma strncpy_loop_apply:
  assumes "n \<le> unat (d - s)"
  shows "strncpy_loop n d s m a =
    (if unat (a - d) < n
     then (if \<exists>j \<le> unat (a - d). m (s + of_nat j) = 0 then 0 else m (s + (a - d)))
     else m a)"
  using assms
proof (induction n arbitrary: d s m)
  case (Suc n)
  let ?m = "m(d := m s)"
  have small: "n < 4294967295" using Suc.prems unat_bounds(3) [of "d - s"] by simp
  have other: "s + 1 + of_nat j \<noteq> d" if "j < n" for j
  proof
    assume "s + 1 + of_nat j = d"
    then have "d - s = of_nat (Suc j)" by (simp add: algebra_simps)
    then have "unat (d - s) \<le> Suc j" by (simp add: unat_of_nat del: of_nat_Suc)
    with that Suc.prems show False by simp
  qed
  have IH: "strncpy_loop n (d + 1) (s + 1) ?m a =
    (if unat (a - (d + 1)) < n
     then (if \<exists>j \<le> unat (a - (d + 1)). ?m (s + 1 + of_nat j) = 0 then 0
           else ?m (s + 1 + (a - (d + 1))))
     else ?m a)"
    using Suc.prems by (intro Suc.IH) simp
  show ?case
  proof (cases "a = d")
    case True
    with small show ?thesis
      unfolding strncpy_loop.simps Let_def if_distribR IH
      by (simp add: kmemset_loop_apply unat_minus_1_long)
  next
    case False
    then obtain i where i: "unat (a - d) = Suc i"
      using offset_pos [of a d] by (cases "unat (a - d)") auto
    then have "a - d = of_nat (Suc i)" by (metis word_of_nat_unat)
    then have a: "a = d + 1 + of_nat i" by (simp add: algebra_simps)
    have off: "unat (a - (d + 1)) = i"
      using False i by (simp add: unat_offset_next)
    have ad: "s + (a - d) = s + 1 + of_nat i" and ad': "s + 1 + (a - (d + 1)) = s + 1 + of_nat i"
      by (simp_all add: a)
    have m: "?m (s + 1 + of_nat j) = m (s + 1 + of_nat j)" if "j < n" for j
      using other [OF that] by simp
    have ex: "(\<exists>j \<le> i. ?m (s + 1 + of_nat j) = 0) = (\<exists>j \<le> i. m (s + 1 + of_nat j) = 0)" if "i < n"
      by (rule ex_cong1, rule conj_cong) (use m that le_less_trans in auto)
    have nat: "s + of_nat (Suc j) = s + 1 + of_nat j" for j by simp
    have IH': "strncpy_loop n (d + 1) (s + 1) ?m a =
      (if i < n then (if \<exists>j \<le> i. m (s + of_nat (Suc j)) = 0 then 0 else m (s + (a - d))) else m a)"
      unfolding IH off ad ad' nat using ex m [of i] False
      by (cases "i < n") (simp_all only: if_True if_False fun_upd_other not_False_eq_True simp_thms)
    show ?thesis
      using False small
      by (simp add: Let_def IH' i ex_le_Suc kmemset_loop_apply off if_distribR del: of_nat_Suc)
  qed
qed simp

section \<open>Comparing\<close>

lemma load32_bytes:
  "ucast (load32 m a) = m a"
  "ucast (drop_bit 8 (load32 m a)) = m (a + 1)"
  "ucast (drop_bit 16 (load32 m a)) = m (a + 2)"
  "ucast (drop_bit 24 (load32 m a)) = m (a + 3)"
  by (rule bit_word_eqI; auto simp: load32_def bit_simps dest: bit_imp_le_length; fail)+

lemma load32_eq_iff:
  "load32 m a = load32 m b \<longleftrightarrow>
     m a = m b \<and> m (a + 1) = m (b + 1) \<and> m (a + 2) = m (b + 2) \<and> m (a + 3) = m (b + 3)"
proof
  assume "load32 m a = load32 m b"
  then show "m a = m b \<and> m (a + 1) = m (b + 1) \<and> m (a + 2) = m (b + 2) \<and> m (a + 3) = m (b + 3)"
    by (metis load32_bytes)
qed (simp add: load32_def)

text \<open>The word comparison sees a difference in four consecutive bytes.\<close>

lemma load32_block:
  "load32 m (p + of_nat c * 4) = load32 m (q + of_nat c * 4) \<longleftrightarrow>
     (\<forall>i \<in> {4 * c..<4 * c + 4}. m (p + of_nat i) = m (q + of_nat i))"
proof -
  have "{4 * c..<4 * c + 4} = {4 * c, 4 * c + 1, 4 * c + 2, 4 * c + 3}" by auto
  then show ?thesis by (simp add: load32_eq_iff algebra_simps)
qed

lemma sint_small: "n < 2 ^ 31 \<Longrightarrow> sint (of_nat n :: LONG) = int n"
  by (simp add: signed_of_nat signed_take_bit_int_eq_self)

text \<open>The scan inside a block that differs stops at a NUL or at the first difference.\<close>

lemma strncmp_scan_diff:
  assumes "p \<le> d" and "d < p + k"
    and "\<And>z. p \<le> z \<Longrightarrow> z < d \<Longrightarrow> m (p0 + of_nat z) = m (p1 + of_nat z)"
    and "m (p0 + of_nat d) \<noteq> m (p1 + of_nat d)"
  shows "strncmp_scan m p0 p1 k (of_nat p) =
    Some (if \<exists>z. p \<le> z \<and> z < d \<and> m (p0 + of_nat z) = 0 then 0
          else byte_diff m (p0 + of_nat d) (p1 + of_nat d))"
  using assms
proof (induction k arbitrary: p)
  case (Suc k)
  show ?case
  proof (cases "p = d")
    case True
    with Suc.prems(4) show ?thesis by auto
  next
    case False
    with Suc.prems have eq: "m (p0 + of_nat p) = m (p1 + of_nat p)" and "p < d" by auto
    show ?thesis
    proof (cases "m (p0 + of_nat p) = 0")
      case True
      with eq \<open>p < d\<close> show ?thesis by (auto simp: byte_diff_def)
    next
      case nz: False
      have "(\<exists>z. p \<le> z \<and> z < d \<and> m (p0 + of_nat z) = 0) \<longleftrightarrow>
          (\<exists>z. Suc p \<le> z \<and> z < d \<and> m (p0 + of_nat z) = 0)"
        using nz by (metis Suc_leD Suc_leI le_neq_implies_less)
      moreover have "strncmp_scan m p0 p1 k (of_nat (Suc p)) =
          Some (if \<exists>z. Suc p \<le> z \<and> z < d \<and> m (p0 + of_nat z) = 0 then 0
                else byte_diff m (p0 + of_nat d) (p1 + of_nat d))"
        using Suc.prems \<open>p < d\<close> by (intro Suc.IH) auto
      ultimately show ?thesis
        using eq nz by (simp add: add.commute)
    qed
  qed
qed simp

lemma strncmp_scan_same:
  assumes "\<And>z. p \<le> z \<Longrightarrow> z < p + k \<Longrightarrow> m (p0 + of_nat z) = m (p1 + of_nat z)"
  shows "strncmp_scan m p0 p1 k (of_nat p) \<in> {None, Some 0}"
  using assms
proof (induction k arbitrary: p)
  case (Suc k)
  have "strncmp_scan m p0 p1 k (of_nat (Suc p)) \<in> {None, Some 0}"
    using Suc.prems by (intro Suc.IH) auto
  with Suc.prems [of p] show ?case by (auto simp: byte_diff_def add.commute)
qed simp

lemma strncmp_tail_same:
  assumes "\<And>z. p \<le> z \<Longrightarrow> z < p + k \<Longrightarrow> m (p0 + of_nat z) = m (p1 + of_nat z)"
  shows "strncmp_tail m p0 p1 k (of_nat p) = None"
  using assms
proof (induction k arbitrary: p)
  case (Suc k)
  have "strncmp_tail m p0 p1 k (of_nat (Suc p)) = None"
    using Suc.prems by (intro Suc.IH) auto
  with Suc.prems [of p] show ?case by (simp add: add.commute)
qed simp

lemma scan_length:
  assumes "c \<le> L div 4" and "L < 2 ^ 31"
  shows "nat (sint (of_nat L :: LONG) - sint (of_nat c * 4 :: LONG)) = L - 4 * c"
proof -
  have "(of_nat c * 4 :: LONG) = of_nat (4 * c)" by simp
  moreover have "sint (of_nat (4 * c) :: LONG) = int (4 * c)"
    using assms by (intro sint_small) linarith
  ultimately show ?thesis
    using assms(2) by (simp add: sint_small del: of_nat_mult)
qed

lemma strncmp_blocks_diff:
  assumes L: "L < 2 ^ 31" and d: "d < L"
    and same: "\<And>z. z < d \<Longrightarrow> m (p0 + of_nat z) = m (p1 + of_nat z)"
    and diff: "m (p0 + of_nat d) \<noteq> m (p1 + of_nat d)"
    and "c \<le> d div 4" and "d div 4 < c + k"
  shows "strncmp_blocks m p0 p1 (of_nat L) k (of_nat c) =
    Some (if \<exists>z. 4 * (d div 4) \<le> z \<and> z < d \<and> m (p0 + of_nat z) = 0 then 0
          else byte_diff m (p0 + of_nat d) (p1 + of_nat d))"
  using assms(5,6)
proof (induction k arbitrary: c)
  case (Suc k)
  show ?case
  proof (cases "c = d div 4")
    case True
    then have blk: "load32 m (p0 + of_nat c * 4) \<noteq> load32 m (p1 + of_nat c * 4)"
      unfolding load32_block using diff by (intro notI, elim ballE [of _ _ d]) auto
    have "c \<le> L div 4" using True d by (simp add: div_le_mono)
    note len = scan_length [OF this L]
    have "strncmp_scan m p0 p1 (L - 4 * c) (of_nat (4 * c)) =
        Some (if \<exists>z. 4 * c \<le> z \<and> z < d \<and> m (p0 + of_nat z) = 0 then 0
              else byte_diff m (p0 + of_nat d) (p1 + of_nat d))"
      using True d same diff by (intro strncmp_scan_diff) auto
    with True blk len show ?thesis by (simp add: mult.commute)
  next
    case False
    with Suc.prems have c: "c < d div 4" by simp
    then have "load32 m (p0 + of_nat c * 4) = load32 m (p1 + of_nat c * 4)"
      unfolding load32_block using same by auto
    moreover have "strncmp_blocks m p0 p1 (of_nat L) k (of_nat (Suc c)) =
        Some (if \<exists>z. 4 * (d div 4) \<le> z \<and> z < d \<and> m (p0 + of_nat z) = 0 then 0
              else byte_diff m (p0 + of_nat d) (p1 + of_nat d))"
      using c Suc.prems by (intro Suc.IH) auto
    ultimately show ?thesis by (simp add: add.commute)
  qed
qed simp

lemma strncmp_blocks_same:
  assumes L: "L < 2 ^ 31"
    and same: "\<And>z. z < L \<Longrightarrow> m (p0 + of_nat z) = m (p1 + of_nat z)"
    and "c + k \<le> L div 4 + 1"
  shows "strncmp_blocks m p0 p1 (of_nat L) k (of_nat c) \<in> {None, Some 0}"
  using assms(3)
proof (induction k arbitrary: c)
  case (Suc k)
  have "strncmp_blocks m p0 p1 (of_nat L) k (of_nat (Suc c)) \<in> {None, Some 0}"
    using Suc.prems by (intro Suc.IH) simp
  moreover have "strncmp_scan m p0 p1 (L - 4 * c) (of_nat (4 * c)) \<in> {None, Some 0}"
    by (rule strncmp_scan_same) (use same Suc.prems in auto)
  moreover have "nat (sint (of_nat L :: LONG) - sint (of_nat c * 4 :: LONG)) = L - 4 * c"
    using Suc.prems L by (intro scan_length) simp_all
  ultimately show ?case by (auto simp: add.commute mult.commute split: option.splits)
qed simp

text \<open>
  What \<open>strncmp\<close> computes on more than four bytes. With \<open>d\<close> the first position where
  the two byte sequences differ, the result is the difference there, unless a NUL stands
  before it in the same aligned word; then it is 0. A NUL in an earlier word does not stop
  the comparison.
\<close>

definition first_diff :: "memory \<Rightarrow> LONG \<Rightarrow> LONG \<Rightarrow> nat \<Rightarrow> nat option" where
  "first_diff m p q n = find (\<lambda>i. m (p + of_nat i) \<noteq> m (q + of_nat i)) [0..<n]"

definition strncmp_spec :: "memory \<Rightarrow> LONG \<Rightarrow> LONG \<Rightarrow> nat \<Rightarrow> LONG" where
  "strncmp_spec m p q n =
     (case first_diff m p q n of
        None \<Rightarrow> 0
      | Some d \<Rightarrow>
          if \<exists>z \<in> {4 * (d div 4)..<d}. m (p + of_nat z) = 0 then 0
          else byte_diff m (p + of_nat d) (q + of_nat d))"

lemma first_diff_None:
  "first_diff m p q n = None \<longleftrightarrow> (\<forall>i < n. m (p + of_nat i) = m (q + of_nat i))"
  by (auto simp: first_diff_def find_None_iff)

lemma first_diff_Some:
  "first_diff m p q n = Some d \<longleftrightarrow>
     d < n \<and> m (p + of_nat d) \<noteq> m (q + of_nat d) \<and> (\<forall>i < d. m (p + of_nat i) = m (q + of_nat i))"
  by (auto simp: first_diff_def find_Some_iff)

lemma strncmp_large:
  assumes "4 < L" and "L < 2 ^ 31"
  shows "strncmp m p q (of_nat L) = strncmp_spec m p q L"
proof -
  have L: "unat (of_nat L :: LONG) = L" using assms by (simp add: unat_of_nat)
  have fast: "\<not> (of_nat L :: LONG) \<le> 4" and blocks: "unat (of_nat L div 4 + 1 :: LONG) = L div 4 + 1"
    using assms L by (simp_all add: word_le_nat_alt unat_word_ariths unat_div_distrib)
  have quot: "(of_nat L div 4 :: LONG) = of_nat (L div 4)"
    using L by (simp add: word_arith_nat_div)
  have len: "nat (sint (of_nat L :: LONG) - sint (of_nat (L div 4) * 4 :: LONG)) = L - 4 * (L div 4)"
    using assms by (intro scan_length) simp_all
  have off: "of_nat (L div 4) * 4 = (of_nat (4 * (L div 4)) :: LONG)" by simp
  have eq: "strncmp m p q (of_nat L) =
      (case strncmp_blocks m p q (of_nat L) (L div 4 + 1) (of_nat 0) of
         Some r \<Rightarrow> r
       | None \<Rightarrow> (case strncmp_tail m p q (L - 4 * (L div 4)) (of_nat (4 * (L div 4))) of
                    Some r \<Rightarrow> r | None \<Rightarrow> 0))"
    unfolding strncmp_def Let_def using fast blocks len
    by (simp only: if_False quot add_diff_cancel_right' off) (simp del: strncmp_blocks.simps)
  show ?thesis
  proof (cases "first_diff m p q L")
    case None
    then have same: "\<And>z. z < L \<Longrightarrow> m (p + of_nat z) = m (q + of_nat z)"
      by (simp add: first_diff_None)
    have "strncmp_blocks m p q (of_nat L) (L div 4 + 1) (of_nat 0) \<in> {None, Some 0}"
      by (rule strncmp_blocks_same [OF assms(2)]) (simp_all add: same)
    moreover have "strncmp_tail m p q (L - 4 * (L div 4)) (of_nat (4 * (L div 4))) = None"
      by (rule strncmp_tail_same) (use same in auto)
    ultimately show ?thesis
      unfolding eq strncmp_spec_def None by (auto split: option.splits)
  next
    case (Some d)
    then have d: "d < L" "m (p + of_nat d) \<noteq> m (q + of_nat d)"
      and same: "\<And>z. z < d \<Longrightarrow> m (p + of_nat z) = m (q + of_nat z)"
      by (auto simp: first_diff_Some)
    have "strncmp_blocks m p q (of_nat L) (L div 4 + 1) (of_nat 0) =
        Some (if \<exists>z. 4 * (d div 4) \<le> z \<and> z < d \<and> m (p + of_nat z) = 0 then 0
              else byte_diff m (p + of_nat d) (q + of_nat d))"
      using assms(2) d same by (intro strncmp_blocks_diff) (auto simp: less_Suc_eq_le div_le_mono)
    then show ?thesis
      unfolding eq strncmp_spec_def Some by (auto simp: Bex_def)
  qed
qed

text \<open>On fewer than four bytes the comparison does not stop at a NUL; on four it never starts.\<close>

lemma strncmp_four: "strncmp m p q 4 = 0"
  by (simp add: strncmp_def Let_def)

section \<open>Appending\<close>

lemma nul_at_find:
  assumes "m (p + of_nat k) = 0" and "\<And>i. i < k \<Longrightarrow> m (p + of_nat i) \<noteq> 0"
  shows "nul_at m p = Some (p + of_nat k)"
  using assms
proof (induction k arbitrary: p)
  case 0
  then show ?case by (simp add: nul_at.simps)
next
  case (Suc k)
  have "nul_at m (p + 1) = Some (p + 1 + of_nat k)"
    using Suc.prems(1) Suc.prems(2) [of "Suc i" for i]
    by (intro Suc.IH) (simp_all add: add.assoc)
  moreover have "m p \<noteq> 0" using Suc.prems(2) [of 0] by simp
  ultimately show ?case by (simp add: nul_at.simps [of m p] add.assoc)
qed

section \<open>atoi and itoa\<close>

text \<open>
  \<open>atoi\<close> never advances its pointer, so on a string that is not empty it does not return.
\<close>

lemma atoi_loop_None: "m s \<noteq> 0 \<Longrightarrow> atoi_loop m s n = None"
proof (cases "atoi_loop m s n")
  case (Some r)
  assume "m s \<noteq> 0"
  have "m s = 0"
    by (rule atoi_loop.raw_induct [where P = "\<lambda>m s n r. m s = 0", OF _ Some])
      (auto split: if_splits)
  with \<open>m s \<noteq> 0\<close> show ?thesis by simp
qed simp

lemma unat_small_digit:
  fixes base v :: LONG
  assumes "2 \<le> unat base" and "unat base \<le> 36"
  shows "(if sint (v mod base) < 10 then ucast (v mod base) + 48 else ucast (v mod base) + 97 - 10) =
    digit_char (unat v mod unat base)"
proof -
  let ?i = "v mod base"
  have i: "unat ?i = unat v mod unat base" by (simp add: unat_mod_distrib)
  then have "unat ?i < 36" using assms by (simp add: less_le_trans [OF mod_less_divisor])
  then have "sint ?i = int (unat ?i)"
    using sint_small [of "unat ?i", unfolded word_of_nat_unat] by simp
  moreover have "unat (ucast ?i :: BYTE) = unat ?i"
    using \<open>unat ?i < 36\<close> by (simp add: unat_ucast_byte)
  then have "(ucast ?i :: BYTE) = of_nat (unat ?i)"
    by (metis word_of_nat_unat)
  ultimately show ?thesis
    by (simp add: digit_char_def i add.commute)
qed

lemma itoa_digits_rev:
  assumes "2 \<le> unat base" and "unat base \<le> 36"
  shows "rev (itoa_digits base v) = map digit_char (digits (unat base) (unat v))"
  using assms
proof (induction base v rule: itoa_digits.induct)
  case (1 base v)
  let ?v = "v div base" and ?c = "digit_char (unat v mod unat base)"
  have v: "unat ?v = unat v div unat base" by (simp add: unat_div_distrib)
  have base: "\<not> base < 2" using "1.prems" by (simp add: word_less_nat_alt)
  have step: "itoa_digits base v = (if ?v = 0 then [?c] else ?c # itoa_digits base ?v)"
    using base unat_small_digit [OF "1.prems", of v]
    by (subst itoa_digits.simps) (simp add: Let_def)
  show ?case
  proof (cases "?v = 0")
    case True
    then have "unat v < unat base"
      using v "1.prems" by (metis div_eq_0_iff not_numeral_le_zero unat_0)
    with True step show ?thesis by (simp add: digits_small)
  next
    case False
    then have "unat base \<le> unat v"
      using v by (metis div_less leI unat_eq_zero)
    moreover have "rev (itoa_digits base ?v) = map digit_char (digits (unat base) (unat ?v))"
      using False base "1.prems" by (intro "1.IH") simp_all
    ultimately show ?thesis
      using False step v "1.prems" by (simp add: digits_large)
  qed
qed

lemma store_list_outside:
  "length cs \<le> unat (a - p) \<Longrightarrow> store_list cs p m a = m a"
proof (induction cs arbitrary: p m)
  case (Cons c cs)
  then have "a \<noteq> p" by auto
  with Cons.prems have "length cs \<le> unat (a - (p + 1))" by (simp add: unat_offset_next)
  with Cons.IH \<open>a \<noteq> p\<close> show ?case by simp
qed simp

lemma store_list_nth:
  "i < length cs \<Longrightarrow> length cs \<le> 2 ^ 32 \<Longrightarrow> store_list cs p m (p + of_nat i) = cs ! i"
proof (induction cs arbitrary: p m i)
  case (Cons c cs)
  show ?case
  proof (cases i)
    case 0
    have "unat (p - (p + 1)) = 4294967295" by (simp add: unat_minus_1_long)
    with Cons.prems have "store_list cs (p + 1) (m(p := c)) p = (m(p := c)) p"
      by (intro store_list_outside) simp
    with 0 show ?thesis by simp
  next
    case (Suc j)
    have "store_list cs (p + 1) (m(p := c)) (p + 1 + of_nat j) = cs ! j"
      using Suc Cons.prems by (intro Cons.IH) simp_all
    with Suc show ?thesis by (simp add: add.assoc)
  qed
qed simp

text \<open>Reading a C string of known length back from memory.\<close>

definition cstring_at :: "memory \<Rightarrow> LONG \<Rightarrow> BYTE list \<Rightarrow> bool" where
  "cstring_at m p cs \<longleftrightarrow>
     (\<forall>i < length cs. m (p + of_nat i) = cs ! i) \<and> m (p + of_nat (length cs)) = 0 \<and> 0 \<notin> set cs"

text \<open>The text of a signed number: a minus sign in base ten only, as the code has it.\<close>

definition itoa_text :: "nat \<Rightarrow> int \<Rightarrow> BYTE list" where
  "itoa_text b n =
     (if b = 10 \<and> n < 0 then 45 # map digit_char (digits 10 (nat (- n)))
      else map digit_char (digits b (nat (n mod 2 ^ 32))))"

lemma unat_sint: "unat (of_int k :: LONG) = nat (k mod 2 ^ 32)"
  by (simp add: unat_eq_nat_uint unsigned_of_int take_bit_eq_mod)

lemma nat_sint_mod: "nat (sint n mod 2 ^ 32) = unat n" for n :: LONG
  using unat_sint [of "sint n"] by simp

lemma nat_sint_neg: "sint n < 0 \<Longrightarrow> nat (- sint n) = unat (- n)" for n :: LONG
  using unat_sint [of "- sint n"] sint_ge [of n] by simp

text \<open>
  C39: \<open>itoa\<close> writes the text of the number in the given base, with a minus sign only in base
  ten, as a C string of at most 33 bytes at \<open>s\<close>, for every number and every base from 2 to
  36, and changes no byte beyond that string.
\<close>

theorem itoa_writes_number:
  assumes base: "2 \<le> unat base" "unat base \<le> 36"
  shows "\<exists>m'. itoa n s base m = Some m' \<and> cstring_at m' s (itoa_text (unat base) (sint n)) \<and>
    length (itoa_text (unat base) (sint n)) \<le> 32 \<and>
    (\<forall>a. length (itoa_text (unat base) (sint n)) < unat (a - s) \<longrightarrow> m' a = m a)"
proof -
  let ?neg = "base = 10 \<and> sint n < 0" and ?t = "itoa_text (unat base) (sint n)"
  let ?v = "if ?neg then - n else n"
  have ten: "base = 10 \<longleftrightarrow> unat base = 10" by (simp add: word_unat_eq_iff)
  have t: "(if ?neg then [45] else []) @ rev (itoa_digits base ?v) = ?t"
    using itoa_digits_rev [OF base, of ?v]
    by (auto simp: itoa_text_def ten nat_sint_neg nat_sint_mod [simplified])
  have itoa: "itoa n s base m = Some (store_list (?t @ [0]) s m)"
    using base t [symmetric] by (simp add: itoa_def Let_def word_less_nat_alt)
  have digs: "length (digits (unat base) (unat w)) \<le> (if base = 10 then 10 else 32)" for w :: LONG
  proof (cases "base = 10")
    case True
    have "length (digits 10 (unat w)) \<le> 10"
      using unat_bounds(3) [of w] by (intro digits_length_bound) simp_all
    with True show ?thesis by simp
  next
    case False
    have "(2::nat) ^ 32 \<le> unat base ^ 32" using base(1) by (intro power_mono) simp_all
    with unat_bounds(3) [of w] have "unat w < unat base ^ 32" by simp
    with False base(1) show ?thesis by (simp add: digits_length_bound)
  qed
  have len: "length ?t \<le> 32"
    using arg_cong [OF t, of length] digs [of ?v] itoa_digits_rev [OF base, of ?v, THEN arg_cong, of length]
    by (auto split: if_splits)
  have "digit_char d \<noteq> 0" if "d \<in> set (digits b k)" and "2 \<le> b" and "b \<le> 36" for d b k
    using digits_bounded [OF that(2,1)] that(3) by (intro digit_char_nonzero) simp
  with base have "0 \<notin> set ?t"
    by (auto simp: itoa_text_def)
  then have "cstring_at (store_list (?t @ [0]) s m) s ?t"
    using len by (auto simp: cstring_at_def store_list_nth nth_append)
  moreover have "store_list (?t @ [0]) s m a = m a" if "length ?t < unat (a - s)" for a
    using that by (intro store_list_outside) simp
  ultimately show ?thesis using itoa len by blast
qed

theorem itoa_writes_number_witness:
  "\<exists>m'. itoa (- 255) 1000 10 (\<lambda>_. 7) = Some m' \<and> cstring_at m' 1000 (itoa_text 10 (- 255))"
  using itoa_writes_number [of 10 "- 255" 1000 "\<lambda>_. 7"] by auto

text \<open>
  \<open>atoi\<close> returns only for the empty string: on every other string its loop never
  advances the pointer and runs for ever.
\<close>

theorem atoi_returns_iff_empty: "atoi m s = (if m s = 0 then Some 0 else None)"
  by (simp add: atoi_def atoi_loop_None)

text \<open>
  C38: On more than four bytes, \<open>strncmp\<close> gives the difference at the first position where
  the two sequences differ, unless a NUL stands before it in the same aligned word (then
  0), and 0 when they agree.
\<close>

theorem strncmp_compares:
  assumes "4 < L" and "L < 2 ^ 31"
  shows "strncmp m p q (of_nat L) = strncmp_spec m p q L"
  using assms by (rule strncmp_large)

text \<open>Two strings that differ in the second word, one of them ended in the first.\<close>

definition cmp_mem :: memory where
  "cmp_mem a = (if a = 5 then 1 else 0)"

theorem strncmp_compares_witness:
  "strncmp cmp_mem 0 100 (of_nat 8) = strncmp_spec cmp_mem 0 100 8 \<and>
   strncmp_spec cmp_mem 0 100 8 = 0 \<and> strncmp_spec cmp_mem 1 101 8 = 1"
proof -
  have "first_diff cmp_mem 0 100 8 = Some 5" "first_diff cmp_mem 1 101 8 = Some 4"
    by (simp_all add: first_diff_def cmp_mem_def upt_rec)
  moreover have "\<exists>z \<in> {4..<5}. cmp_mem (of_nat z) = 0"
    by (rule bexI [of _ 4]) (simp_all add: cmp_mem_def)
  ultimately show ?thesis
    using strncmp_compares [of 8 cmp_mem 0 100]
    by (simp add: strncmp_spec_def byte_diff_def) (simp add: cmp_mem_def)
qed

text \<open>A comparison of exactly four bytes never looks at them: the result is always 0.\<close>

theorem strncmp_four_bytes: "strncmp m p q 4 = 0"
  by (rule strncmp_four)

text \<open>
  \<open>strncpy\<close> fills exactly \<open>n\<close> bytes of the destination: the source up to its NUL, then
  zeros; no other byte of memory changes. The destination must not start inside the first
  \<open>n\<close> bytes of the source.
\<close>

theorem strncpy_fills:
  assumes "unat n \<le> unat (dest - src)"
  shows "strncpy dest src n m a =
    (if unat (a - dest) < unat n
     then (if \<exists>j \<le> unat (a - dest). m (src + of_nat j) = 0 then 0 else m (src + (a - dest)))
     else m a)"
  unfolding strncpy_def using assms by (rule strncpy_loop_apply)

theorem strncpy_fills_witness:
  "strncpy 100 0 4 (\<lambda>a. if a = 1 then 0 else 65) 103 = 0 \<and>
   strncpy 100 0 4 (\<lambda>a. if a = 1 then 0 else 65) 100 = 65"
proof -
  have "\<exists>j \<le> 3. (if (of_nat j :: LONG) = 1 then 0 else 65) = (0 :: BYTE)" by (rule exI [of _ 1]) simp
  then show ?thesis
    using strncpy_fills [of 4 100 0 "\<lambda>a. if a = 1 then 0 else 65" 103]
      strncpy_fills [of 4 100 0 "\<lambda>a. if a = 1 then 0 else 65" 100]
    by simp
qed

end
