(* ===== verification/Syscall.thy ===== *)
theory Syscall
  imports Kbd Libc
begin

text \<open>
  The system calls, \<^verbatim>\<open>kernel/syscall.c\<close>. The handler gets the
  registers by value: \<open>syscall_body\<close> runs on that copy and ends with it, \<open>syscall_handler\<close> drops
  it as the C function does.
\<close>

section \<open>The handler\<close>

text \<open>
  The C string at an address: a loop that reads up to the NUL. Printing does not write
  memory, so the string can be read before it is printed.
\<close>

definition cstr :: "memory \<Rightarrow> LONG \<Rightarrow> BYTE list option" where
  "cstr m p = do { q \<leftarrow> nul_at m p; Some (map (\<lambda>i. m (p + of_nat i)) [0..<unat (q - p)]) }"

definition flag_bit :: "nat \<Rightarrow> bool \<Rightarrow> LONG" where
  "flag_bit n b = push_bit n (of_bool b)"

text \<open>The two bytes of an event read as one little-endian word; its flags alone.\<close>

definition event_word :: "kbd_event \<Rightarrow> LONG" where
  "event_word k = ucast (keycode k) OR flag_bit 8 (release k) OR flag_bit 9 (ev_ctrl k) OR
     flag_bit 10 (ev_alt k) OR flag_bit 11 (ev_shift k) OR flag_bit 12 (special k)"

definition event_flags :: "kbd_event \<Rightarrow> LONG" where
  "event_flags k = flag_bit 0 (release k) OR flag_bit 1 (ev_ctrl k) OR flag_bit 2 (ev_alt k) OR
     flag_bit 3 (ev_shift k) OR flag_bit 4 (special k)"

fun sys_write_loop :: "nat \<Rightarrow> LONG \<Rightarrow> 'a kbd_scheme \<Rightarrow> 'a kbd_scheme option" where
  "sys_write_loop 0 p s = Some s"
| "sys_write_loop (Suc c) p s = do { s \<leftarrow> put (mem s p) s; sys_write_loop c (p + 1) s }"

definition syscall_body :: "regs \<Rightarrow> 'a kbd_scheme \<Rightarrow> (regs \<times> 'a kbd_scheme) option" where
  "syscall_body r s =
     (if eax r = 0 then do {
        e \<leftarrow> cstr (mem s) (ebx r);
        s \<leftarrow> puts_int e s;
        Some (r, s)
      }
      else if eax r = 1 then Some (r, clear s)
      else if eax r = 2 then
        (if kbd_avail s then do {
           (k, s) \<leftarrow> kbd_pop s;
           Some (r\<lparr>ebx := event_word k\<rparr>, s)
         }
         else Some (r\<lparr>ebx := 0xffff\<rparr>, s))
      else if eax r = 3 then do {
        s \<leftarrow> spin (\<lambda>s. Some (\<not> kbd_avail s, s)) s;
        s \<leftarrow> put 75 s;
        (k, s) \<leftarrow> kbd_pop s;
        Some (r\<lparr>ebx := ucast (keycode k), ecx := event_flags k\<rparr>, s)
      }
      else if eax r = 260 then do {
        s \<leftarrow> sys_write_loop (unat (edx r)) (ecx r) s;
        Some (r\<lparr>eax := edx r\<rparr>, s)
      }
      else Some (r, s))"

definition syscall_handler :: "regs \<Rightarrow> 'a kbd_scheme \<Rightarrow> 'a kbd_scheme option" where
  "syscall_handler r s = do { (r, s) \<leftarrow> syscall_body r s; Some s }"

definition syscall_setup :: "'a interrupts_scheme \<Rightarrow> 'a interrupts_scheme" where
  "syscall_setup s = int_regh 127 (Some syscall_handler_ptr) s"

section \<open>Strings and events\<close>

lemma cstr_at:
  assumes "cstring_at m p cs" and "length cs < 2 ^ 32"
  shows "cstr m p = Some cs"
proof -
  have "nul_at m p = Some (p + of_nat (length cs))"
  proof (rule nul_at_find)
    show "m (p + of_nat (length cs)) = 0" using assms(1) by (simp add: cstring_at_def)
    show "m (p + of_nat i) \<noteq> 0" if "i < length cs" for i
      using assms(1) that unfolding cstring_at_def by (metis nth_mem)
  qed
  moreover have "unat (of_nat (length cs) :: LONG) = length cs"
    using assms(2) by (simp add: unat_of_nat_small)
  moreover have "map (\<lambda>i. m (p + of_nat i)) [0..<length cs] = cs"
    using assms(1) by (intro nth_equalityI) (auto simp: cstring_at_def)
  ultimately show ?thesis by (simp add: cstr_def)
qed

lemma bit_flag_bit: "bit (flag_bit n b) i \<longleftrightarrow> b \<and> i = n \<and> i < 32"
  by (cases b) (auto simp: flag_bit_def bit_simps)

text \<open>No information of an event is lost in the word, and it is never the value for no event.\<close>

lemma event_word_bits:
  "ucast (event_word k) = keycode k" "bit (event_word k) 8 = release k"
  "bit (event_word k) 9 = ev_ctrl k" "bit (event_word k) 10 = ev_alt k"
  "bit (event_word k) 11 = ev_shift k" "bit (event_word k) 12 = special k"
  "\<not> bit (event_word k) 13"
proof -
  show "ucast (event_word k) = keycode k"
    by (rule bit_word_eqI) (auto simp: event_word_def bit_simps bit_flag_bit)
qed (auto simp: event_word_def bit_simps bit_flag_bit dest: bit_imp_le_length)

lemma event_word_inj: "event_word k = event_word k' \<Longrightarrow> k = k'"
  by (metis (full_types) event_word_bits kbd_event.equality old.unit.exhaust)

lemma event_word_some: "event_word k \<noteq> 0xffff"
proof
  assume "event_word k = 0xffff"
  with event_word_bits(7) [of k] have "\<not> bit (0xffff :: LONG) 13" by simp
  then show False by (simp add: bit_iff_odd drop_bit_eq_div)
qed

lemma sys_write_loop_eq:
  "sys_write_loop n p s = put_all (map (\<lambda>i. mem s (p + of_nat i)) [0..<n]) s"
proof (induction n arbitrary: p s)
  case (Suc n)
  have "map (\<lambda>i. mem s (p + of_nat i)) [0..<Suc n] =
      mem s p # map (\<lambda>i. mem s (p + 1 + of_nat i)) [0..<n]"
    by (subst upt_conv_Cons) (simp_all add: map_Suc_upt [symmetric] add.assoc del: upt_Suc)
  then show ?case
    by (auto simp: Suc.IH bind_eq_Some_conv intro!: Option.bind_cong dest: put_printed simp: printed_def)
qed simp

lemma printed_kbd:
  "printed s t \<Longrightarrow> kbd_ok t = kbd_ok s \<and> kbd_events t = kbd_events s \<and> kbd_avail t = kbd_avail s"
  by (auto simp: kbd_ok_def kbd_events_def kbd_avail_def elim!: printedE)

section \<open>The properties of the system calls\<close>

text \<open>The examples use a kernel with one event waiting and a string in memory.\<close>

definition sys0 :: kbd where
  "sys0 = kbd0\<lparr>mem := \<lambda>a. if a = 0x2000 then 72 else if a = 0x2001 then 105 else 0\<rparr>"

lemma sys0_ok: "tty_ready sys0" "text_ok sys0" "kbd_ok sys0" "kbd_events sys0 = []"
    "cstring_at (mem sys0) 0x2000 [72, 105]"
  by (simp_all add: sys0_def kbd0_def int0_def interrupts.defs tty_ready_def text_ok_def kbd_ok_def
      kbd_events_def cstring_at_def nth_Cons' less_Suc_eq)

text \<open>
  C29: System call 0 prints the C string that \<open>ebx\<close> points to, and system call 260 the \<open>edx\<close>
  bytes that \<open>ecx\<close> points to: on a ready console both return, with the screen changed by
  exactly these characters.
\<close>

theorem syscall_print:
  assumes "tty_ready s" and "text_ok s"
    and "if eax r = 0 then cstring_at (mem s) (ebx r) out \<and> length out < 2 ^ 32
      else eax r = 260 \<and> out = map (\<lambda>i. mem s (ecx r + of_nat i)) [0..<unat (edx r)]"
  shows "\<exists>t. syscall_handler r s = Some t \<and> text_ok t \<and> printed s t \<and>
    screen_of t = fold (screen_put (bg s) (fg s)) out (screen_of s)"
proof (cases "eax r = 0")
  case True
  obtain t where "puts_int out s = Some t" using puts_int_returns assms(1) by blast
  then show ?thesis
    using assms True scr.puts_int_shown [of s "bg s" "fg s" out t] puts_int_printed
    by (auto simp: syscall_handler_def syscall_body_def cstr_at)
next
  case False
  obtain t where "put_all out s = Some t" using put_all_returns assms(1) by blast
  then show ?thesis
    using assms False scr.put_all_shown [of s "bg s" "fg s" out t] put_all_printed
    by (auto simp: syscall_handler_def syscall_body_def sys_write_loop_eq)
qed

theorem syscall_print_witness:
  "\<exists>t. syscall_handler (regs_int 127\<lparr>ebx := 0x2000\<rparr>) sys0 = Some t \<and>
     screen_of t = fold (screen_put (bg sys0) (fg sys0)) [72, 105] (screen_of sys0)"
  using syscall_print [OF sys0_ok(1,2), of "regs_int 127\<lparr>ebx := 0x2000\<rparr>" "[72, 105]"] sys0_ok(5)
  by (auto simp: regs_int_def)



text \<open>
  C31: System call 3 returns exactly when an event waits already: with an empty buffer it
  waits for one in a loop that no interrupt can end, since the gate of the system call
  disables interrupts. The console is ready: the call prints a letter before it returns.
\<close>

theorem syscall_blocking_read:
  assumes "kbd_ok s" and "tty_ready s" and "eax r = 3"
  shows "(\<exists>t. syscall_handler r s = Some t) \<longleftrightarrow> kbd_events s \<noteq> []"
proof (cases "kbd_events s")
  case Nil
  then have "\<not> kbd_avail s" using kbdq.avail_iff [OF assms(1)] by simp
  then have "spin (\<lambda>s. Some (\<not> kbd_avail s, s)) s = None"
    by (intro spin_forever [where P = "\<lambda>u. u = s"]) simp_all
  with assms Nil show ?thesis by (simp add: syscall_handler_def syscall_body_def)
next
  case (Cons e es)
  then have "kbd_avail s" using kbdq.avail_iff [OF assms(1)] by simp
  then have spin: "spin (\<lambda>s. Some (\<not> kbd_avail s, s)) s = Some s"
    by (intro spin_stop) simp
  obtain t where t: "put 75 s = Some t" using put_returns assms(2) by blast
  with printed_kbd [OF put_printed [OF t]] assms(1) Cons obtain u where "kbd_pop t = Some (e, u)"
    using kbdq.pop_events [of t e es] by auto
  with spin t assms(3) Cons show ?thesis by (simp add: syscall_handler_def syscall_body_def)
qed

theorem syscall_blocking_read_witness:
  "syscall_handler (regs_int 127\<lparr>eax := 3\<rparr>) sys0 = None"
  using syscall_blocking_read [OF sys0_ok(3,1), of "regs_int 127\<lparr>eax := 3\<rparr>"] sys0_ok(4)
  by (cases "syscall_handler (regs_int 127\<lparr>eax := 3\<rparr>) sys0") (auto simp: regs_int_def)

end
