(* ===== verification/Kernel.thy ===== *)
theory Kernel
  imports Ethernet Syscall
begin

text \<open>
  The kernel while it serves interrupts. A call through a handler pointer is \<open>call_isr\<close>, which
  closes the dispatchers of \<^verbatim>\<open>kernel/int.c\<close> over the handlers that the components register.
  A step of the kernel is one interrupt through a gate that \<open>idt_setup\<close> installs.
\<close>

section \<open>Calls through handler pointers\<close>

text \<open>
  The driver \<^verbatim>\<open>dev/e1000.c\<close> is not in the table of PCI drivers, so its handler is never registered;
  the invariant below excludes it. Its own theory models it with the state that it needs.
\<close>

fun call_pci_isr :: "pci_isr \<Rightarrow> regs \<Rightarrow> LONG \<Rightarrow> 'a ide_scheme \<Rightarrow> 'a ide_scheme option" where
  "call_pci_isr ide_handle_int_ptr r dev_id s = ide_handle_int r dev_id s"
| "call_pci_isr e1000_handler_ptr r dev_id s = None"

fun call_isr :: "isr \<Rightarrow> regs \<Rightarrow> 'a ide_scheme \<Rightarrow> 'a ide_scheme option" where
  "call_isr timer_handler_ptr r s = Some (timer_handler r s)"
| "call_isr kbd_interrupt_ptr r s = kbd_interrupt r s"
| "call_isr syscall_handler_ptr r s = syscall_handler r s"
| "call_isr pci_irq_handler_ptr r s = pci_irq_handler call_pci_isr r s"
| "call_isr ide_handle_irq_ptr r s = ide_handle_irq r s"

text \<open>
  The steps: the sixteen hardware interrupts, the processor's exceptions and the system call.
\<close>

inductive kernel_step :: "'a ide_scheme \<Rightarrow> 'a ide_scheme \<Rightarrow> bool" where
  irq: "32 \<le> int_no r \<Longrightarrow> int_no r < 48 \<Longrightarrow> irq_handler call_isr r s = Some t \<Longrightarrow> kernel_step s t"
| exception: "int_no r < 32 \<Longrightarrow> isr_handler call_isr r s = Some t \<Longrightarrow> kernel_step s t"
| syscall: "int_no r = 127 \<Longrightarrow> isr_handler call_isr r s = Some t \<Longrightarrow> kernel_step s t"

inductive_cases kernel_stepE: "kernel_step s t"

section \<open>The invariant\<close>

text \<open>Every entry of the table of PCI interrupts that is in use has the handler of the one driver.\<close>

definition pci_handlers_ok :: "'a pci_scheme \<Rightarrow> bool" where
  "pci_handlers_ok s \<longleftrightarrow> (\<forall>e \<in> set (pci_int_entries s). ie_dev e \<noteq> 0 \<longrightarrow> ie_handler e = Some ide_handle_int_ptr)"

definition kernel_ok :: "'a ide_scheme \<Rightarrow> bool" where
  "kernel_ok s \<longleftrightarrow> tty_ready s \<and> text_ok s \<and> int_ok s \<and> timer_ok s \<and> kbd_ok s \<and> pci_ok s \<and>
     pci_handlers_ok s"

lemmas kernel_ok_defs = kernel_ok_def tty_ready_def text_ok_def int_ok_def timer_ok_def kbd_ok_def
  pci_ok_def pci_handlers_ok_def

lemma kernel_ok_log [simp]: "kernel_ok (s\<lparr>io_log := l\<rparr>) = kernel_ok s"
  by (simp add: kernel_ok_defs)

lemma kernel_ok_tty: "tty_step s t \<Longrightarrow> kernel_ok s \<Longrightarrow> kernel_ok t \<and> int_handlers t = int_handlers s \<and> ticks2 t = ticks2 s"
  by (auto simp: tty_step_def kernel_ok_def int_ok_def timer_ok_def kbd_ok_def pci_ok_def
      pci_handlers_ok_def elim!: printedE)

text \<open>What every handler keeps: the invariant and the table of handlers.\<close>

definition kept :: "'a ide_scheme \<Rightarrow> 'a ide_scheme \<Rightarrow> bool" where
  "kept s t \<longleftrightarrow> kernel_ok t \<and> int_handlers t = int_handlers s"

lemma kept_tty: "kept s0 s \<Longrightarrow> tty_step s t \<Longrightarrow> kept s0 t"
  using kernel_ok_tty by (auto simp: kept_def)

lemma kept_ready: "kept s0 s \<Longrightarrow> tty_step s s"
  by (simp add: kept_def kernel_ok_def tty_step_refl)

lemma kept_refl: "kernel_ok s \<Longrightarrow> kept s s"
  by (simp add: kept_def)

lemma kept_puts: "kept s0 s \<Longrightarrow> (\<And>t. kept s0 t \<Longrightarrow> Q t) \<Longrightarrow> returns (puts cs s) Q"
  by (rule puts_wp [OF kept_ready], assumption) (blast intro: kept_tty)

lemma kept_puts_int: "kept s0 s \<Longrightarrow> (\<And>t. kept s0 t \<Longrightarrow> Q t) \<Longrightarrow> returns (puts_int cs s) Q"
  by (rule puts_int_wp [OF kept_ready], assumption) (blast intro: kept_tty)

lemma kept_put_all: "kept s0 s \<Longrightarrow> (\<And>t. kept s0 t \<Longrightarrow> Q t) \<Longrightarrow> returns (put_all cs s) Q"
  by (rule put_all_wp [OF kept_ready], assumption) (blast intro: kept_tty)

section \<open>The handlers\<close>

lemma timer_kept: "kernel_ok s \<Longrightarrow> kept s (timer_handler r s)"
proof -
  assume s: "kernel_ok s"
  have "timer_ok (timer_handler r s)" using s by (auto simp: kernel_ok_def intro: timer_handler_ok)
  moreover have "\<exists>a b c. timer_handler r s = s\<lparr>ticks := a, ticks2 := b, seconds := c\<rparr>"
  proof (cases "ticks s + 1 = 100")
    case True
    then show ?thesis
      by (intro exI [of _ 0] exI [of _ "ticks2 s + 1"] exI [of _ "seconds s + 1"]) (simp add: timer_handler_def)
  next
    case False
    then show ?thesis
      by (intro exI [of _ "ticks s + 1"] exI [of _ "ticks2 s + 1"] exI [of _ "seconds s"]) (simp add: timer_handler_def)
  qed
  then obtain a b c where "timer_handler r s = s\<lparr>ticks := a, ticks2 := b, seconds := c\<rparr>" by blast
  ultimately show ?thesis
    using s by (simp add: kept_def kernel_ok_def tty_ready_def text_ok_def int_ok_def kbd_ok_def pci_ok_def
        pci_handlers_ok_def)
qed

text \<open>The keyboard handler changes the log and its own variables only.\<close>

lemma kbd_key_frame:
  "kbd_key spec c s = Some t \<Longrightarrow>
     t = s\<lparr>kbd_stack := kbd_stack t, kbd_stack_sp := kbd_stack_sp t, ctrl := ctrl t, alt := alt t, shift := shift t\<rparr>"
  by (auto simp: kbd_key_def kbd_push_def Let_def split: if_splits)

lemma kbd_interrupt_key:
  "\<exists>l. kbd_interrupt r s = Some (s\<lparr>io_log := l\<rparr>) \<or> (\<exists>spec c. kbd_interrupt r s = kbd_key spec c (s\<lparr>io_log := l\<rparr>))"
  by (auto simp: kbd_interrupt_def frames Let_def)

lemma kbd_kept: "kernel_ok s \<Longrightarrow> returns (kbd_interrupt r s) (kept s)"
proof -
  assume s: "kernel_ok s"
  have key: "returns (kbd_key spec c (s\<lparr>io_log := l\<rparr>)) (kept s)" for spec c l
  proof -
    have "kbd_ok (s\<lparr>io_log := l\<rparr>)" using s by (simp add: kernel_ok_def)
    then obtain t where t: "kbd_key spec c (s\<lparr>io_log := l\<rparr>) = Some t" "kbd_ok t"
      using kbd_key_events by blast
    have "kept s t"
      using s t(2) by (subst kbd_key_frame [OF t(1)]) (auto simp: kept_def kernel_ok_defs)
    with t(1) show ?thesis by simp
  qed
  obtain l where "kbd_interrupt r s = Some (s\<lparr>io_log := l\<rparr>) \<or>
      (\<exists>spec c. kbd_interrupt r s = kbd_key spec c (s\<lparr>io_log := l\<rparr>))"
    using kbd_interrupt_key [of r s] by blast
  with key s show ?thesis by (auto simp: kept_def)
qed

lemma ide_handle_int_kept: "kept s0 s \<Longrightarrow> (\<And>t. kept s0 t \<Longrightarrow> Q t) \<Longrightarrow> returns (ide_handle_int r d s) Q"
  by (simp add: ide_handle_int_def kept_puts del: str_simps)

lemma pci_irq_loop_kept:
  "kept s0 s \<Longrightarrow> i + n \<le> 256 \<Longrightarrow> returns (pci_irq_loop call_pci_isr r n i s) (kept s0)"
proof (induction n arbitrary: i s)
  case (Suc n)
  define e where "e = pci_int_entries s ! i"
  have i: "i < length (pci_int_entries s)" using Suc.prems by (simp add: kept_def kernel_ok_def pci_ok_def)
  then have e: "e \<in> set (pci_int_entries s)" by (simp add: e_def)
  show ?case
  proof (cases "ie_dev e = 0")
    case True
    then show ?thesis using i Suc.IH [of s "i + 1"] Suc.prems by (simp add: e_def)
  next
    case False
    with e Suc.prems(1) have h: "ie_handler e = Some ide_handle_int_ptr"
      by (auto simp: kept_def kernel_ok_def pci_handlers_ok_def)
    show ?thesis
      using i False h Suc.prems(2)
      by (auto simp: e_def intro!: ide_handle_int_kept [OF Suc.prems(1)] Suc.IH)
  qed
qed simp

lemma pci_kept: "kernel_ok s \<Longrightarrow> returns (pci_irq_handler call_pci_isr r s) (kept s)"
  unfolding pci_irq_handler_def returns_bind
  by (rule kept_puts [OF kept_refl], assumption) (simp add: pci_irq_loop_kept)

lemma ide_kept: "kernel_ok s \<Longrightarrow> returns (ide_handle_irq r s) (kept s)"
  by (simp add: ide_handle_irq_def ide_handle_int_kept [OF kept_refl])

text \<open>The handlers of hardware interrupts return, and keep the invariant.\<close>

lemma call_isr_kept: "kernel_ok s \<Longrightarrow> h \<noteq> syscall_handler_ptr \<Longrightarrow> returns (call_isr h r s) (kept s)"
  by (cases h) (simp_all add: timer_kept kbd_kept pci_kept ide_kept)

text \<open>A system call keeps the invariant if it returns.\<close>

lemma kept_pop: "kept s0 s \<Longrightarrow> kbd_avail s \<Longrightarrow> kbd_pop s = Some (k, t) \<Longrightarrow> kept s0 t"
  by (auto simp: kbd_pop_def kbd_avail_def kept_def kernel_ok_defs split: if_splits)

lemma kept_clear: "kept s0 s \<Longrightarrow> kept s0 (clear s)"
  by (auto simp: clear_def upd_cur_def kept_def kernel_ok_defs frames Let_def)

lemma returns_keeps: "returns m P \<Longrightarrow> m = Some x \<Longrightarrow> P x"
  by (simp add: returns_def)

lemma syscall_kept: "kernel_ok s \<Longrightarrow> syscall_handler r s = Some t \<Longrightarrow> kept s t"
proof -
  assume s: "kernel_ok s" and t: "syscall_handler r s = Some t"
  note k = kept_refl [OF s]
  have puts: "puts_int cs s = Some u \<Longrightarrow> kept s u" for cs u
    by (rule returns_keeps [OF kept_puts_int [OF k]])
  have "put_all cs s = Some u \<Longrightarrow> kept s u" for cs u
    by (rule returns_keeps [OF kept_put_all [OF k]])
  then have wr: "sys_write_loop n p s = Some u \<Longrightarrow> kept s u" for n p u
    by (simp add: sys_write_loop_eq)
  have block: "kept s v" if "spin (\<lambda>s. Some (\<not> kbd_avail s, s)) s = Some u" and "put 75 u = Some w" and
      "kbd_pop w = Some (e, v)" for u w e v
  proof -
    have "kept s u \<and> kbd_avail u"
      using spin_inv [OF that(1), of "kept s"] k spin_last [OF that(1)] by auto
    moreover have "kept s w \<and> kbd_avail w"
      using returns_keeps [OF put_wp [OF kept_ready, of s u "\<lambda>t. tty_step u t"]] that(2) calculation
      by (auto intro: kept_tty simp: tty_step_def dest: printed_kbd)
    ultimately show ?thesis using kept_pop that(3) by blast
  qed
  show ?thesis
    using t k puts wr block kept_clear [OF k] kept_pop [OF k]
    by (auto simp: syscall_handler_def syscall_body_def bind_eq_Some_conv split: if_splits)
qed

lemma call_isr_keeps: "kernel_ok s \<Longrightarrow> call_isr h r s = Some t \<Longrightarrow> kept s t"
proof (cases "h = syscall_handler_ptr")
  case True
  assume "kernel_ok s" and "call_isr h r s = Some t"
  then show ?thesis using True by (auto simp: bind_eq_Some_conv intro: syscall_kept)
next
  case False
  assume "kernel_ok s" and "call_isr h r s = Some t"
  then show ?thesis by (intro returns_keeps [OF call_isr_kept [OF _ False]])
qed

lemma kernel_step_kept:
  assumes "kernel_step s t" and ok: "kernel_ok s"
  shows "kept s t"
proof -
  have len: "length (int_handlers s) = 256" using ok by (simp add: kernel_ok_def int_ok_def)
  have case_kept: "(case int_handlers s ! n of Some h \<Rightarrow> call_isr h r s | None \<Rightarrow> Some s) = Some u \<Longrightarrow> kept s u" for n r u
    using ok call_isr_keeps kept_refl by (auto split: option.splits)
  from assms(1) show ?thesis
  proof cases
    case (irq r)
    then have "unat (int_no r) < length (int_handlers s)" using len by (simp add: word_less_nat_alt)
    with irq(3) case_kept show ?thesis
      by (fastforce simp: irq_handler_eq bind_eq_Some_conv kept_def)
  next
    case (exception r)
    then have "unat (int_no r) < 256" by (simp add: word_less_nat_alt)
    with exception(2) len case_kept show ?thesis by (simp add: isr_handler_eq)
  next
    case (syscall r)
    with len case_kept show ?thesis by (simp add: isr_handler_eq)
  qed
qed

section \<open>The properties of the kernel\<close>

text \<open>A kernel with the handlers of the timer and the keyboard, for the examples.\<close>

definition ker0 :: ide where
  "ker0 = ide0\<lparr>int_handlers := (replicate 256 None)[32 := Some timer_handler_ptr, 33 := Some kbd_interrupt_ptr,
     127 := Some syscall_handler_ptr], ticks := 1, ticks2 := 1\<rparr>"

lemma ker0_ok: "kernel_ok ker0" "int_handlers ker0 ! 32 = Some timer_handler_ptr"
  by (simp_all add: ker0_def ide0_def pci.defs pci0_def kbd.defs kbd0_def int0_def interrupts.defs
      kernel_ok_defs pci_int_entry_zero_def)

text \<open>
  C3: Whatever sequence of hardware interrupts, exceptions and system calls the kernel serves,
  the invariant of its state holds: the cursor is on the screen, the stack of key events is
  inside its array, a hundred ticks make a second, every table keeps its size and every PCI
  interrupt in use its handler. No handler is ever replaced.
\<close>

theorem kernel_reachable_ok:
  assumes "kernel_step\<^sup>*\<^sup>* s t" and "kernel_ok s"
  shows "kernel_ok t \<and> int_handlers t = int_handlers s"
  using assms
proof (induction rule: rtranclp_induct)
  case (step u v)
  then show ?case using kernel_step_kept [of u v] by (simp add: kept_def)
qed simp

theorem kernel_reachable_ok_witness:
  "\<exists>t. kernel_step\<^sup>*\<^sup>* ker0 t \<and> ticks2 t = 2 \<and> kernel_ok t"
proof -
  have len: "unat (int_no (regs_int 32)) < length (int_handlers ker0)"
    using ker0_ok(1) by (simp add: kernel_ok_def int_ok_def regs_int_def)
  obtain t where t: "irq_handler call_isr (regs_int 32) ker0 = Some t" "ticks2 t = 2"
    using ker0_ok(2) by (simp add: irq_handler_eq [OF len]) (simp add: regs_int_def ker0_def)
  then have "kernel_step ker0 t" by (intro kernel_step.irq [of "regs_int 32"]) (simp_all add: regs_int_def)
  then have "kernel_step\<^sup>*\<^sup>* ker0 t" by blast
  with kernel_reachable_ok [OF this ker0_ok(1)] t(2) show ?thesis by blast
qed



section \<open>Sleeping\<close>

text \<open>While the kernel sleeps, the timer interrupts it.\<close>

definition timer_irq :: "'a ide_scheme \<Rightarrow> 'a ide_scheme option" where
  "timer_irq s = irq_handler call_isr (regs_int 32) s"

definition timer_on :: "'a ide_scheme \<Rightarrow> bool" where
  "timer_on s \<longleftrightarrow> kernel_ok s \<and> int_handlers s ! 32 = Some timer_handler_ptr"

interpretation pit: clock timer_irq timer_on
proof
  fix s :: "'a ide_scheme"
  assume s: "timer_on s"
  then have len: "unat (int_no (regs_int 32)) < length (int_handlers s)"
    by (simp add: timer_on_def kernel_ok_def int_ok_def regs_int_def)
  have n: "unat (int_no (regs_int 32)) = 32" by (simp add: regs_int_def)
  have "timer_irq s = Some ((timer_handler (regs_int 32) s)\<lparr>io_log :=
      rev (eoi (int_no (regs_int 32))) @ io_log (timer_handler (regs_int 32) s)\<rparr>)"
    using s unfolding timer_irq_def irq_handler_eq [OF len] n by (simp add: timer_on_def)
  moreover have "kept s (timer_handler (regs_int 32) s)" using s by (auto simp: timer_on_def intro: timer_kept)
  ultimately show "\<exists>t. timer_irq s = Some t \<and> timer_on t \<and> ticks2 t = ticks2 s + 1"
    using s by (simp add: kept_def timer_on_def)
qed

text \<open>
  C5: Once the timer has ticked, a sleep ends after exactly the requested number of ticks, for
  every request that does not wrap the counter around; it returns at once otherwise, and also
  before the first tick. The kernel's invariant holds when it returns.
\<close>

theorem sleep_wakes:
  assumes "kernel_ok s" and "int_handlers s ! 32 = Some timer_handler_ptr"
  shows "\<exists>t. sleep timer_irq n s = Some t \<and> kernel_ok t \<and>
    ticks2 t = (if ticks2 s \<noteq> 0 \<and> ticks2 s < ticks2 s + n then ticks2 s + n else ticks2 s)"
  using pit.sleep_returns [of s n] assms by (auto simp: timer_on_def)

theorem sleep_wakes_witness:
  "\<exists>t. sleep timer_irq 10 ker0 = Some t \<and> ticks2 t = 11"
  using sleep_wakes [OF ker0_ok, of 10] by (auto simp: ker0_def)

end
