(* ===== verification/Network.thy ===== *)
theory Network
  imports Ethernet Libc
begin

text \<open>
  The network interfaces, \<^verbatim>\<open>net/network.c\<close>. The interface table is the field \<open>net_ifs\<close>
  and a pointer into it an index. The addresses of an interface are a linked list of nodes
  from \<open>malloc\<close>; the nodes are the field \<open>net_addrs\<close>, a map from their addresses, and a link is
  such an address or 0. A call through a function pointer of an Ethernet device is the
  argument \<open>call\<close>, given the pointer and the index of the device; \<open>irqs\<close> are the interrupts
  taken while the kernel sleeps.
\<close>

section \<open>Data\<close>

definition NET_MAX_IFS :: nat where "NET_MAX_IFS = 16"
definition NET_ADDR_IPV6 :: LONG where "NET_ADDR_IPV6 = 1"
definition NET_ADDR_IPV6_UNI :: LONG where "NET_ADDR_IPV6_UNI = 0"
definition NET_ADDR_IPV6_LOCAL :: LONG where "NET_ADDR_IPV6_LOCAL = 1"
definition NET_ADDR_IPV6_LOOP :: LONG where "NET_ADDR_IPV6_LOOP = 2"
definition NET_IF_ETHERNET :: LONG where "NET_IF_ETHERNET = 1"
definition NET_IF_VSWITCH :: LONG where "NET_IF_VSWITCH = 2"
definition NET_IF_LOOPBACK :: LONG where "NET_IF_LOOPBACK = 3"
definition NET_IF_STA_UP :: LONG where "NET_IF_STA_UP = push_bit 0 1"
definition NET_IF_STA_BROADCAST :: LONG where "NET_IF_STA_BROADCAST = push_bit 1 1"
definition NET_IF_STA_MULTICAST :: LONG where "NET_IF_STA_MULTICAST = push_bit 2 1"
definition NET_IF_STA_PROMISC :: LONG where "NET_IF_STA_PROMISC = push_bit 3 1"
definition NET_IF_STA_SLAVE :: LONG where "NET_IF_STA_SLAVE = push_bit 4 1"
definition NET_IF_STA_LOWER_UP :: LONG where "NET_IF_STA_LOWER_UP = push_bit 5 1"

record netdev_addr =
  addrtype :: LONG
  na_addr :: "BYTE list"
  na_mask :: "BYTE list"
  na_attr :: LONG
  na_next :: LONG

record netdev =
  nd_allocated :: LONG
  nd_name :: "BYTE list"
  nd_up :: LONG
  iftype :: LONG
  addresses :: LONG
  physical :: "nat option"
  nd_master :: LONG

definition netdev_zero :: netdev where
  "netdev_zero = \<lparr>nd_allocated = 0, nd_name = replicate 32 0, nd_up = 0, iftype = 0, addresses = 0,
     physical = None, nd_master = 0\<rparr>"

definition netdev_addr_zero :: netdev_addr where
  "netdev_addr_zero = \<lparr>addrtype = 0, na_addr = replicate 16 0, na_mask = replicate 16 0, na_attr = 0,
     na_next = 0\<rparr>"

definition sizeof_netdev :: LONG where "sizeof_netdev = 56"
definition sizeof_netdev_addr :: LONG where "sizeof_netdev_addr = 44"

record network = ethernet +
  net_ifs :: "netdev list"
  net_ifs_at :: LONG
  net_addrs :: "LONG \<Rightarrow> netdev_addr option"
  network__disable :: LONG

text \<open>The element that a pointer into a table selects; outside the table there is no continuation.\<close>

definition at :: "'a list \<Rightarrow> nat \<Rightarrow> 'a option" where
  "at xs i = (if i < length xs then Some (xs ! i) else None)"

section \<open>Interfaces and addresses\<close>

definition network_disable :: "'a network_scheme \<Rightarrow> 'a network_scheme" where
  "network_disable s = s\<lparr>network__disable := 1\<rparr>"

definition netdev_allocate :: "'a network_scheme \<Rightarrow> nat option \<times> 'a network_scheme" where
  "netdev_allocate s =
     (case first_free (\<lambda>d. nd_allocated d = 0) (net_ifs s) of
        Some i \<Rightarrow>
          (let d = (net_ifs s ! i)\<lparr>nd_allocated := 1\<rparr>
           in (Some i, s\<lparr>net_ifs := (net_ifs s)[i := d]\<rparr>))
      | None \<Rightarrow> (None, s))"

definition upd_netdev :: "nat \<Rightarrow> (netdev \<Rightarrow> netdev) \<Rightarrow> 'a network_scheme \<Rightarrow> 'a network_scheme option" where
  "upd_netdev i f s = do { d \<leftarrow> at (net_ifs s) i; Some (s\<lparr>net_ifs := (net_ifs s)[i := f d]\<rparr>) }"

definition netdev_set :: "nat \<Rightarrow> LONG \<Rightarrow> 'a network_scheme \<Rightarrow> (LONG \<times> 'a network_scheme) option" where
  "netdev_set i state s = do {
     s \<leftarrow> upd_netdev i (\<lambda>d. d\<lparr>nd_up := state\<rparr>) s;
     d \<leftarrow> at (net_ifs s) i;
     Some (nd_up d, s)
   }"

text \<open>
  The mask of a prefix: the whole bytes, then the rest. A prefix of more than 128 bits
  writes outside the array.
\<close>

definition prefix_mask :: "LONG \<Rightarrow> BYTE list option" where
  "prefix_mask prefix =
     (let fb = prefix div 8;
          rb = prefix - fb * 8
      in if unat fb > 16 \<or> rb \<noteq> 0 \<and> unat fb \<ge> 16 then None
         else
           (let mask = fold (\<lambda>i m. m[i := 0xff]) [0..<unat fb] (replicate 16 0)
            in Some (if rb \<noteq> 0 then mask[unat fb := ucast ((push_bit (8 - unat rb) 1 :: LONG) - 1)]
                     else mask)))"

partial_function (option) last_addr :: "(LONG \<Rightarrow> netdev_addr option) \<Rightarrow> LONG \<Rightarrow> LONG option" where
  "last_addr h p = do {
     n \<leftarrow> h p;
     if na_next n \<noteq> 0 then last_addr h (na_next n) else Some p
   }"

definition netdev_add_ip6_address :: "nat \<Rightarrow> BYTE list \<Rightarrow> LONG \<Rightarrow> LONG \<Rightarrow> 'a network_scheme \<Rightarrow>
    (LONG \<times> 'a network_scheme) option" where
  "netdev_add_ip6_address i address prefix atr s = do {
     let (a, s) = malloc sizeof_netdev_addr s;
     mask \<leftarrow> prefix_mask prefix;
     let n = netdev_addr_zero\<lparr>na_addr := address, na_mask := mask, addrtype := NET_ADDR_IPV6,
               na_attr := atr\<rparr>;
     let s = s\<lparr>net_addrs := (net_addrs s)(a \<mapsto> n)\<rparr>;
     d \<leftarrow> at (net_ifs s) i;
     if addresses d \<noteq> 0 then do {
       p \<leftarrow> last_addr (net_addrs s) (addresses d);
       l \<leftarrow> net_addrs s p;
       Some (a, s\<lparr>net_addrs := (net_addrs s)(p \<mapsto> l\<lparr>na_next := a\<rparr>)\<rparr>)
     }
     else do {
       s \<leftarrow> upd_netdev i (\<lambda>d. d\<lparr>addresses := a\<rparr>) s;
       Some (a, s)
     }
   }"

definition netdev_add_linklocal :: "nat \<Rightarrow> 'a network_scheme \<Rightarrow> 'a network_scheme option" where
  "netdev_add_linklocal i s = do {
     d \<leftarrow> at (net_ifs s) i;
     k \<leftarrow> physical d;
     e \<leftarrow> at (eth_ifs s) k;
     let b = eth_addr e;
     let addr = (replicate 16 0)[0 := 0x80, 1 := 0xfe, 10 := b ! 1, 11 := b ! 0, 12 := b ! 3,
                  13 := b ! 2, 14 := b ! 5, 15 := b ! 4];
     (p, s) \<leftarrow> netdev_add_ip6_address i addr 64 NET_ADDR_IPV6_LOCAL s;
     Some s
   }"

definition network_create_loopback :: "'a network_scheme \<Rightarrow> 'a network_scheme option" where
  "network_create_loopback s = do {
     s \<leftarrow> puts (str ''[network] creating loopback'' @ [10]) s;
     let (p, s) = netdev_allocate s;
     i \<leftarrow> p;
     s \<leftarrow> upd_netdev i (\<lambda>d. d\<lparr>nd_name := strncpy_array 32 (str ''lo'')\<rparr>) s;
     (u, s) \<leftarrow> netdev_set i 1 s;
     s \<leftarrow> upd_netdev i (\<lambda>d. d\<lparr>iftype := NET_IF_LOOPBACK\<rparr>) s;
     let addr = (replicate 16 0)[14 := 1];
     (q, s) \<leftarrow> netdev_add_ip6_address i addr 64 NET_ADDR_IPV6_LOOP s;
     Some s
   }"

text \<open>Freeing the nodes follows the links; \<open>free\<close> itself keeps the memory.\<close>

partial_function (option) netdev_addr_free :: "LONG \<Rightarrow> 'a network_scheme \<Rightarrow> 'a network_scheme option" where
  "netdev_addr_free p s = do {
     n \<leftarrow> net_addrs s p;
     s \<leftarrow> (if na_next n \<noteq> 0 then netdev_addr_free (na_next n) s else Some s);
     Some (free p s)
   }"

definition netdev_free :: "nat \<Rightarrow> 'a network_scheme \<Rightarrow> 'a network_scheme option" where
  "netdev_free i s = do {
     d \<leftarrow> at (net_ifs s) i;
     s \<leftarrow> (if addresses d \<noteq> 0 then netdev_addr_free (addresses d) s else Some s);
     upd_netdev i (\<lambda>_. netdev_zero) s
   }"

definition netdev_get_mtu :: "nat \<Rightarrow> 'a network_scheme \<Rightarrow> LONG option" where
  "netdev_get_mtu i s = do {
     d \<leftarrow> at (net_ifs s) i;
     if iftype d = NET_IF_ETHERNET \<or> iftype d = NET_IF_VSWITCH then do {
       k \<leftarrow> physical d;
       e \<leftarrow> at (eth_ifs s) k;
       Some (mtu e)
     }
     else Some 0
   }"

section \<open>Status\<close>

text \<open>A flag of the status: it is set when the function pointer is there and its call gives non-zero.\<close>

definition status_flag :: "(LONG \<Rightarrow> nat \<Rightarrow> 's \<Rightarrow> (LONG \<times> 's) option) \<Rightarrow> LONG \<Rightarrow> nat \<Rightarrow> LONG \<Rightarrow>
    LONG \<times> 's \<Rightarrow> (LONG \<times> 's) option" where
  "status_flag call f k flag = (\<lambda>(status, s).
     if f \<noteq> 0 then do {
       (v, s) \<leftarrow> call f k s;
       Some (if v \<noteq> 0 then status OR flag else status, s)
     }
     else Some (status, s))"

definition netdev_get_status :: "(LONG \<Rightarrow> nat \<Rightarrow> 'a network_scheme \<Rightarrow> (LONG \<times> 'a network_scheme) option) \<Rightarrow>
    nat \<Rightarrow> 'a network_scheme \<Rightarrow> (LONG \<times> 'a network_scheme) option" where
  "netdev_get_status call i s = do {
     d \<leftarrow> at (net_ifs s) i;
     (status, s) \<leftarrow>
       (if iftype d = NET_IF_ETHERNET \<or> iftype d = NET_IF_VSWITCH then do {
          k \<leftarrow> physical d;
          e \<leftarrow> at (eth_ifs s) k;
          x \<leftarrow> status_flag call (is_up e) k NET_IF_STA_LOWER_UP (0, s);
          e \<leftarrow> at (eth_ifs (snd x)) k;
          x \<leftarrow> status_flag call (is_broadcast e) k NET_IF_STA_BROADCAST x;
          e \<leftarrow> at (eth_ifs (snd x)) k;
          x \<leftarrow> status_flag call (is_multicast e) k NET_IF_STA_MULTICAST x;
          e \<leftarrow> at (eth_ifs (snd x)) k;
          status_flag call (is_promisc e) k NET_IF_STA_PROMISC x
        }
        else Some (0, s));
     d \<leftarrow> at (net_ifs s) i;
     let status = (if nd_up d \<noteq> 0 then status OR NET_IF_STA_UP else status);
     let status = (if nd_master d \<noteq> 0 then status OR NET_IF_STA_SLAVE else status);
     Some (status, s)
   }"

section \<open>Printing\<close>

fun put_hwaddr_loop :: "nat \<Rightarrow> nat \<Rightarrow> BYTE list \<Rightarrow> 'a console_scheme \<Rightarrow> 'a console_scheme option" where
  "put_hwaddr_loop 0 i b s = Some s"
| "put_hwaddr_loop (Suc n) i b s = do {
     c \<leftarrow> at b i;
     s \<leftarrow> (if c = 0 then put 48 s else Some s);
     s \<leftarrow> putn16 (ucast c) s;
     s \<leftarrow> (if i \<noteq> 5 then put 58 s else Some s);
     put_hwaddr_loop n (i + 1) b s
   }"

definition put_hwaddr :: "BYTE list \<Rightarrow> 'a console_scheme \<Rightarrow> 'a console_scheme option" where
  "put_hwaddr b s = put_hwaddr_loop 6 0 b s"

text \<open>The address as eight little-endian words.\<close>

definition ip6_word :: "BYTE list \<Rightarrow> nat \<Rightarrow> WORD" where
  "ip6_word a i = ucast (a ! (2 * i)) OR push_bit 8 (ucast (a ! (2 * i + 1)))"

fun print_ipv6_words :: "nat \<Rightarrow> nat \<Rightarrow> nat \<Rightarrow> BYTE list \<Rightarrow> 'a console_scheme \<Rightarrow> 'a console_scheme option" where
  "print_ipv6_words 0 i omit a s = Some s"
| "print_ipv6_words (Suc n) i omit a s =
     (let w = ip6_word a i
      in if w = 0 \<and> omit = 0 then print_ipv6_words n (i + 1) 1 a s
         else if w = 0 \<and> omit = 1 \<and> i = 7 then put 58 s
         else if w = 0 \<and> omit = 1 then print_ipv6_words n (i + 1) omit a s
         else do {
           (omit, s) \<leftarrow> (if w \<noteq> 0 \<and> omit = 1 then do { s \<leftarrow> put 58 s; Some (2, s) } else Some (omit, s));
           s \<leftarrow> putn16 (ucast w) s;
           s \<leftarrow> (if i \<noteq> 7 then put 58 s else Some s);
           print_ipv6_words n (i + 1) omit a s
         })"

text \<open>The number of bits up to the highest bit that is set: \<open>while(b) { prefix++; b >>= 1; }\<close>.\<close>

function count_shifts :: "BYTE \<Rightarrow> nat" where
  "count_shifts b = (if b = 0 then 0 else Suc (count_shifts (drop_bit 1 b)))"
  by pat_completeness auto
termination
proof (relation "measure unat")
  fix b :: BYTE
  assume "b \<noteq> 0"
  moreover have "unat (drop_bit 1 b) = unat b div 2"
    by (simp only: unat_drop_bit_eq) (simp add: drop_bit_eq_div)
  ultimately show "(drop_bit 1 b, b) \<in> measure unat" by (simp add: unat_gt_0)
qed simp

declare count_shifts.simps [simp del]

fun mask_prefix :: "BYTE list \<Rightarrow> nat" where
  "mask_prefix [] = 0"
| "mask_prefix (b # bs) =
     (if b = 0xff then 8 + mask_prefix bs else if b = 0 then 0 else count_shifts b)"

definition network_print_ipv6 :: "netdev_addr \<Rightarrow> 'a console_scheme \<Rightarrow> 'a console_scheme option" where
  "network_print_ipv6 n s = do {
     s \<leftarrow> print_ipv6_words 8 0 0 (na_addr n) s;
     let prefix = (of_nat (mask_prefix (na_mask n)) :: LONG);
     s \<leftarrow> put 47 s;
     putn10 prefix s
   }"

partial_function (option) print_addrs :: "LONG \<Rightarrow> 'a network_scheme \<Rightarrow> 'a network_scheme option" where
  "print_addrs p s =
     (if p = 0 then Some s
      else do {
        n \<leftarrow> net_addrs s p;
        s \<leftarrow> (if addrtype n = NET_ADDR_IPV6 then do {
                s \<leftarrow> puts ([10] @ str ''    inet6 '') s;
                s \<leftarrow> network_print_ipv6 n s;
                s \<leftarrow> puts (str '' scope '') s;
                if na_attr n = NET_ADDR_IPV6_UNI then puts (str ''global'' @ [10]) s
                else if na_attr n = NET_ADDR_IPV6_LOCAL then puts (str ''local'' @ [10]) s
                else if na_attr n = NET_ADDR_IPV6_LOOP then puts (str ''host'' @ [10]) s
                else Some s
              }
              else Some s);
        n \<leftarrow> net_addrs s p;
        print_addrs (na_next n) s
      })"

definition print_flag :: "LONG \<Rightarrow> LONG \<Rightarrow> string \<Rightarrow> 'a console_scheme \<Rightarrow> 'a console_scheme option" where
  "print_flag status flag txt s = (if status AND flag \<noteq> 0 then puts (str txt) s else Some s)"

definition netdev_print :: "(LONG \<Rightarrow> nat \<Rightarrow> 'a network_scheme \<Rightarrow> (LONG \<times> 'a network_scheme) option) \<Rightarrow>
    nat \<Rightarrow> 'a network_scheme \<Rightarrow> 'a network_scheme option" where
  "netdev_print call i s = do {
     (status, s) \<leftarrow> netdev_get_status call i s;
     d \<leftarrow> at (net_ifs s) i;
     name \<leftarrow> array_str (nd_name d);
     s \<leftarrow> puts name s;
     s \<leftarrow> puts (str '': <'') s;
     s \<leftarrow> print_flag status NET_IF_STA_UP ''UP'' s;
     s \<leftarrow> print_flag status NET_IF_STA_BROADCAST '',BROADCAST'' s;
     s \<leftarrow> print_flag status NET_IF_STA_MULTICAST '',MULTICAST'' s;
     s \<leftarrow> print_flag status NET_IF_STA_PROMISC '',PROMISC'' s;
     s \<leftarrow> print_flag status NET_IF_STA_SLAVE '',SLAVE'' s;
     s \<leftarrow> print_flag status NET_IF_STA_LOWER_UP '',LOWER_UP'' s;
     s \<leftarrow> puts (str ''> mtu '') s;
     m \<leftarrow> netdev_get_mtu i s;
     s \<leftarrow> putn10 m s;
     s \<leftarrow> puts (str '' state '') s;
     s \<leftarrow> puts (if status AND NET_IF_STA_UP \<noteq> 0 then str ''UP'' else str ''DOWN'') s;
     s \<leftarrow> puts ([10] @ str ''    link/'') s;
     s \<leftarrow> (if iftype d = NET_IF_ETHERNET \<or> iftype d = NET_IF_VSWITCH then do {
             s \<leftarrow> puts (str ''ether '') s;
             k \<leftarrow> physical d;
             e \<leftarrow> at (eth_ifs s) k;
             put_hwaddr (eth_addr e) s
           }
           else puts (str ''unknown'') s);
     s \<leftarrow> print_addrs (addresses d) s;
     puts [10] s
   }"

section \<open>Setup\<close>

text \<open>
  Waiting for the link: at most three sleeps. The counter that is left is then compared with
  0xffffffff, which it never is.
\<close>

fun wait_link :: "(LONG \<Rightarrow> nat \<Rightarrow> 'a network_scheme \<Rightarrow> (LONG \<times> 'a network_scheme) option) \<Rightarrow>
    ('a network_scheme \<Rightarrow> 'a network_scheme option) \<Rightarrow> nat \<Rightarrow> nat \<Rightarrow> 'a network_scheme \<Rightarrow>
    (nat \<times> 'a network_scheme) option" where
  "wait_link call irqs k n s = do {
     e \<leftarrow> at (eth_ifs s) k;
     (v, s) \<leftarrow> call (is_up e) k s;
     (case n of
        0 \<Rightarrow> Some (0, s)
      | Suc m \<Rightarrow> if v = 0 then do { s \<leftarrow> sleep irqs 10 s; wait_link call irqs k m s } else Some (n, s))
   }"

declare wait_link.simps [simp del]

definition network_attach :: "(LONG \<Rightarrow> nat \<Rightarrow> 'a network_scheme \<Rightarrow> (LONG \<times> 'a network_scheme) option) \<Rightarrow>
    ('a network_scheme \<Rightarrow> 'a network_scheme option) \<Rightarrow> int \<Rightarrow> 'a network_scheme \<Rightarrow>
    'a network_scheme option" where
  "network_attach call irqs i s = do {
     pdev \<leftarrow> ethernet_getdev i s;
     (case pdev of
        None \<Rightarrow> Some s
      | Some k \<Rightarrow> do {
          let (p, s) = netdev_allocate s;
          dev \<leftarrow> p;
          s \<leftarrow> upd_netdev dev (\<lambda>d. d\<lparr>nd_name := strncpy_array 32 (str ''eth'')\<rparr>) s;
          s \<leftarrow> upd_netdev dev (\<lambda>d. d\<lparr>iftype := NET_IF_ETHERNET\<rparr>) s;
          s \<leftarrow> upd_netdev dev (\<lambda>d. d\<lparr>physical := Some k\<rparr>) s;
          (u, s) \<leftarrow> netdev_set dev 1 s;
          s \<leftarrow> puts (str ''['') s;
          d \<leftarrow> at (net_ifs s) dev;
          name \<leftarrow> array_str (nd_name d);
          s \<leftarrow> puts name s;
          s \<leftarrow> puts (str ''] waiting for link...'') s;
          (n, s) \<leftarrow> wait_link call irqs k 3 s;
          if (of_nat n :: LONG) = 0xffffffff then puts (str ''timed out'' @ [10]) s
          else do {
            s \<leftarrow> puts (str ''online'' @ [10]) s;
            netdev_add_linklocal dev s
          }
        })
   }"

definition network_print_dev :: "(LONG \<Rightarrow> nat \<Rightarrow> 'a network_scheme \<Rightarrow> (LONG \<times> 'a network_scheme) option) \<Rightarrow>
    nat \<Rightarrow> 'a network_scheme \<Rightarrow> 'a network_scheme option" where
  "network_print_dev call i s = do {
     d \<leftarrow> at (net_ifs s) i;
     if nd_allocated d \<noteq> 0 then netdev_print call i s else Some s
   }"

definition network_setup :: "(LONG \<Rightarrow> nat \<Rightarrow> 'a network_scheme \<Rightarrow> (LONG \<times> 'a network_scheme) option) \<Rightarrow>
    ('a network_scheme \<Rightarrow> 'a network_scheme option) \<Rightarrow> 'a network_scheme \<Rightarrow> 'a network_scheme option" where
  "network_setup call irqs s =
     (if network__disable s \<noteq> 0 then Some s
      else do {
        s \<leftarrow> puts (str ''[network] setup'' @ [10]) s;
        let (a, s) = malloc (of_nat NET_MAX_IFS * sizeof_netdev) s;
        let s = s\<lparr>net_ifs_at := a, net_ifs := replicate NET_MAX_IFS netdev_zero\<rparr>;
        s \<leftarrow> network_create_loopback s;
        s \<leftarrow> for_each (network_attach call irqs) (map int [0..<ETH_MAX_IFS]) s;
        for_each (network_print_dev call) [0..<NET_MAX_IFS] s
      })"

section \<open>The prefix of an address\<close>

lemma fold_set_prefix:
  "n \<le> length xs \<Longrightarrow> fold (\<lambda>i m. m[i := x]) [0..<n] xs = replicate n x @ drop n xs"
proof (induction n)
  case (Suc n)
  then have "drop n xs = xs ! n # drop (Suc n) xs" by (simp add: Cons_nth_drop_Suc)
  with Suc show ?case by (simp add: list_update_append replicate_append_same [symmetric])
qed simp

lemma mask_prefix_ff: "mask_prefix (replicate n 0xff @ bs) = 8 * n + mask_prefix bs"
  by (induction n) simp_all

lemma mask_prefix_zeros: "mask_prefix (replicate n 0) = 0"
  by (cases n) simp_all

text \<open>The partial byte: its low bits are set, so that shifting it out counts the wrong ones.\<close>

lemma count_shifts_bits:
  assumes "unat b < 2 ^ k" and "2 ^ k \<le> 2 * unat b"
  shows "count_shifts b = k"
  using assms
proof (induction k arbitrary: b)
  case 0
  then show ?case by simp
next
  case (Suc k)
  then have b: "b \<noteq> 0" by auto
  have half: "unat (drop_bit 1 b) = unat b div 2"
    by (simp only: unat_drop_bit_eq) (simp add: drop_bit_eq_div)
  show ?case
  proof (cases "k = 0")
    case True
    with Suc.prems have "unat b = 1" by simp
    with half have "drop_bit 1 b = 0" by (simp add: word_unat_eq_iff)
    with True b show ?thesis by (simp add: count_shifts.simps [of b] count_shifts.simps [of 0])
  next
    case False
    then obtain j where "k = Suc j" by (cases k) auto
    with Suc.prems half have "count_shifts (drop_bit 1 b) = k" by (intro Suc.IH) auto
    with b show ?thesis by (simp add: count_shifts.simps [of b])
  qed
qed

lemma partial_byte:
  assumes "0 < r" and "r < 8"
  shows "unat (ucast ((push_bit (8 - r) 1 :: LONG) - 1) :: BYTE) = 2 ^ (8 - r) - 1"
proof -
  have "r \<in> {1, 2, 3, 4, 5, 6, 7}" using assms by auto
  then show ?thesis by (elim insertE emptyE) (simp_all add: push_bit_eq_mult)
qed

lemma count_shifts_partial:
  assumes "0 < r" and "r < 8"
  shows "count_shifts (ucast ((push_bit (8 - r) 1 :: LONG) - 1)) = 8 - r"
    and "(ucast ((push_bit (8 - r) 1 :: LONG) - 1) :: BYTE) \<noteq> 0xff"
    and "(ucast ((push_bit (8 - r) 1 :: LONG) - 1) :: BYTE) \<noteq> 0"
proof -
  note u = partial_byte [OF assms]
  have pow: "(2 :: nat) ^ (8 - r) \<le> 2 ^ 7" "(2 :: nat) ^ 1 \<le> 2 ^ (8 - r)"
    using assms by (intro power_increasing; simp)+
  then show "count_shifts (ucast ((push_bit (8 - r) 1 :: LONG) - 1)) = 8 - r"
    by (intro count_shifts_bits) (simp_all only: u, simp_all)
  show "(ucast ((push_bit (8 - r) 1 :: LONG) - 1) :: BYTE) \<noteq> 0xff"
    using u pow by (simp only: word_unat_eq_iff) simp
  show "(ucast ((push_bit (8 - r) 1 :: LONG) - 1) :: BYTE) \<noteq> 0"
    using u pow by (simp only: word_unat_eq_iff) simp
qed

lemma prefix_mask_eq:
  assumes "unat p \<le> 128"
  shows "prefix_mask p = Some (let k = unat p div 8; r = unat p mod 8 in
    if r = 0 then replicate k 0xff @ replicate (16 - k) 0
    else replicate k 0xff @ [ucast ((push_bit (8 - r) 1 :: LONG) - 1)] @ replicate (15 - k) 0)"
proof -
  have fb: "unat (p div 8) = unat p div 8" by (simp add: unat_div_distrib)
  have "p - p div 8 * 8 = p mod 8" by (metis add_diff_cancel_left' div_mult_mod_eq)
  then have rb: "unat (p - p div 8 * 8) = unat p mod 8" by (simp add: unat_mod_distrib)
  then have rb0: "p - p div 8 * 8 = 0 \<longleftrightarrow> unat p mod 8 = 0" by (simp add: word_unat_eq_iff)
  have drop: "drop k (replicate 16 (0 :: BYTE)) = replicate (16 - k) 0" for k by simp
  have upd: "(replicate k 0xff @ replicate (16 - k) 0)[k := x] =
      replicate k 0xff @ [x] @ replicate (15 - k) 0" if "k < 16" for k and x :: BYTE
    using that by (simp add: list_update_append) (cases "16 - k", auto)
  have "unat p mod 8 \<noteq> 0 \<Longrightarrow> unat p div 8 < 16" using assms by presburger
  with assms show ?thesis
    unfolding prefix_mask_def Let_def fb rb rb0
    by (auto simp: fold_set_prefix upd)
qed

text \<open>
  C25: An address is stored with a mask, and printed with the prefix length read back from
  that mask. The length that is printed is the one that was given when the number of bits in
  the last, partial byte is 0 or 4; otherwise it is wrong, since the partial byte of the mask
  has its low bits set instead of its high bits.
\<close>

theorem ip6_prefix_roundtrip:
  assumes "unat p \<le> 128"
  shows "\<exists>m. prefix_mask p = Some m \<and> length m = 16 \<and>
    mask_prefix m = (if unat p mod 8 = 0 then unat p else 8 * (unat p div 8) + (8 - unat p mod 8)) \<and>
    (mask_prefix m = unat p \<longleftrightarrow> unat p mod 8 \<in> {0, 4})"
proof -
  let ?k = "unat p div 8" and ?r = "unat p mod 8"
  have p: "unat p = 8 * ?k + ?r" by simp
  show ?thesis
  proof (cases "?r = 0")
    case True
    with assms have "?k \<le> 16" by linarith
    with True p show ?thesis
      by (simp add: prefix_mask_eq [OF assms] mask_prefix_ff mask_prefix_zeros Let_def)
  next
    case False
    then have r: "0 < ?r" "?r < 8" by simp_all
    have "?k < 16" using assms False by presburger
    moreover have "8 * ?k + (8 - ?r) = unat p \<longleftrightarrow> ?r = 4" using p r by presburger
    moreover define x :: BYTE where "x = ucast ((push_bit (8 - ?r) 1 :: LONG) - 1)"
    then have "count_shifts x = 8 - ?r" "x \<noteq> 0xff" "x \<noteq> 0"
      using count_shifts_partial [OF r] by (simp_all only: x_def simp_thms)
    moreover have "prefix_mask p = Some (replicate ?k 0xff @ [x] @ replicate (15 - ?k) 0)"
      unfolding x_def using False by (simp only: prefix_mask_eq [OF assms] Let_def if_False)
    ultimately show ?thesis
      using False by (simp add: mask_prefix_ff)
  qed
qed

theorem ip6_prefix_roundtrip_witness:
  "\<exists>m. prefix_mask 64 = Some m \<and> mask_prefix m = 64"
  using ip6_prefix_roundtrip [of 64] by auto

section \<open>The list of addresses\<close>

text \<open>The nodes that a link leads to, in order.\<close>

fun chain :: "(LONG \<Rightarrow> netdev_addr option) \<Rightarrow> LONG \<Rightarrow> LONG list \<Rightarrow> bool" where
  "chain h p [] \<longleftrightarrow> p = 0"
| "chain h p (q # qs) \<longleftrightarrow> p = q \<and> p \<noteq> 0 \<and> (\<exists>n. h p = Some n \<and> chain h (na_next n) qs)"

text \<open>Every node lies in memory that the allocator has handed out.\<close>

definition net_heap_ok :: "'a network_scheme \<Rightarrow> bool" where
  "net_heap_ok s \<longleftrightarrow> (\<forall>p. net_addrs s p \<noteq> None \<longrightarrow> unat p < mm_top s)"

lemma last_addr_chain: "chain h p (ps @ [q]) \<Longrightarrow> last_addr h p = Some q"
proof (induction ps arbitrary: p)
  case Nil
  then show ?case by (auto simp: last_addr.simps [of h q])
next
  case (Cons r ps)
  then obtain n where n: "p = r" "h p = Some n" "chain h (na_next n) (ps @ [q])" by auto
  then have "na_next n \<noteq> 0" by (cases ps) auto
  with n Cons.IH show ?case by (simp add: last_addr.simps [of h r])
qed

lemma chain_upd: "q \<notin> set ps \<Longrightarrow> chain (h(q := x)) p ps = chain h p ps"
  by (induction ps arbitrary: p) auto

lemma chain_in: "chain h p ps \<Longrightarrow> q \<in> set ps \<Longrightarrow> q \<noteq> 0 \<and> h q \<noteq> None"
  by (induction ps arbitrary: p) auto

lemma chain_snoc:
  assumes "chain h p (ps @ [q])" and "distinct (ps @ [q])" and "a \<notin> set (ps @ [q])"
    and "h q = Some l" and "a \<noteq> 0" and "h a = Some n" and "na_next n = 0"
  shows "chain (h(q \<mapsto> l\<lparr>na_next := a\<rparr>)) p (ps @ [q] @ [a])"
  using assms(1-3)
proof (induction ps arbitrary: p)
  case Nil
  with assms(4-) show ?case by auto
next
  case (Cons r ps)
  then show ?case by auto
qed

text \<open>What a new address leaves of a node: everything but its link.\<close>

definition same_node :: "netdev_addr option \<Rightarrow> netdev_addr option \<Rightarrow> bool" where
  "same_node x y \<longleftrightarrow> (\<exists>n k. x = Some n \<and> y = Some (n\<lparr>na_next := k\<rparr>))"

lemma same_node_refl: "x \<noteq> None \<Longrightarrow> same_node x x"
proof -
  assume "x \<noteq> None"
  then obtain n where "x = Some n" by auto
  then show "same_node x x" unfolding same_node_def by (intro exI [of _ n] exI [of _ "na_next n"]) simp
qed

text \<open>A network with an empty table and some memory, for the examples.\<close>

definition net0 :: network where
  "net0 = ethernet.extend eth0 \<lparr>net_ifs = replicate 16 netdev_zero, net_ifs_at = 0x200000,
     net_addrs = (\<lambda>_. None), network__disable = 0\<rparr>"

text \<open>
  C24: Adding an address to an interface appends one node to its list of addresses, with the
  address, the mask of the prefix and the attribute that were given, and keeps the contents
  and the order of the nodes before it, as long as the allocator has a page left.
\<close>

theorem netdev_add_ip6_appends:
  assumes i: "i < length (net_ifs s)" and ch: "chain (net_addrs s) (addresses (net_ifs s ! i)) ps"
    and dist: "distinct ps" and heap: "net_heap_ok s" and prefix: "unat prefix \<le> 128"
    and mem: "mmgmt_counter s < mmgmt_len s" "0 < mm_top s" "mm_top s + 4096 < 2 ^ 32"
  shows "\<exists>a t n. netdev_add_ip6_address i address prefix atr s = Some (a, t) \<and> net_heap_ok t \<and>
    chain (net_addrs t) (addresses (net_ifs t ! i)) (ps @ [a]) \<and> a \<notin> set ps \<and>
    net_addrs t a = Some n \<and> na_addr n = address \<and> prefix_mask prefix = Some (na_mask n) \<and>
    na_attr n = atr \<and> (\<forall>p \<in> set ps. same_node (net_addrs s p) (net_addrs t p))"
proof -
  obtain a c where a: "malloc sizeof_netdev_addr s = (a, s\<lparr>mmgmt_counter := c\<rparr>)" "unat a = mm_top s"
    "mm_top (s\<lparr>mmgmt_counter := c\<rparr>) = mm_top s + 4096"
    using malloc_page [OF _ _ mem(1,3), of sizeof_netdev_addr] by (auto simp: sizeof_netdev_addr_def)
  obtain m where m: "prefix_mask prefix = Some m" using prefix_mask_eq [OF prefix] by blast
  define n where "n = netdev_addr_zero\<lparr>na_addr := address, na_mask := m, addrtype := NET_ADDR_IPV6,
    na_attr := atr\<rparr>"
  define h where "h = (net_addrs s)(a \<mapsto> n)"
  let ?s = "s\<lparr>mmgmt_counter := c, net_addrs := h\<rparr>"
  have n: "na_next n = 0" "na_addr n = address" "na_mask n = m" "na_attr n = atr"
    by (simp_all add: n_def netdev_addr_zero_def)
  have ha: "h a = Some n" by (simp add: h_def)
  have a0: "a \<noteq> 0" using a(2) mem(2) by auto
  have fresh: "net_addrs s a = None" using heap a(2) by (auto simp: net_heap_ok_def)
  have aps: "a \<notin> set ps" using chain_in [OF ch, of a] fresh by auto
  have heap': "net_heap_ok (?s\<lparr>net_addrs := h(q := x), net_ifs := f\<rparr>)" if "h q \<noteq> None" for q x f
    unfolding net_heap_ok_def
  proof (intro allI impI)
    fix p
    assume "net_addrs (?s\<lparr>net_addrs := h(q := x), net_ifs := f\<rparr>) p \<noteq> None"
    with that have "p = a \<or> net_addrs s p \<noteq> None" by (auto simp: h_def split: if_splits)
    then have "unat p < mm_top s + 4096" using heap a(2) by (fastforce simp: net_heap_ok_def)
    then show "unat p < mm_top (?s\<lparr>net_addrs := h(q := x), net_ifs := f\<rparr>)"
      using a(3) by (simp add: mm_top_def)
  qed
  have same: "same_node (net_addrs s p) (h p)" if "p \<in> set ps" for p
    using that aps chain_in [OF ch that] by (auto simp: h_def intro: same_node_refl)
  show ?thesis
  proof (cases ps rule: rev_cases)
    case Nil
    with ch have "addresses (net_ifs s ! i) = 0" by simp
    then have "netdev_add_ip6_address i address prefix atr s = Some (a,
        ?s\<lparr>net_ifs := (net_ifs s)[i := (net_ifs s ! i)\<lparr>addresses := a\<rparr>]\<rparr>)"
      using a(1) m i by (simp add: netdev_add_ip6_address_def at_def upd_netdev_def h_def n_def Let_def)
    moreover have "h(a := Some n) = h" by (simp add: h_def)
    ultimately show ?thesis
      using Nil i a0 n m heap' [where q = a and x = "Some n"] by (auto simp: h_def)
  next
    case (snoc qs q)
    with ch have q: "q \<in> set ps" "addresses (net_ifs s ! i) \<noteq> 0" by (cases qs; auto)+
    obtain l where l: "net_addrs s q = Some l" using chain_in [OF ch q(1)] by auto
    have hq: "h q = Some l" using l q(1) aps by (auto simp: h_def)
    have chh: "chain h (addresses (net_ifs s ! i)) (qs @ [q])"
      using ch snoc aps by (simp add: h_def chain_upd)
    have "netdev_add_ip6_address i address prefix atr s =
        Some (a, ?s\<lparr>net_addrs := h(q \<mapsto> l\<lparr>na_next := a\<rparr>)\<rparr>)"
      using a(1) m i q(2) last_addr_chain [OF chh] hq
      by (simp add: netdev_add_ip6_address_def at_def Let_def) (simp add: h_def n_def)
    moreover have "chain (h(q \<mapsto> l\<lparr>na_next := a\<rparr>)) (addresses (net_ifs s ! i)) (ps @ [a])"
      using chain_snoc [OF chh _ _ hq a0 ha n(1)] dist aps snoc by simp
    moreover have "\<forall>p \<in> set ps. same_node (net_addrs s p) ((h(q \<mapsto> l\<lparr>na_next := a\<rparr>)) p)"
      using same l by (auto simp: same_node_def)
    moreover have "net_heap_ok (?s\<lparr>net_addrs := h(q \<mapsto> l\<lparr>na_next := a\<rparr>)\<rparr>)"
      using heap' [where q = q and x = "Some (l\<lparr>na_next := a\<rparr>)" and f = "net_ifs s"] hq by (simp add: net_heap_ok_def mm_top_def)
    moreover have "q \<noteq> a" using q(1) aps by auto
    ultimately show ?thesis
      using n m aps by (auto simp: h_def)
  qed
qed

lemma net0_simps [simp]:
  "net_ifs net0 = replicate 16 netdev_zero" "net_addrs net0 = (\<lambda>_. None)" "mmgmt_counter net0 = 0"
  "mmgmt_len net0 = 16" "mmgmt_start net0 = 0x100000" "network__disable net0 = 0"
  "eth_ifs net0 = replicate 16 ethdev_zero" "serial_status net0 = [0, 0, 0, 0]"
  "mem net0 = (\<lambda>_. 0)"
  by (simp_all add: net0_def ethernet.defs eth0_def ide.defs ide0_def pci.defs pci0_def kbd.defs
      kbd0_def interrupts.defs int0_def)

theorem netdev_add_ip6_appends_witness:
  "\<exists>a t. netdev_add_ip6_address 0 (replicate 16 1) 64 NET_ADDR_IPV6_UNI net0 = Some (a, t) \<and>
     chain (net_addrs t) (addresses (net_ifs t ! 0)) [a]"
  using netdev_add_ip6_appends [of 0 net0 "[]" 64 "replicate 16 1" NET_ADDR_IPV6_UNI]
  by (auto simp: netdev_zero_def net_heap_ok_def mm_top_def)

section \<open>Printing the interfaces\<close>

lemma tty_step_net:
  "tty_step s t \<Longrightarrow> tty_ready t \<and> net_ifs t = net_ifs s \<and> net_addrs t = net_addrs s \<and>
     eth_ifs t = eth_ifs s \<and> mmgmt_counter t = mmgmt_counter s \<and> mmgmt_len t = mmgmt_len s \<and>
     mmgmt_start t = mmgmt_start s \<and> network__disable t = network__disable s"
  by (auto simp: tty_step_def elim!: printedE)

lemma print_ipv6_words_wp [wp]:
  "tty_step s0 s \<Longrightarrow> (\<And>t. tty_step s0 t \<Longrightarrow> Q t) \<Longrightarrow> returns (print_ipv6_words n i omit a s) Q"
proof (induction n arbitrary: i omit s)
  case (Suc n)
  show ?case
    using Suc.prems(1) by (auto simp: Let_def intro!: put_wp [of s0] putn16_wp [of s0] Suc.IH Suc.prems(2))
qed simp

lemma network_print_ipv6_wp [wp]:
  "tty_step s0 s \<Longrightarrow> (\<And>t. tty_step s0 t \<Longrightarrow> Q t) \<Longrightarrow> returns (network_print_ipv6 n s) Q"
  by (auto simp: network_print_ipv6_def intro!: wp [of s0])

lemma print_flag_wp [wp]:
  "tty_step s0 s \<Longrightarrow> (\<And>t. tty_step s0 t \<Longrightarrow> Q t) \<Longrightarrow> returns (print_flag st f txt s) Q"
  by (simp add: print_flag_def puts_wp)

lemma print_addrs_wp:
  assumes "chain (net_addrs s0) p ps" and "tty_step s0 s" and "\<And>t. tty_step s0 t \<Longrightarrow> Q t"
  shows "returns (print_addrs p s) Q"
  using assms(1,2)
proof (induction ps arbitrary: p s)
  case Nil
  then show ?case using assms(3) by (simp add: print_addrs.simps)
next
  case (Cons q ps)
  then obtain n where n: "p \<noteq> 0" "net_addrs s0 p = Some n" "chain (net_addrs s0) (na_next n) ps"
    by auto
  have step: "returns (print_addrs (na_next n) t) Q" if "tty_step s0 t" for t
    using n(3) that by (rule Cons.IH)
  have heap: "net_addrs t = net_addrs s0" if "tty_step s0 t" for t
    using tty_step_net [OF that] by simp
  show ?case
    using n(1,2) Cons.prems(2)
    by (subst print_addrs.simps) (auto simp: heap intro!: wp [of s0] step)
qed

text \<open>An interface that is not an Ethernet device needs no driver to be printed.\<close>

lemma netdev_print_wp:
  assumes "i < length (net_ifs s0)" and "iftype (net_ifs s0 ! i) \<notin> {NET_IF_ETHERNET, NET_IF_VSWITCH}"
    and "array_str (nd_name (net_ifs s0 ! i)) = Some name"
    and "chain (net_addrs s0) (addresses (net_ifs s0 ! i)) ps"
    and "tty_step s0 s" and "\<And>t. tty_step s0 t \<Longrightarrow> Q t"
  shows "returns (netdev_print call i s) Q"
proof -
  have net: "net_ifs t = net_ifs s0" if "tty_step s0 t" for t
    using tty_step_net [OF that] by simp
  have if_eth: "iftype (net_ifs s0 ! i) \<noteq> NET_IF_ETHERNET" "iftype (net_ifs s0 ! i) \<noteq> NET_IF_VSWITCH"
    using assms(2) by simp_all
  show ?thesis
    unfolding netdev_print_def netdev_get_status_def netdev_get_mtu_def
    using assms(1,3,5)
    by (auto simp: net at_def if_eth Let_def intro!: wp [of s0] print_addrs_wp [OF assms(4)] assms(6)
        simp del: str_simps)
qed

section \<open>Setting up\<close>

text \<open>With no Ethernet device there is nothing to attach.\<close>

definition no_ethernet :: "'a ethernet_scheme \<Rightarrow> bool" where
  "no_ethernet s \<longleftrightarrow> length (eth_ifs s) = ETH_MAX_IFS \<and> (\<forall>d \<in> set (eth_ifs s). eth_allocated d = 0)"

lemma attach_nothing: "no_ethernet s \<Longrightarrow> for_each (network_attach call irqs) (map int [0..<ETH_MAX_IFS]) s = Some s"
proof -
  assume no: "no_ethernet s"
  have "ethernet_getdev (int i) s = Some None" if "i < ETH_MAX_IFS" for i
    using no that by (auto simp: no_ethernet_def ethernet_getdev_def)
  then have "network_attach call irqs (int i) s = Some s" if "i < ETH_MAX_IFS" for i
    using that by (simp add: network_attach_def)
  moreover have "for_each f ps s = Some s" if "\<forall>p \<in> set ps. f p s = Some s"
    for f :: "int \<Rightarrow> 'a network_scheme \<Rightarrow> 'a network_scheme option" and ps
    using that by (induction ps) simp_all
  ultimately show ?thesis by auto
qed

text \<open>The interface that is always created.\<close>

definition loopback :: "LONG \<Rightarrow> netdev" where
  "loopback a = \<lparr>nd_allocated = 1, nd_name = strncpy_array 32 (str ''lo''), nd_up = 1,
     iftype = NET_IF_LOOPBACK, addresses = a, physical = None, nd_master = 0\<rparr>"

definition loopback_addr :: netdev_addr where
  "loopback_addr = \<lparr>addrtype = NET_ADDR_IPV6, na_addr = (replicate 16 0)[14 := 1],
     na_mask = replicate 8 0xff @ replicate 8 0, na_attr = NET_ADDR_IPV6_LOOP, na_next = 0\<rparr>"

lemma prefix_mask_64: "prefix_mask 64 = Some (replicate 8 0xff @ replicate 8 0)"
  using prefix_mask_eq [of 64] by simp

text \<open>
  What setting up the network changes: the console, the allocator and the variables of
  \<^verbatim>\<open>net/network.c\<close>. With those reset it is a step of the console.
\<close>

definition net_step :: "'a network_scheme \<Rightarrow> 'a network_scheme \<Rightarrow> bool" where
  "net_step s t \<longleftrightarrow> tty_step s (t\<lparr>mmgmt_counter := mmgmt_counter s, net_ifs := net_ifs s,
     net_ifs_at := net_ifs_at s, net_addrs := net_addrs s\<rparr>)"

lemma tty_step_reset:
  fixes s t :: "'a network_scheme"
  assumes "tty_step s t"
  shows "tty_step (s\<lparr>mmgmt_counter := c, net_ifs := f, net_ifs_at := a, net_addrs := h\<rparr>)
    (t\<lparr>mmgmt_counter := c, net_ifs := f, net_ifs_at := a, net_addrs := h\<rparr>)"
proof -
  have "printed (s\<lparr>mmgmt_counter := c, net_ifs := f, net_ifs_at := a, net_addrs := h\<rparr>)
      (t\<lparr>mmgmt_counter := c, net_ifs := f, net_ifs_at := a, net_addrs := h\<rparr>)"
    using assms unfolding tty_step_def by (cases s, cases t) (simp add: printed_def)
  with assms show ?thesis by (simp add: tty_step_def tty_ready_def text_ok_def)
qed

lemma net_step_trans:
  assumes "net_step s t" and "net_step t u"
  shows "net_step s u"
  using assms(1) tty_step_reset [OF assms(2) [unfolded net_step_def],
      where c = "mmgmt_counter s" and f = "net_ifs s" and a = "net_ifs_at s" and h = "net_addrs s"]
  unfolding net_step_def by (auto intro: tty_step_trans)

lemma net_step_tty: "tty_step s t \<Longrightarrow> net_step s t"
  using tty_step_reset [where s = s and c = "mmgmt_counter s" and f = "net_ifs s" and a = "net_ifs_at s" and h = "net_addrs s"]
  by (simp add: net_step_def)

lemma net_step_upd:
  "tty_ready s \<Longrightarrow> net_step s (s\<lparr>mmgmt_counter := c, net_ifs_at := a, net_ifs := f\<rparr>)"
  "tty_ready s \<Longrightarrow> net_step s (s\<lparr>mmgmt_counter := c, net_addrs := h, net_ifs := f\<rparr>)"
  by (simp_all add: net_step_def tty_step_refl)

lemma create_loopback_wp:
  assumes s: "tty_ready s" "net_ifs s = replicate NET_MAX_IFS netdev_zero"
    and mem: "mmgmt_counter s < mmgmt_len s" "0 < mm_top s" "mm_top s + 4096 < 2 ^ 32"
    and Q: "\<And>a t. tty_ready t \<Longrightarrow> a \<noteq> 0 \<Longrightarrow> net_ifs t = loopback a # replicate 15 netdev_zero \<Longrightarrow>
      net_addrs t = (net_addrs s)(a \<mapsto> loopback_addr) \<Longrightarrow> eth_ifs t = eth_ifs s \<Longrightarrow> net_step s t \<Longrightarrow> Q t"
  shows "returns (network_create_loopback s) Q"
proof -
  obtain t where t: "puts (str ''[network] creating loopback'' @ [10]) s = Some t" "tty_step s t"
    using puts_tty_step [OF s(1)] by blast
  note net = tty_step_net [OF t(2)]
  then have top: "mm_top t = mm_top s" by (simp add: mm_top_def)
  define u where "u = t\<lparr>net_ifs := loopback 0 # replicate 15 netdev_zero\<rparr>"
  have rep: "replicate NET_MAX_IFS netdev_zero = netdev_zero # replicate 15 netdev_zero"
    by (simp add: NET_MAX_IFS_def numeral_eq_Suc)
  have u: "net_addrs u = net_addrs s" "mmgmt_counter u = mmgmt_counter s" "mmgmt_len u = mmgmt_len s"
      "mm_top u = mm_top s" "eth_ifs u = eth_ifs s"
    using net top by (simp_all add: u_def mm_top_def)
  have "net_ifs t = netdev_zero # replicate 15 netdev_zero" using net s(2) rep by simp
  then have alloc: "netdev_allocate t =
      (Some 0, t\<lparr>net_ifs := netdev_zero\<lparr>nd_allocated := 1\<rparr> # replicate 15 netdev_zero\<rparr>)"
    unfolding netdev_allocate_def by (simp add: netdev_zero_def Let_def)
  have lo: "netdev_zero\<lparr>nd_allocated := 1, nd_name := strncpy_array 32 (str ''lo''), nd_up := 1,
      iftype := NET_IF_LOOPBACK\<rparr> = loopback 0"
    by (simp add: netdev_zero_def loopback_def)
  have steps: "network_create_loopback s = do {
      (q, s) \<leftarrow> netdev_add_ip6_address 0 ((replicate 16 0)[14 := 1]) 64 NET_ADDR_IPV6_LOOP u;
      Some s }"
    unfolding network_create_loopback_def t(1)
    by (simp add: alloc upd_netdev_def netdev_set_def at_def u_def lo Let_def del: str_simps)
  obtain a c where a: "malloc sizeof_netdev_addr u = (a, u\<lparr>mmgmt_counter := c\<rparr>)" "unat a = mm_top s"
    using malloc_page [of sizeof_netdev_addr u] u mem by (auto simp: sizeof_netdev_addr_def)
  have add: "netdev_add_ip6_address 0 ((replicate 16 0)[14 := 1]) 64 NET_ADDR_IPV6_LOOP u = Some (a,
      u\<lparr>mmgmt_counter := c, net_addrs := (net_addrs u)(a \<mapsto> loopback_addr),
        net_ifs := loopback a # replicate 15 netdev_zero\<rparr>)"
    unfolding netdev_add_ip6_address_def a(1)
    by (simp add: prefix_mask_64 at_def upd_netdev_def u_def loopback_def loopback_addr_def
        netdev_addr_zero_def Let_def)
  have "tty_ready u" using net by (simp add: u_def tty_ready_def)
  moreover have "net_step s (u\<lparr>mmgmt_counter := d, net_addrs := h, net_ifs := f\<rparr>)" for d h f
    using net_step_trans [OF net_step_tty [OF t(2)] net_step_upd(2) [where c = d and h = h and f = f]] net by (simp add: u_def)
  ultimately show ?thesis
    unfolding steps add using u a(2) mem(2) by (auto intro!: Q [of _ a] simp: tty_ready_def)
qed

lemma tty_step_loopback:
  assumes "net_ifs s0 = loopback a # replicate 15 netdev_zero" and "net_addrs s0 a = Some loopback_addr"
    and "a \<noteq> 0" and "tty_ready s0"
  shows "returns (for_each (network_print_dev call) [0..<NET_MAX_IFS] s0) (tty_step s0)"
proof (rule for_each_returns)
  fix i s
  assume i: "i \<in> set [0..<NET_MAX_IFS]" and s: "tty_step s0 s"
  have ifs: "net_ifs s = loopback a # replicate 15 netdev_zero" using tty_step_net [OF s] assms(1) by simp
  show "returns (network_print_dev call i s) (tty_step s0)"
  proof (cases "i = 0")
    case True
    have "chain (net_addrs s0) (addresses (net_ifs s0 ! i)) [a]"
      using assms True by (simp add: loopback_def loopback_addr_def)
    moreover have "array_str (nd_name (net_ifs s0 ! i)) = Some (str ''lo'')"
      using assms(1) True by (simp add: loopback_def array_str_def strncpy_array_def)
    ultimately have "returns (netdev_print call i s) (tty_step s0)"
      using s assms(1) True
      by (intro netdev_print_wp [of i s0 _ "[a]"])
        (simp_all add: loopback_def NET_IF_LOOPBACK_def NET_IF_ETHERNET_def NET_IF_VSWITCH_def)
    then show ?thesis using True ifs by (simp add: network_print_dev_def at_def loopback_def)
  next
    case False
    then have "net_ifs s ! i = netdev_zero" "i < length (net_ifs s)"
      using ifs i by (auto simp: NET_MAX_IFS_def nth_Cons')
    then show ?thesis using s by (simp add: network_print_dev_def at_def netdev_zero_def)
  qed
qed (rule tty_step_refl [OF assms(4)])

lemma network_setup_run:
  assumes s: "tty_ready s" "no_ethernet s" "network__disable s = 0"
    and mem: "unat (mmgmt_counter s) + 1 < unat (mmgmt_len s)" "0 < mm_top s" "mm_top s + 2 * 4096 < 2 ^ 32"
  shows "\<exists>t a. network_setup call irqs s = Some t \<and> a \<noteq> 0 \<and>
    net_ifs t = loopback a # replicate 15 netdev_zero \<and> net_addrs t = (net_addrs s)(a \<mapsto> loopback_addr) \<and>
    net_step s t"
proof -
  obtain u where u: "puts (str ''[network] setup'' @ [10]) s = Some u" "tty_step s u"
    using puts_tty_step [OF s(1)] by blast
  note net = tty_step_net [OF u(2)]
  have top: "mm_top u = mm_top s" using net by (simp add: mm_top_def)
  obtain b c where b: "malloc (of_nat NET_MAX_IFS * sizeof_netdev) u = (b, u\<lparr>mmgmt_counter := c\<rparr>)"
      "mm_top (u\<lparr>mmgmt_counter := c\<rparr>) = mm_top s + 4096" "unat c = unat (mmgmt_counter s) + 1"
    using malloc_page [of "of_nat NET_MAX_IFS * sizeof_netdev" u] net top mem
    by (auto simp: sizeof_netdev_def NET_MAX_IFS_def word_less_nat_alt)
  define v where "v = u\<lparr>mmgmt_counter := c, net_ifs_at := b, net_ifs := replicate NET_MAX_IFS netdev_zero\<rparr>"
  have v: "tty_ready v" "net_ifs v = replicate NET_MAX_IFS netdev_zero" "net_addrs v = net_addrs s"
      "mm_top v = mm_top s + 4096" "mmgmt_counter v < mmgmt_len v" "eth_ifs v = eth_ifs s"
    using net b mem by (simp_all add: v_def tty_ready_def mm_top_def word_less_nat_alt)
  have "returns (network_create_loopback v) (\<lambda>t. \<exists>a. tty_ready t \<and> a \<noteq> 0 \<and>
      net_ifs t = loopback a # replicate 15 netdev_zero \<and> net_addrs t = (net_addrs s)(a \<mapsto> loopback_addr) \<and>
      eth_ifs t = eth_ifs s \<and> net_step v t)"
    by (rule create_loopback_wp) (use v mem in auto)
  then obtain w a where w: "network_create_loopback v = Some w" "tty_ready w" "a \<noteq> 0"
      "net_ifs w = loopback a # replicate 15 netdev_zero" "net_addrs w = (net_addrs s)(a \<mapsto> loopback_addr)"
      "no_ethernet w" "net_step v w"
    using s(2) by (auto simp: returns_def no_ethernet_def)
  obtain t where t: "for_each (network_print_dev call) [0..<NET_MAX_IFS] w = Some t" "tty_step w t"
    using tty_step_loopback [OF w(4) _ w(3,2), of call] w(5) by (auto simp: returns_def)
  have "network_setup call irqs s = Some t"
    unfolding network_setup_def using s(3) u(1) b(1) w(1) t(1) attach_nothing [OF w(6), of call irqs]
    by (simp add: v_def Let_def del: str_simps)
  moreover have "net_step s t"
    using net_step_upd(1) [where s = u and c = c and a = b] net u(2) w(7) t(2) unfolding v_def
    by (blast intro: net_step_trans net_step_tty)
  ultimately show ?thesis using tty_step_net [OF t(2)] w(3-5) by auto
qed



text \<open>The link counter never reaches the value that the timeout is tested with.\<close>

lemma wait_link_counter: "wait_link call irqs k n s = Some (r, t) \<Longrightarrow> r \<le> n"
  by (induction n arbitrary: s)
    (subst (asm) wait_link.simps, auto simp: bind_eq_Some_conv split: if_splits dest: le_SucI)+

lemma attach_never_times_out:
  "wait_link call irqs k 3 s = Some (n, t) \<Longrightarrow> (of_nat n :: LONG) \<noteq> 0xffffffff"
proof
  assume "wait_link call irqs k 3 s = Some (n, t)" and eq: "(of_nat n :: LONG) = 0xffffffff"
  then have "n \<le> 3" using wait_link_counter by blast
  then have "unat (of_nat n :: LONG) = n" by (simp add: unat_of_nat)
  with eq \<open>n \<le> 3\<close> show False by simp
qed

section \<open>The interface table\<close>

definition net_ok :: "'a network_scheme \<Rightarrow> bool" where
  "net_ok s \<longleftrightarrow> length (net_ifs s) = NET_MAX_IFS"

definition net_alloc :: "'a network_scheme \<Rightarrow> (bool \<times> 'a network_scheme) option" where
  "net_alloc s = (case netdev_allocate s of (p, t) \<Rightarrow> Some (p \<noteq> None, t))"

interpretation net_slots: slot_table net_ok net_ifs "\<lambda>d. nd_allocated d = 0" net_alloc
  by unfold_locales (rule first_free_law, auto simp: net_alloc_def netdev_allocate_def Let_def net_ok_def,
    rule exI, rule conjI [rotated], rule refl, simp)

end
