(* ===== verification/Disk.thy ===== *)
theory Disk
  imports Network
begin

text \<open>
  What the two file systems share: reading a cluster of sixteen sectors through the disk
  driver into a buffer in memory, and comparing a file name with \<open>strncmp\<close>.

  The driver is an argument of the file systems, a function of a sector number, the address
  of a buffer, a count and the slave bit. The driver of this tree is \<open>ide_read_sector\<close> of
  \<^verbatim>\<open>dev/ide.c\<close>.
\<close>

type_synonym 's sector_op = "LONG \<Rightarrow> LONG \<Rightarrow> LONG \<Rightarrow> LONG \<Rightarrow> 's \<Rightarrow> LONG \<times> 's"

text \<open>The loop over the sectors of a cluster; the status of the driver is ignored.\<close>

definition cluster_loop :: "'s sector_op \<Rightarrow> LONG \<Rightarrow> LONG \<Rightarrow> nat \<Rightarrow> 's \<Rightarrow> 's" where
  "cluster_loop sect startc buf n s =
     fold (\<lambda>i s. snd (sect (startc + of_nat i) (buf + 512 * of_nat i) 1 0 s)) [0..<n] s"

lemma cluster_loop_0 [simp]: "cluster_loop sect startc buf 0 s = s"
  by (simp add: cluster_loop_def)

lemma cluster_loop_Suc:
  "cluster_loop sect startc buf (Suc n) s =
     snd (sect (startc + of_nat n) (buf + 512 * of_nat n) 1 0 (cluster_loop sect startc buf n s))"
  by (simp add: cluster_loop_def)

section \<open>What a driver may change\<close>

lemma unat_offset_sub:
  fixes a b :: LONG
  assumes "k < 2 ^ 32"
  shows "unat (a - (b + of_nat k)) =
    (if k \<le> unat (a - b) then unat (a - b) - k else unat (a - b) + 2 ^ 32 - k)"
proof -
  define c where "c = a - b"
  have c: "a - (b + of_nat k) = c - of_nat k" by (simp add: c_def diff_diff_eq)
  have k: "unat (of_nat k :: LONG) = k" using assms by (simp add: unat_of_nat_small)
  show ?thesis
    unfolding c c_def [symmetric] by (simp add: unat_sub_if' k)
qed

lemma unat_offset_sector:
  fixes a b :: LONG
  assumes "n \<le> 16"
  shows "unat (a - (b + 512 * of_nat n)) =
    (if 512 * n \<le> unat (a - b) then unat (a - b) - 512 * n else unat (a - b) + 2 ^ 32 - 512 * n)"
  using unat_offset_sub [of "512 * n" a b] assms by simp

text \<open>
  A driver transfers to or from the device, and touches no memory but the 512 bytes of the
  buffer and no variable of the kernel.
\<close>

locale disk_driver =
  fixes sect :: "('a machine_scheme) sector_op"
  assumes sector_frame: "sect lba buf 1 0 s = (v, t) \<Longrightarrow>
    t = s\<lparr>mem := mem t, io_log := io_log t\<rparr> \<and> (\<forall>a. 512 \<le> unat (a - buf) \<longrightarrow> mem t a = mem s a)"
begin

lemma cluster_frame:
  assumes "n \<le> 16"
  shows "cluster_loop sect startc buf n s =
      s\<lparr>mem := mem (cluster_loop sect startc buf n s), io_log := io_log (cluster_loop sect startc buf n s)\<rparr> \<and>
    (\<forall>a. 512 * n \<le> unat (a - buf) \<longrightarrow> mem (cluster_loop sect startc buf n s) a = mem s a)"
  using assms
proof (induction n)
  case (Suc n)
  define u where "u = cluster_loop sect startc buf n s"
  define t where "t = snd (sect (startc + of_nat n) (buf + 512 * of_nat n) 1 0 u)"
  have u: "u = s\<lparr>mem := mem u, io_log := io_log u\<rparr>"
      "\<forall>a. 512 * n \<le> unat (a - buf) \<longrightarrow> mem u a = mem s a"
    using Suc unfolding u_def by simp_all
  have t: "t = u\<lparr>mem := mem t, io_log := io_log t\<rparr>"
      "\<forall>a. 512 \<le> unat (a - (buf + 512 * of_nat n)) \<longrightarrow> mem t a = mem u a"
    using sector_frame [of "startc + of_nat n" "buf + 512 * of_nat n" u] unfolding t_def
    by (metis prod.collapse)+
  have "t = s\<lparr>mem := mem t, io_log := io_log t\<rparr>"
    using t(1) u(1) by (metis machine.surjective machine.update_convs)
  moreover have "mem t a = mem s a" if "512 * Suc n \<le> unat (a - buf)" for a
    using that t(2) u(2) Suc.prems by (auto simp: unat_offset_sector)
  ultimately show ?case unfolding cluster_loop_Suc u_def [symmetric] t_def [symmetric] by blast
qed simp

end

interpretation ide_rd: disk_driver ide_read_sector
  by unfold_locales (simp add: ide_read_sector_def)

interpretation ide_wr: disk_driver ide_write_sector
  by unfold_locales (simp add: ide_write_sector_def)

section \<open>A driver that reads a disk\<close>

text \<open>
  \<open>disk lba i\<close> is byte \<open>i\<close> of a sector. A read fills the buffer with the sector and reports
  success.
\<close>

type_synonym disk = "LONG \<Rightarrow> nat \<Rightarrow> BYTE"

definition reads_disk :: "('a machine_scheme) sector_op \<Rightarrow> disk \<Rightarrow> bool" where
  "reads_disk sect disk \<longleftrightarrow> (\<forall>lba buf s. \<exists>l. sect lba buf 1 0 s = (0, s\<lparr>io_log := l,
     mem := (\<lambda>a. if unat (a - buf) < 512 then disk lba (unat (a - buf)) else mem s a)\<rparr>))"

lemma reads_disk_frame:
  assumes "reads_disk sect disk"
  shows "disk_driver sect"
proof
  fix lba buf s v t
  assume t: "sect lba buf 1 0 s = (v, t)"
  obtain l where "sect lba buf 1 0 s = (0, s\<lparr>io_log := l,
      mem := (\<lambda>a. if unat (a - buf) < 512 then disk lba (unat (a - buf)) else mem s a)\<rparr>)"
    using assms unfolding reads_disk_def by blast
  with t have "t = s\<lparr>io_log := l,
      mem := (\<lambda>a. if unat (a - buf) < 512 then disk lba (unat (a - buf)) else mem s a)\<rparr>" by simp
  then show "t = s\<lparr>mem := mem t, io_log := io_log t\<rparr> \<and> (\<forall>a. 512 \<le> unat (a - buf) \<longrightarrow> mem t a = mem s a)"
    by (simp add: not_less)
qed

text \<open>The bytes of a cluster that starts at a sector.\<close>

definition cluster_byte :: "disk \<Rightarrow> LONG \<Rightarrow> nat \<Rightarrow> BYTE" where
  "cluster_byte disk startc k = disk (startc + of_nat (k div 512)) (k mod 512)"

lemma cluster_loop_mem:
  assumes "reads_disk sect disk" and "n \<le> 16"
  shows "mem (cluster_loop sect startc buf n s) a =
    (if unat (a - buf) < 512 * n then cluster_byte disk startc (unat (a - buf)) else mem s a)"
  using assms(2)
proof (induction n)
  case (Suc n)
  define u where "u = cluster_loop sect startc buf n s"
  obtain l where l: "sect (startc + of_nat n) (buf + 512 * of_nat n) 1 0 u = (0, u\<lparr>io_log := l,
     mem := (\<lambda>a. if unat (a - (buf + 512 * of_nat n)) < 512
       then disk (startc + of_nat n) (unat (a - (buf + 512 * of_nat n))) else mem u a)\<rparr>)"
    using assms(1) unfolding reads_disk_def by blast
  have IH: "mem u a = (if unat (a - buf) < 512 * n then cluster_byte disk startc (unat (a - buf))
      else mem s a)"
    using Suc unfolding u_def by simp
  have o: "k div 512 = n \<and> k mod 512 = k - 512 * n" if "512 * n \<le> k" "k < 512 * Suc n" for k
  proof -
    have "k div 512 = n" using that by (intro div_nat_eqI) auto
    then show ?thesis by (metis minus_mult_div_eq_mod)
  qed
  show ?case
    unfolding cluster_loop_Suc u_def [symmetric] l
    using IH o Suc.prems by (auto simp: unat_offset_sector cluster_byte_def)
qed simp

text \<open>A whole cluster: the buffer then holds it, and only the buffer has changed.\<close>

lemma cluster_reads:
  fixes s :: "'a machine_scheme" and startc buf :: LONG
  assumes "reads_disk sect disk"
  defines "u \<equiv> cluster_loop sect startc buf 16 s"
  shows "u = s\<lparr>mem := mem u, io_log := io_log u\<rparr>"
    and "mem u a = (if unat (a - buf) < 8192 then cluster_byte disk startc (unat (a - buf)) else mem s a)"
proof -
  show "u = s\<lparr>mem := mem u, io_log := io_log u\<rparr>"
    using disk_driver.cluster_frame [OF reads_disk_frame [OF assms(1)], of 16] unfolding u_def by blast
  show "mem u a = (if unat (a - buf) < 8192 then cluster_byte disk startc (unat (a - buf)) else mem s a)"
    unfolding u_def by (subst cluster_loop_mem [OF assms(1)]) simp_all
qed

text \<open>Memory apart from a cluster in a buffer.\<close>

definition apart :: "LONG \<Rightarrow> nat \<Rightarrow> LONG \<Rightarrow> bool" where
  "apart p n buf \<longleftrightarrow> (\<forall>k < n. 8192 \<le> unat (p + of_nat k - buf))"

lemma apartD: "apart p n buf \<Longrightarrow> unat (a - p) < n \<Longrightarrow> 8192 \<le> unat (a - buf)"
  unfolding apart_def by (metis add_diff_cancel_left' diff_add_cancel add.commute word_of_nat_unat)

lemma apart_above:
  assumes "unat p = unat buf + d" and "8192 \<le> d" and "d + n < 2 ^ 32"
  shows "apart p n buf"
  unfolding apart_def
proof (intro allI impI)
  fix k
  assume "k < n"
  have "p = buf + of_nat d" using assms(1) by (metis of_nat_add word_of_nat_unat)
  then have "p + of_nat k - buf = of_nat (d + k)" by simp
  then show "8192 \<le> unat (p + of_nat k - buf)"
    using assms \<open>k < n\<close> by (simp only: unat_of_nat_small) (simp add: unat_of_nat_small del: of_nat_add)
qed

text \<open>A driver that reads a given disk, for the examples.\<close>

definition disk_read :: "disk \<Rightarrow> ('a machine_scheme) sector_op" where
  "disk_read disk lba buf count slavebit s = (0, s\<lparr>mem := (\<lambda>a.
     if unat (a - buf) < 512 then disk lba (unat (a - buf)) else mem s a)\<rparr>)"

lemma disk_read_reads: "reads_disk (disk_read disk) disk"
  unfolding reads_disk_def
proof (intro allI)
  fix lba buf and s :: "'a machine_scheme"
  show "\<exists>l. disk_read disk lba buf 1 0 s = (0, s\<lparr>io_log := l,
      mem := (\<lambda>a. if unat (a - buf) < 512 then disk lba (unat (a - buf)) else mem s a)\<rparr>)"
    by (rule exI [of _ "io_log s"]) (simp add: disk_read_def)
qed

section \<open>Comparing names\<close>

text \<open>\<open>strncmp\<close> as a function of the two byte sequences.\<close>

definition bytes_cmp :: "(nat \<Rightarrow> BYTE) \<Rightarrow> (nat \<Rightarrow> BYTE) \<Rightarrow> nat \<Rightarrow> LONG" where
  "bytes_cmp a b n =
     (case find (\<lambda>i. a i \<noteq> b i) [0..<n] of
        None \<Rightarrow> 0
      | Some d \<Rightarrow> if \<exists>z \<in> {4 * (d div 4)..<d}. a z = 0 then 0 else ucast (a d) - ucast (b d))"

lemma strncmp_bytes:
  assumes "4 < n" and "n < 2 ^ 31"
    and "\<And>i. i < n \<Longrightarrow> m (p + of_nat i) = a i" and "\<And>i. i < n \<Longrightarrow> m (q + of_nat i) = b i"
  shows "strncmp m p q (of_nat n) = bytes_cmp a b n"
proof -
  have "find (\<lambda>i. m (p + of_nat i) \<noteq> m (q + of_nat i)) [0..<n] = find (\<lambda>i. a i \<noteq> b i) [0..<n]"
    using assms(3,4) by (intro find_cong) auto
  then have fd: "first_diff m p q n = find (\<lambda>i. a i \<noteq> b i) [0..<n]" by (simp add: first_diff_def)
  show ?thesis
  proof (cases "find (\<lambda>i. a i \<noteq> b i) [0..<n]")
    case None
    then show ?thesis unfolding strncmp_large [OF assms(1,2)] strncmp_spec_def fd bytes_cmp_def by simp
  next
    case (Some d)
    then have d: "d < n" by (auto simp: find_Some_iff)
    then have "(\<exists>z \<in> {4 * (d div 4)..<d}. m (p + of_nat z) = 0) \<longleftrightarrow> (\<exists>z \<in> {4 * (d div 4)..<d}. a z = 0)"
      using assms(3) by (intro bex_cong) auto
    with Some d assms(3,4) show ?thesis
      unfolding strncmp_large [OF assms(1,2)] strncmp_spec_def fd bytes_cmp_def
      by (simp add: byte_diff_def)
  qed
qed

lemma bytes_cmp_cong:
  assumes a: "\<And>i. i < n \<Longrightarrow> a i = a' i" and b: "\<And>i. i < n \<Longrightarrow> b i = b' i"
  shows "bytes_cmp a b n = bytes_cmp a' b' n"
proof -
  have eq: "find (\<lambda>i. a i \<noteq> b i) [0..<n] = find (\<lambda>i. a' i \<noteq> b' i) [0..<n]"
    using assms by (intro find_cong) auto
  show ?thesis
  proof (cases "find (\<lambda>i. a' i \<noteq> b' i) [0..<n]")
    case (Some d)
    then have d: "d < n" by (auto simp: find_Some_iff)
    then have "(\<exists>z \<in> {4 * (d div 4)..<d}. a z = 0) \<longleftrightarrow> (\<exists>z \<in> {4 * (d div 4)..<d}. a' z = 0)"
      using a by (intro bex_cong) auto
    with Some eq d a b show ?thesis by (simp add: bytes_cmp_def)
  qed (simp add: bytes_cmp_def eq)
qed

text \<open>On names padded with NULs the comparison is equality.\<close>

definition nul_padded :: "(nat \<Rightarrow> BYTE) \<Rightarrow> nat \<Rightarrow> bool" where
  "nul_padded a n \<longleftrightarrow> (\<forall>i j. i \<le> j \<longrightarrow> j < n \<longrightarrow> a i = 0 \<longrightarrow> a j = 0)"

lemma bytes_cmp_padded:
  assumes "nul_padded a n" and "nul_padded b n"
  shows "bytes_cmp a b n = 0 \<longleftrightarrow> (\<forall>i < n. a i = b i)"
proof (cases "find (\<lambda>i. a i \<noteq> b i) [0..<n]")
  case None
  then have "\<forall>i < n. a i = b i" by (auto simp: find_None_iff)
  with None show ?thesis by (simp add: bytes_cmp_def)
next
  case (Some d)
  then have d: "d < n" "a d \<noteq> b d" "\<And>z. z < d \<Longrightarrow> a z = b z" by (auto simp: find_Some_iff)
  have "a z \<noteq> 0" if "z < d" for z
    using that d assms unfolding nul_padded_def by (metis less_or_eq_imp_le)
  then have "bytes_cmp a b n = ucast (a d) - ucast (b d)" using Some by (simp add: bytes_cmp_def)
  moreover have "(ucast (a d) :: LONG) \<noteq> ucast (b d)" using d(2) by (metis ucast_up_down_byte)
  ultimately show ?thesis using d by auto
qed

end
