(* ===== verification/Kssfs.thy ===== *)
theory Kssfs
  imports Disk
begin

text \<open>
  The first file system, \<^verbatim>\<open>fs/kssfs.c\<close>: a header sector, then clusters of sixteen sectors,
  each with one file. The buffer \<open>kssfs_buf\<close> is in memory, at the address that the linker
  gave it, the field \<open>kssfs_buf_at\<close>; its header and cluster views are reads at fixed offsets.
  The disk driver is the first argument of the operations that use it.
\<close>

section \<open>Data\<close>

definition KSSFS_SIGNATURE :: LONG where "KSSFS_SIGNATURE = 0x37019626"

record kssfs = network +
  kssfs_lba :: LONG
  kssfs_buf_at :: LONG
  kssfs_clstr_index :: LONG
  kssfs_cluster_n :: LONG
  kssfs_err :: LONG
  kssfs_fn_cache :: "(BYTE list \<times> LONG) list"

definition KSSFS_CLSTR_LBA :: "LONG \<Rightarrow> LONG \<Rightarrow> LONG" where
  "KSSFS_CLSTR_LBA lba n = lba + 1 + n * 16"

text \<open>The fields of the packed structures, as offsets from the buffer.\<close>

definition hdr_signature :: "'a kssfs_scheme \<Rightarrow> LONG" where
  "hdr_signature s = load32 (mem s) (kssfs_buf_at s)"

definition hdr_cluster_n :: "'a kssfs_scheme \<Rightarrow> LONG" where
  "hdr_cluster_n s = load32 (mem s) (kssfs_buf_at s + 4)"

definition load16 :: "memory \<Rightarrow> LONG \<Rightarrow> WORD" where
  "load16 m a = ucast (m a) OR push_bit 8 (ucast (m (a + 1)))"

definition clstr_len :: "'a kssfs_scheme \<Rightarrow> WORD" where
  "clstr_len s = load16 (mem s) (kssfs_buf_at s + 4)"

definition clstr_filename :: "'a kssfs_scheme \<Rightarrow> LONG" where
  "clstr_filename s = kssfs_buf_at s + 6"

definition clstr_data :: "'a kssfs_scheme \<Rightarrow> LONG" where
  "clstr_data s = kssfs_buf_at s + 512"

section \<open>Operations\<close>

definition kssfs_init :: "('a kssfs_scheme) sector_op \<Rightarrow> LONG \<Rightarrow> 'a kssfs_scheme \<Rightarrow>
    (LONG \<times> 'a kssfs_scheme) option" where
  "kssfs_init rd lba s =
     (if kssfs_lba s \<noteq> 0 then Some (0, s)
      else do {
        let s = s\<lparr>kssfs_lba := lba\<rparr>;
        s \<leftarrow> puts (str ''[kssfs] init: reading fs header'' @ [10]) s;
        let (e, s) = rd (kssfs_lba s) (kssfs_buf_at s) 1 0 s;
        if e \<noteq> 0 then do {
          s \<leftarrow> puts (str ''[kssfs] init: read error while reading kssfs_header'' @ [10]) s;
          Some (0, s\<lparr>kssfs_lba := 0\<rparr>)
        }
        else if hdr_signature s \<noteq> KSSFS_SIGNATURE then do {
          s \<leftarrow> puts (str ''[kssfs] init: signature is incorrect'' @ [10]) s;
          Some (0, s\<lparr>kssfs_lba := 0\<rparr>)
        }
        else do {
          let s = s\<lparr>kssfs_cluster_n := hdr_cluster_n s\<rparr>;
          s \<leftarrow> puts (str ''[kssfs] init: header is correct'' @ [10]) s;
          let s = s\<lparr>kssfs_fn_cache := replicate 32 (replicate 256 0, 0)\<rparr>;
          let s = s\<lparr>mem := kmemset (kssfs_buf_at s) 0 8192 (mem s)\<rparr>;
          let s = s\<lparr>kssfs_clstr_index := 0xffffffff\<rparr>;
          s \<leftarrow> puts (str ''[kssfs] init: OK'' @ [10]) s;
          Some (1, s)
        }
      })"

definition kssfs_read_cluster :: "('a kssfs_scheme) sector_op \<Rightarrow> LONG \<Rightarrow> 'a kssfs_scheme \<Rightarrow>
    'a kssfs_scheme" where
  "kssfs_read_cluster rd n s =
     (if kssfs_lba s = 0 then s
      else if n > kssfs_cluster_n s then s
      else if n = kssfs_clstr_index s then s
      else
        (let startc = KSSFS_CLSTR_LBA (kssfs_lba s) n;
             s = cluster_loop rd startc (kssfs_buf_at s) 16 s
         in s\<lparr>kssfs_clstr_index := n\<rparr>))"

definition kssfs_write_cluster :: "('a kssfs_scheme) sector_op \<Rightarrow> LONG \<Rightarrow> LONG \<Rightarrow> 'a kssfs_scheme \<Rightarrow>
    'a kssfs_scheme" where
  "kssfs_write_cluster wr n buf s =
     (if kssfs_lba s = 0 then s
      else if n > kssfs_cluster_n s then s
      else cluster_loop wr (KSSFS_CLSTR_LBA (kssfs_lba s) n) buf 16 s)"

text \<open>The search: \<open>k\<close> clusters are left, the next one is \<open>i\<close>.\<close>

fun kssfs_search :: "('a kssfs_scheme) sector_op \<Rightarrow> LONG \<Rightarrow> LONG \<Rightarrow> nat \<Rightarrow> LONG \<Rightarrow> 'a kssfs_scheme \<Rightarrow>
    LONG \<times> 'a kssfs_scheme" where
  "kssfs_search rd dest filename 0 i s = (0, s)"
| "kssfs_search rd dest filename (Suc k) i s =
     (let s = kssfs_read_cluster rd i s
      in if strncmp (mem s) (clstr_filename s) filename 256 = 0
         then (1, s\<lparr>mem := memcpy dest (clstr_data s) (ucast (clstr_len s)) (mem s)\<rparr>)
         else kssfs_search rd dest filename k (i + 1) s)"

definition kssfs_read_file :: "('a kssfs_scheme) sector_op \<Rightarrow> LONG \<Rightarrow> LONG \<Rightarrow> 'a kssfs_scheme \<Rightarrow>
    LONG \<times> 'a kssfs_scheme" where
  "kssfs_read_file rd dest filename s =
     (if kssfs_lba s = 0 then (0, s)
      else kssfs_search rd dest filename (unat (kssfs_cluster_n s)) 0 s)"

definition kssfs_avail :: "'a kssfs_scheme \<Rightarrow> LONG" where
  "kssfs_avail s = kssfs_lba s"

section \<open>The file system on the disk\<close>

definition disk_long :: "disk \<Rightarrow> LONG \<Rightarrow> nat \<Rightarrow> LONG" where
  "disk_long disk lba i = ucast (disk lba i) OR push_bit 8 (ucast (disk lba (i + 1))) OR
     push_bit 16 (ucast (disk lba (i + 2))) OR push_bit 24 (ucast (disk lba (i + 3)))"

definition kss_byte :: "disk \<Rightarrow> LONG \<Rightarrow> nat \<Rightarrow> nat \<Rightarrow> BYTE" where
  "kss_byte disk lba i k = cluster_byte disk (KSSFS_CLSTR_LBA lba (of_nat i)) k"

definition kss_len :: "disk \<Rightarrow> LONG \<Rightarrow> nat \<Rightarrow> nat" where
  "kss_len disk lba i = unat (kss_byte disk lba i 4) + 256 * unat (kss_byte disk lba i 5)"

definition kss_named :: "disk \<Rightarrow> LONG \<Rightarrow> (nat \<Rightarrow> BYTE) \<Rightarrow> nat \<Rightarrow> bool" where
  "kss_named disk lba name i \<longleftrightarrow> bytes_cmp (\<lambda>k. kss_byte disk lba i (6 + k)) name 256 = 0"

text \<open>
  A mounted file system. The buffer is a cache of the cluster \<open>kssfs_clstr_index\<close>, or that
  index is out of range.
\<close>

definition buf_holds :: "disk \<Rightarrow> nat \<Rightarrow> 'a kssfs_scheme \<Rightarrow> bool" where
  "buf_holds disk i s \<longleftrightarrow>
     (\<forall>a. unat (a - kssfs_buf_at s) < 8192 \<longrightarrow>
        mem s a = kss_byte disk (kssfs_lba s) i (unat (a - kssfs_buf_at s)))"

definition kssfs_ok :: "disk \<Rightarrow> 'a kssfs_scheme \<Rightarrow> bool" where
  "kssfs_ok disk s \<longleftrightarrow> kssfs_lba s \<noteq> 0 \<and> kssfs_cluster_n s < 0xffffffff \<and>
     (kssfs_clstr_index s \<le> kssfs_cluster_n s \<longrightarrow> buf_holds disk (unat (kssfs_clstr_index s)) s)"

definition same_fs :: "'a kssfs_scheme \<Rightarrow> 'a kssfs_scheme \<Rightarrow> bool" where
  "same_fs s t \<longleftrightarrow> kssfs_lba t = kssfs_lba s \<and> kssfs_cluster_n t = kssfs_cluster_n s \<and>
     kssfs_buf_at t = kssfs_buf_at s"

lemma same_fs_refl [simp]: "same_fs s s"
  by (simp add: same_fs_def)

lemma same_fs_trans: "same_fs s t \<Longrightarrow> same_fs t u \<Longrightarrow> same_fs s u"
  by (simp add: same_fs_def)

text \<open>Reading a cluster makes the buffer hold it and changes nothing but the buffer.\<close>

lemma read_cluster_holds:
  assumes rd: "reads_disk rd disk" and ok: "kssfs_ok disk s" and n: "n \<le> kssfs_cluster_n s"
  defines "t \<equiv> kssfs_read_cluster rd n s"
  shows "kssfs_ok disk t" "buf_holds disk (unat n) t" "same_fs s t"
    "\<And>a. 8192 \<le> unat (a - kssfs_buf_at s) \<Longrightarrow> mem t a = mem s a"
proof -
  define u where "u = cluster_loop rd (KSSFS_CLSTR_LBA (kssfs_lba s) n) (kssfs_buf_at s) 16 s"
  note u = cluster_reads(1) [OF rd, of "KSSFS_CLSTR_LBA (kssfs_lba s) n" "kssfs_buf_at s" s, folded u_def]
  note m = cluster_reads(2) [OF rd, of "KSSFS_CLSTR_LBA (kssfs_lba s) n" "kssfs_buf_at s" s, folded u_def]
  have fs: "kssfs_lba u = kssfs_lba s" "kssfs_cluster_n u = kssfs_cluster_n s"
      "kssfs_buf_at u = kssfs_buf_at s"
    by (subst u, simp)+
  have t: "t = (if n = kssfs_clstr_index s then s else u\<lparr>kssfs_clstr_index := n\<rparr>)"
    using ok n by (auto simp: t_def kssfs_read_cluster_def kssfs_ok_def u_def Let_def)
  have hold: "buf_holds disk (unat n) t"
    using ok n t fs m by (auto simp: buf_holds_def kssfs_ok_def kss_byte_def word_of_nat_unat)
  then show "buf_holds disk (unat n) t" .
  show "same_fs s t" using fs t by (simp add: same_fs_def)
  then show "kssfs_ok disk t" using ok t hold by (auto simp: kssfs_ok_def same_fs_def)
  show "mem t a = mem s a" if "8192 \<le> unat (a - kssfs_buf_at s)" for a
    using that t m by (simp add: not_less)
qed

text \<open>The fields of the cluster in the buffer.\<close>

lemma held_byte: "buf_holds disk i s \<Longrightarrow> k < 8192 \<Longrightarrow>
    mem s (kssfs_buf_at s + of_nat k) = kss_byte disk (kssfs_lba s) i k"
  by (simp add: buf_holds_def unat_of_nat_small)

lemma held_name: "buf_holds disk i s \<Longrightarrow> k < 256 \<Longrightarrow>
    mem s (clstr_filename s + of_nat k) = kss_byte disk (kssfs_lba s) i (6 + k)"
  using held_byte [of disk i s "6 + k"] by (simp add: clstr_filename_def add.assoc)

lemma unat_load16: "unat (load16 m a) = unat (m a) + 256 * unat (m (a + 1))"
proof -
  have "load16 m a = ucast (m a) + push_bit 8 (ucast (m (a + 1)))"
    unfolding load16_def
    by (rule disjunctive_add_eq_or [symmetric], rule bit_word_eqI)
      (auto simp: bit_simps dest: bit_imp_le_length)
  also have "\<dots> = of_nat (unat (m a) + 256 * unat (m (a + 1)))"
    by (simp add: push_bit_eq_mult mult.commute)
  finally have eq: "load16 m a = of_nat (unat (m a) + 256 * unat (m (a + 1)))" .
  show ?thesis
    unfolding eq using unat_bounds(1) [of "m a"] unat_bounds(1) [of "m (a + 1)"]
    by (intro unat_of_nat_small) simp
qed

lemma held_len: "buf_holds disk i s \<Longrightarrow> unat (clstr_len s) = kss_len disk (kssfs_lba s) i"
  using held_byte [of disk i s 4] held_byte [of disk i s 5]
  by (simp add: clstr_len_def unat_load16 kss_len_def add.assoc)

section \<open>Reading a file\<close>

text \<open>
  The search gives the first cluster whose name matches, with its data copied; the rest of
  the memory outside the buffer is kept.
\<close>

definition found :: "disk \<Rightarrow> LONG \<Rightarrow> nat option \<Rightarrow> 'a kssfs_scheme \<Rightarrow> LONG \<times> 'a kssfs_scheme \<Rightarrow> bool" where
  "found disk dest r s = (\<lambda>(v, t).
     (case r of
        None \<Rightarrow> v = 0 \<and> (\<forall>a. 8192 \<le> unat (a - kssfs_buf_at s) \<longrightarrow> mem t a = mem s a)
      | Some i \<Rightarrow>
          v = 1 \<and>
          (\<forall>k < kss_len disk (kssfs_lba s) i.
             mem t (dest + of_nat k) = kss_byte disk (kssfs_lba s) i (512 + k)) \<and>
          (\<forall>a. 8192 \<le> unat (a - kssfs_buf_at s) \<longrightarrow> kss_len disk (kssfs_lba s) i \<le> unat (a - dest) \<longrightarrow>
             mem t a = mem s a)))"

lemma copy_file:
  assumes hold: "buf_holds disk i s" and len: "kss_len disk (kssfs_lba s) i \<le> 7680"
    and dest: "apart dest 7680 (kssfs_buf_at s)"
  defines "m \<equiv> memcpy dest (clstr_data s) (ucast (clstr_len s)) (mem s)"
  shows "m a = (if unat (a - dest) < kss_len disk (kssfs_lba s) i
      then kss_byte disk (kssfs_lba s) i (512 + unat (a - dest)) else mem s a)"
proof -
  let ?l = "kss_len disk (kssfs_lba s) i"
  have l: "unat (ucast (clstr_len s) :: LONG) = ?l"
    using held_len [OF hold] unat_bounds(2) [of "clstr_len s"] by (simp add: unat_ucast_long)
  have "8192 \<le> unat (dest - kssfs_buf_at s)" using dest unfolding apart_def by (elim allE [of _ 0]) simp
  moreover have "clstr_data s = kssfs_buf_at s + of_nat 512" by (simp add: clstr_data_def)
  ultimately have "?l \<le> unat (dest - clstr_data s)"
    using len unat_offset_sub [of 512 dest "kssfs_buf_at s"] by simp
  then have "m a = (if unat (a - dest) < ?l then mem s (clstr_data s + (a - dest)) else mem s a)"
    unfolding m_def memcpy_def l using len by (intro memcpy_loop_apply) auto
  moreover have "mem s (clstr_data s + (a - dest)) = kss_byte disk (kssfs_lba s) i (512 + unat (a - dest))"
    if "unat (a - dest) < ?l"
    using held_byte [OF hold, of "512 + unat (a - dest)"] that len
    by (simp add: clstr_data_def add.assoc word_of_nat_unat)
  ultimately show ?thesis by simp
qed

lemma search_finds:
  assumes rd: "reads_disk rd disk"
    and fname: "\<And>k. k < 256 \<Longrightarrow> 8192 \<le> unat (filename + of_nat k - kssfs_buf_at s)"
    and dest: "apart dest 7680 (kssfs_buf_at s)"
    and len: "\<And>j. j < i + n \<Longrightarrow> kss_len disk (kssfs_lba s) j \<le> 7680"
    and ok: "kssfs_ok disk s" and n: "i + n \<le> unat (kssfs_cluster_n s)"
  shows "found disk dest
      (find (kss_named disk (kssfs_lba s) (\<lambda>k. mem s (filename + of_nat k))) [i..<i + n]) s
      (kssfs_search rd dest filename n (of_nat i) s) \<and>
    kssfs_ok disk (snd (kssfs_search rd dest filename n (of_nat i) s))"
  using fname dest len ok n
proof (induction n arbitrary: i s)
  case 0
  then show ?case by (simp add: found_def)
next
  case (Suc n)
  let ?P = "kss_named disk (kssfs_lba s) (\<lambda>k. mem s (filename + of_nat k))"
  define t where "t = kssfs_read_cluster rd (of_nat i) s"
  have i: "unat (of_nat i :: LONG) = i"
    using Suc.prems(5) unat_bounds(3) [of "kssfs_cluster_n s"] by (simp add: unat_of_nat_small)
  have "of_nat i \<le> kssfs_cluster_n s" using Suc.prems(5) i by (simp add: word_le_nat_alt)
  note t = read_cluster_holds [OF rd Suc.prems(4) this, folded t_def, unfolded i]
  have fs: "kssfs_lba t = kssfs_lba s" "kssfs_cluster_n t = kssfs_cluster_n s"
      "kssfs_buf_at t = kssfs_buf_at s"
    using t(3) by (simp_all add: same_fs_def)
  have name: "mem t (filename + of_nat k) = mem s (filename + of_nat k)" if "k < 256" for k
    using Suc.prems(1) that by (intro t(4)) simp
  have cmp: "strncmp (mem t) (clstr_filename t) filename 256 = 0 \<longleftrightarrow> ?P i"
    using strncmp_bytes [of 256 "mem t" "clstr_filename t" "\<lambda>k. kss_byte disk (kssfs_lba s) i (6 + k)"
        filename "\<lambda>k. mem s (filename + of_nat k)"] name held_name [OF t(2)] fs(1)
    by (simp add: kss_named_def)
  have upt: "[i..<i + Suc n] = i # [Suc i..<Suc i + n]" by (simp add: upt_conv_Cons)
  show ?case
  proof (cases "?P i")
    case True
    let ?m = "memcpy dest (clstr_data t) (ucast (clstr_len t)) (mem t)"
    note copy = copy_file [OF t(2), of dest, unfolded fs]
    have len: "kss_len disk (kssfs_lba s) i \<le> 7680" using Suc.prems(3) by simp
    have res: "kssfs_search rd dest filename (Suc n) (of_nat i) s = (1, t\<lparr>mem := ?m\<rparr>)"
      using True cmp by (simp add: t_def [symmetric] Let_def)
    have keep: "?m a = mem t a" if "unat (a - kssfs_buf_at s) < 8192" for a
      using copy [OF len Suc.prems(2)] that apartD [OF Suc.prems(2), of a] len by auto
    have "kssfs_ok disk (t\<lparr>mem := ?m\<rparr>)"
      using t(1) keep unfolding kssfs_ok_def buf_holds_def by (auto simp: fs)
    moreover have "found disk dest (Some i) s (1, t\<lparr>mem := ?m\<rparr>)"
      using copy [OF len Suc.prems(2)] t(4) len
      by (auto simp: found_def unat_of_nat_small)
    ultimately show ?thesis unfolding res upt using True by simp
  next
    case False
    have res: "kssfs_search rd dest filename (Suc n) (of_nat i) s =
        kssfs_search rd dest filename n (of_nat (Suc i)) t"
      using False cmp by (simp add: t_def [symmetric] Let_def add.commute)
    have P: "kss_named disk (kssfs_lba s) (\<lambda>k. mem t (filename + of_nat k)) = ?P"
      unfolding kss_named_def using bytes_cmp_cong [OF refl name] by simp
    have "found disk dest (find ?P [Suc i..<Suc i + n]) t
        (kssfs_search rd dest filename n (of_nat (Suc i)) t) \<and>
      kssfs_ok disk (snd (kssfs_search rd dest filename n (of_nat (Suc i)) t))"
      using Suc.IH [of t "Suc i"] Suc.prems t(1) unfolding fs P by simp
    then show ?thesis
      unfolding res upt using False t(4) fs
      by (auto simp: found_def split: option.splits)
  qed
qed

text \<open>A disk with one file, a driver that reads it and a mounted file system, for the examples.\<close>

definition kss_disk :: disk where
  "kss_disk lba i =
     (if lba = 100 \<and> i < 8 then [0x26, 0x96, 0x01, 0x37, 2, 0, 0, 0] ! i
      else if lba = 117 \<and> i = 4 then 3
      else if lba = 117 \<and> 6 \<le> i \<and> i < 10 then str ''init'' ! (i - 6)
      else if lba = 118 \<and> i < 3 then str ''KOM'' ! i
      else 0)"

definition kss0 :: kssfs where
  "kss0 = network.extend net0 \<lparr>kssfs_lba = 0, kssfs_buf_at = 0x300000, kssfs_clstr_index = 0,
     kssfs_cluster_n = 0, kssfs_err = 0, kssfs_fn_cache = replicate 32 (replicate 256 0, 0)\<rparr>"

text \<open>
  C8: On a mounted file system and with a driver that reads the disk, \<open>kssfs_read_file\<close> looks
  for the name in the clusters in their order. With a cluster whose name \<open>strncmp\<close> finds
  equal it returns 1 and has copied the data of the first such cluster, of the length in its
  header, to the destination; otherwise it returns 0. Outside the buffer and the copy the
  memory is kept, and the file system stays mounted with a consistent cache. The name and the
  destination must not overlap the buffer, and the lengths must not exceed a cluster.
\<close>

theorem kssfs_read_file_finds:
  assumes "reads_disk rd disk" and "kssfs_ok disk s"
    and "apart filename 256 (kssfs_buf_at s)" and "apart dest 7680 (kssfs_buf_at s)"
    and "\<forall>i < unat (kssfs_cluster_n s). kss_len disk (kssfs_lba s) i \<le> 7680"
  shows "found disk dest (find (kss_named disk (kssfs_lba s) (\<lambda>k. mem s (filename + of_nat k)))
      [0..<unat (kssfs_cluster_n s)]) s (kssfs_read_file rd dest filename s) \<and>
    kssfs_ok disk (snd (kssfs_read_file rd dest filename s))"
  using search_finds [OF assms(1) _ assms(4), of filename 0 "unat (kssfs_cluster_n s)"] assms(2,3,5)
  by (simp add: kssfs_read_file_def kssfs_ok_def apart_def)

definition kss1 :: kssfs where
  "kss1 = kss0\<lparr>kssfs_lba := 100, kssfs_cluster_n := 2, kssfs_clstr_index := 0xffffffff,
     mem := (\<lambda>a. if unat (a - 0x400000) < 4 then str ''init'' ! unat (a - 0x400000) else 0)\<rparr>"

lemma kss1_simps [simp]:
  "kssfs_lba kss1 = 100" "kssfs_cluster_n kss1 = 2" "kssfs_clstr_index kss1 = 0xffffffff"
  "kssfs_buf_at kss1 = 0x300000"
  "mem kss1 = (\<lambda>a. if unat (a - 0x400000) < 4 then str ''init'' ! unat (a - 0x400000) else 0)"
  by (simp_all add: kss1_def kss0_def network.defs)

theorem kssfs_read_file_finds_witness:
  "\<exists>t. kssfs_read_file (disk_read kss_disk) 0x3D09000 0x400000 kss1 = (1, t) \<and>
     mem t 0x3D09000 = of_char CHR ''K''"
proof -
  have "find (kss_named kss_disk 100 (\<lambda>k. mem kss1 (0x400000 + of_nat k))) [0..<2] = Some 1"
    unfolding kss1_simps by code_simp
  moreover have "kssfs_ok kss_disk kss1" by (simp add: kssfs_ok_def)
  moreover have "apart 0x400000 256 (kssfs_buf_at kss1)" "apart 0x3D09000 7680 (kssfs_buf_at kss1)"
    by (rule apart_above [where d = "0x100000"], simp_all,
        rule apart_above [where d = "0x3A09000"], simp_all)
  moreover have "kss_len kss_disk 100 0 = 0" "kss_len kss_disk 100 1 = 3" by code_simp+
  then have "\<forall>i < unat (kssfs_cluster_n kss1). kss_len kss_disk (kssfs_lba kss1) i \<le> 7680"
    by (auto simp: less_2_cases_iff)
  moreover have "kss_byte kss_disk 100 1 512 = of_char CHR ''K''" by code_simp
  ultimately show ?thesis
    using kssfs_read_file_finds [OF disk_read_reads, of kss_disk kss1 "0x400000" "0x3D09000"]
      \<open>kss_len kss_disk 100 1 = 3\<close>
    by (auto simp: found_def dest: spec [of _ 0] split: prod.splits)
qed

section \<open>Mounting\<close>

lemma tty_step_kssfs:
  "tty_step s t \<Longrightarrow> tty_ready t \<and> mem t = mem s \<and> kssfs_lba t = kssfs_lba s \<and>
     kssfs_buf_at t = kssfs_buf_at s \<and> kssfs_cluster_n t = kssfs_cluster_n s \<and>
     kssfs_clstr_index t = kssfs_clstr_index s"
  by (auto simp: tty_step_def elim!: printedE)

lemma tty_ready_mem [simp]: "tty_ready (s\<lparr>mem := m\<rparr>) = tty_ready s" "tty_ready (s\<lparr>io_log := l\<rparr>) = tty_ready s"
  by (simp_all add: tty_ready_def)



text \<open>
  C12: With the driver of this tree no file system is ever mounted. \<open>ide_read_sector\<close> reports
  success and reads nothing, so that the signature is looked for in the buffer as it is, and
  from a buffer of zeros every call fails and leaves the buffer so.
\<close>

theorem kssfs_init_stub_fails:
  assumes "tty_ready s" and "kssfs_lba s = 0" and "hdr_signature s = 0"
  shows "\<exists>t. kssfs_init ide_read_sector lba s = Some (0, t) \<and> kssfs_avail t = 0 \<and>
    tty_ready t \<and> hdr_signature t = 0"
proof -
  obtain u where u: "puts (str ''[kssfs] init: reading fs header'' @ [10]) (s\<lparr>kssfs_lba := lba\<rparr>) = Some u"
      "tty_step (s\<lparr>kssfs_lba := lba\<rparr>) u"
    using puts_tty_step [of "s\<lparr>kssfs_lba := lba\<rparr>"] assms(1) by (auto simp: tty_ready_def)
  note tu = tty_step_kssfs [OF u(2)]
  then obtain t where t: "puts (str ''[kssfs] init: signature is incorrect'' @ [10]) u = Some t" "tty_step u t"
    using puts_tty_step by blast
  note tt = tty_step_kssfs [OF t(2)]
  have "hdr_signature u = 0" using tu assms(3) by (simp add: hdr_signature_def)
  then have "kssfs_init ide_read_sector lba s = Some (0, t\<lparr>kssfs_lba := 0\<rparr>)"
    using assms(2) u(1) t(1)
    by (simp add: kssfs_init_def ide_read_sector_def KSSFS_SIGNATURE_def Let_def del: str_simps)
  then show ?thesis
    using tt tu assms(3) by (auto simp: kssfs_avail_def hdr_signature_def tty_ready_def)
qed

theorem kssfs_init_stub_fails_witness:
  "\<exists>t. kssfs_init ide_read_sector 100 kss0 = Some (0, t)"
  using kssfs_init_stub_fails [of kss0 100]
  by (auto simp: kss0_def network.defs tty_ready_def hdr_signature_def load32_def)

end
