(* ===== verification/Multiboot.thy ===== *)
theory Multiboot
  imports Disk Syscall
begin

text \<open>
  The boot information and the kernel command line, \<^verbatim>\<open>kernel/multiboot.c\<close> and
  \<^verbatim>\<open>kernel/cmdline.c\<close>. The tags, the command line, the buffer for one argument, the table
  of commands and the literals that the arguments are compared with are all in memory; the
  addresses that the compiler and the linker choose are the record \<open>cmdline_syms\<close>. A loop that
  looks for a NUL or for the last tag may not end.
\<close>

section \<open>Data\<close>

datatype cmdline_func = Cmdline_serial | Cmdline_network

record cmdline_syms =
  cmds_at :: LONG   \<comment> \<open>the table \<open>cmdline_cmds\<close>\<close>
  true_at :: LONG
  false_at :: LONG
  argbuf_at :: LONG \<comment> \<open>the local array \<open>buf\<close>\<close>

text \<open>The functions of the table; its entry after them has the empty name.\<close>

definition cmdline_cmds :: "cmdline_func list" where
  "cmdline_cmds = [Cmdline_serial, Cmdline_network]"

definition MULTIBOOT_TAG_TYPE_END :: LONG where "MULTIBOOT_TAG_TYPE_END = 0"
definition MULTIBOOT_TAG_TYPE_CMDLINE :: LONG where "MULTIBOOT_TAG_TYPE_CMDLINE = 1"
definition MULTIBOOT_TAG_TYPE_MMAP :: LONG where "MULTIBOOT_TAG_TYPE_MMAP = 6"

section \<open>cmdline.c\<close>

definition cmdline_serial :: "cmdline_syms \<Rightarrow> LONG \<Rightarrow> 'a network_scheme \<Rightarrow> 'a network_scheme option" where
  "cmdline_serial A arg s =
     (if strncmp (mem s) arg (true_at A) 128 \<noteq> 0 then Some s
      else serial_setup_port 0 (serial_setup s))"

definition cmdline_network :: "cmdline_syms \<Rightarrow> LONG \<Rightarrow> 'a network_scheme \<Rightarrow> 'a network_scheme option" where
  "cmdline_network A arg s =
     (if strncmp (mem s) arg (false_at A) 128 \<noteq> 0 then Some s else Some (network_disable s))"

fun cmdline_call :: "cmdline_syms \<Rightarrow> cmdline_func \<Rightarrow> LONG \<Rightarrow> 'a network_scheme \<Rightarrow> 'a network_scheme option" where
  "cmdline_call A Cmdline_serial arg s = cmdline_serial A arg s"
| "cmdline_call A Cmdline_network arg s = cmdline_network A arg s"

section \<open>multiboot.c\<close>

text \<open>
  The scan for the argument: the character is looked at before the end is tested. The result
  is the address after the last colon, or 0.
\<close>

partial_function (option) split_arg :: "LONG \<Rightarrow> LONG \<Rightarrow> memory \<Rightarrow> (LONG \<times> memory) option" where
  "split_arg cc arg m =
     (let (m, arg) = (if m cc = 58 then (m(cc := 0), cc + 1) else (m, arg));
          cc = cc + 1
      in if m cc \<noteq> 0 then split_arg cc arg m else Some (arg, m))"

fun cmdline_lookup :: "cmdline_syms \<Rightarrow> cmdline_func list \<Rightarrow> LONG \<Rightarrow> LONG \<Rightarrow> LONG \<Rightarrow> 'a network_scheme \<Rightarrow>
    'a network_scheme option" where
  "cmdline_lookup A [] c cmd arg s = (if mem s c \<noteq> 0 then None else Some s)"
| "cmdline_lookup A (f # fs) c cmd arg s =
     (if mem s c = 0 then Some s
      else if strncmp (mem s) cmd c 128 = 0 then cmdline_call A f arg s
      else cmdline_lookup A fs (c + 132) cmd arg s)"

definition cmdline_process :: "cmdline_syms \<Rightarrow> LONG \<Rightarrow> 'a network_scheme \<Rightarrow> 'a network_scheme option" where
  "cmdline_process A cmd s = do {
     (arg, m) \<leftarrow> split_arg cmd 0 (mem s);
     let s = s\<lparr>mem := m\<rparr>;
     cmdline_lookup A cmdline_cmds (cmds_at A) cmd arg s
   }"

text \<open>One word of the command line, from \<open>sc\<close> up to \<open>cc\<close>, through the buffer of 256 bytes.\<close>

definition cmdline_word :: "cmdline_syms \<Rightarrow> LONG \<Rightarrow> LONG \<Rightarrow> 'a network_scheme \<Rightarrow> 'a network_scheme option" where
  "cmdline_word A sc cc s =
     (if 256 \<le> unat (cc - sc) then None
      else
        (let m = memcpy (argbuf_at A) sc (cc - sc) (mem s);
             m = m(argbuf_at A + (cc - sc) := 0)
         in cmdline_process A (argbuf_at A) (s\<lparr>mem := m\<rparr>)))"

partial_function (option) cmdline_words :: "cmdline_syms \<Rightarrow> LONG \<Rightarrow> LONG \<Rightarrow> 'a network_scheme \<Rightarrow>
    'a network_scheme option" where
  "cmdline_words A sc cc s = do {
     (sc, s) \<leftarrow> (if mem s cc = 32 then do { s \<leftarrow> cmdline_word A sc cc s; Some (cc + 1, s) } else Some (sc, s));
     let cc = cc + 1;
     if mem s cc \<noteq> 0 then cmdline_words A sc cc s else cmdline_word A sc cc s
   }"

definition load64 :: "memory \<Rightarrow> LONG \<Rightarrow> QUAD" where
  "load64 m a = ucast (load32 m a) OR push_bit 32 (ucast (load32 m (a + 4)))"

definition mmap_entry_at :: "memory \<Rightarrow> LONG \<Rightarrow> mmap_entry" where
  "mmap_entry_at m a = \<lparr>me_addr = load64 m a, me_len = load64 m (a + 8), me_type = load32 m (a + 16)\<rparr>"

definition mmap_at :: "memory \<Rightarrow> LONG \<Rightarrow> LONG \<Rightarrow> mmap_entry list" where
  "mmap_at m a n = map (\<lambda>i. mmap_entry_at m (a + 24 * of_nat i)) [0..<unat n]"

definition tag_type :: "memory \<Rightarrow> LONG \<Rightarrow> LONG" where "tag_type m tag = load32 m tag"
definition tag_size :: "memory \<Rightarrow> LONG \<Rightarrow> LONG" where "tag_size m tag = load32 m (tag + 4)"

definition tag_next :: "memory \<Rightarrow> LONG \<Rightarrow> LONG" where
  "tag_next m tag = tag + ((tag_size m tag + 7) AND NOT 7)"

definition multiboot_tag :: "cmdline_syms \<Rightarrow> LONG \<Rightarrow> 'a network_scheme \<Rightarrow> 'a network_scheme option" where
  "multiboot_tag A tag s = do {
     let s = s\<lparr>mem := kmemset (argbuf_at A) 0 32 (mem s)\<rparr>;
     if tag_type (mem s) tag = MULTIBOOT_TAG_TYPE_CMDLINE then do {
       let cmdline = tag + 8;
       s \<leftarrow> puts (str ''Kernel command line: '') s;
       txt \<leftarrow> cstr (mem s) cmdline;
       s \<leftarrow> puts txt s;
       s \<leftarrow> puts [10] s;
       cmdline_words A cmdline cmdline s
     }
     else if tag_type (mem s) tag = MULTIBOOT_TAG_TYPE_MMAP then
       mmgmt_init (mmap_at (mem s) (tag + 16) ((tag_size (mem s) tag - 16) div 24)) s
     else Some s
   }"

partial_function (option) multiboot_tags :: "cmdline_syms \<Rightarrow> LONG \<Rightarrow> 'a network_scheme \<Rightarrow>
    'a network_scheme option" where
  "multiboot_tags A tag s =
     (if tag_type (mem s) tag = MULTIBOOT_TAG_TYPE_END then Some s
      else do {
        s \<leftarrow> multiboot_tag A tag s;
        multiboot_tags A (tag_next (mem s) tag) s
      })"

definition multiboot_process :: "cmdline_syms \<Rightarrow> LONG \<Rightarrow> 'a network_scheme \<Rightarrow> 'a network_scheme option" where
  "multiboot_process A address s = multiboot_tags A (address + 8) s"

section \<open>One argument\<close>

text \<open>
  A word with a command and an argument: the scan puts a NUL between the two and finds the
  argument.
\<close>

lemma split_arg_none:
  assumes "\<And>i. i < n \<Longrightarrow> m (cc + of_nat i) \<notin> {0, 58}" and "m (cc + of_nat n) = 0" and "0 < n"
  shows "split_arg cc arg m = Some (arg, m)"
  using assms
proof (induction n arbitrary: cc)
  case (Suc n)
  have cc: "m cc \<noteq> 58" using Suc.prems(1) [of 0] by simp
  show ?case
  proof (cases n)
    case 0
    with Suc.prems cc show ?thesis by (simp add: split_arg.simps [of cc])
  next
    case (Suc k)
    then have "m (cc + 1) \<noteq> 0" using Suc.prems(1) [of 1] by simp
    moreover have "split_arg (cc + 1) arg m = Some (arg, m)"
      using Suc.prems(1) [of "Suc i" for i] Suc.prems(2) Suc
      by (intro Suc.IH) (auto simp: add.assoc)
    ultimately show ?thesis using cc by (simp add: split_arg.simps [of cc])
  qed
qed simp

lemma split_arg_word:
  assumes "\<And>i. i < n \<Longrightarrow> m (cc + of_nat i) \<notin> {0, 58}" and "m (cc + of_nat n) = 58"
    and "\<And>i. i < k \<Longrightarrow> m (cc + of_nat (n + 1 + i)) \<notin> {0, 58}" and "m (cc + of_nat (n + 1 + k)) = 0"
    and "0 < k" and "n + 1 + k < 2 ^ 32"
  shows "split_arg cc arg m = Some (cc + of_nat (n + 1), m(cc + of_nat n := 0))"
  using assms
proof (induction n arbitrary: cc arg)
  case 0
  let ?m = "m(cc := 0)"
  have ne: "cc + of_nat (Suc i) \<noteq> cc" if "i \<le> k" for i
  proof
    assume "cc + of_nat (Suc i) = cc"
    then have "(of_nat (Suc i) :: LONG) = 0" by (metis add_cancel_right_right)
    moreover have "unat (of_nat (Suc i) :: LONG) = Suc i"
      using that 0(6) by (intro unat_of_nat_small) simp
    ultimately show False by simp
  qed
  have "split_arg (cc + 1) (cc + 1) ?m = Some (cc + 1, ?m)"
    using 0(3,4,5) ne by (intro split_arg_none [of k]) (auto simp: add.assoc)
  moreover have "?m (cc + 1) \<noteq> 0" using 0(3) [of 0] 0(5) ne [of 0] by simp
  ultimately show ?case using 0(2) by (simp add: split_arg.simps [of cc] fun_upd_def)
next
  case (Suc n)
  have cc: "m cc \<noteq> 58" using Suc.prems(1) [of 0] by simp
  have "m (cc + 1) \<noteq> 0" using Suc.prems(1) [of 1] Suc.prems(2) by (cases n) auto
  moreover have "split_arg (cc + 1) arg m = Some (cc + 1 + of_nat (n + 1), m(cc + 1 + of_nat n := 0))"
    using Suc.prems(1) [of "Suc i" for i] Suc.prems(2-6)
    by (intro Suc.IH) (auto simp: add.assoc add.left_commute)
  ultimately show ?case using cc by (simp add: split_arg.simps [of cc] add.assoc fun_upd_def)
qed

section \<open>The commands\<close>

text \<open>\<open>strncmp\<close> at the first difference: it is 0 only when a NUL stands before it in the same word.\<close>

lemma strncmp_zero_iff:
  assumes "4 < n" and "n < 2 ^ 31" and "d < n" and "m (p + of_nat d) \<noteq> m (q + of_nat d)"
    and "\<And>i. i < d \<Longrightarrow> m (p + of_nat i) = m (q + of_nat i)"
  shows "strncmp m p q (of_nat n) = 0 \<longleftrightarrow> (\<exists>z \<in> {4 * (d div 4)..<d}. m (p + of_nat z) = 0)"
proof -
  have "first_diff m p q n = Some d" using assms by (simp add: first_diff_Some)
  moreover have "byte_diff m (p + of_nat d) (q + of_nat d) \<noteq> 0"
    using assms(4) by (simp add: byte_diff_def) (metis ucast_up_down_byte)
  ultimately show ?thesis unfolding strncmp_large [OF assms(1,2)] strncmp_spec_def by simp
qed

definition text_at :: "memory \<Rightarrow> LONG \<Rightarrow> BYTE list \<Rightarrow> bool" where
  "text_at m p cs \<longleftrightarrow> (\<forall>i < length cs. m (p + of_nat i) = cs ! i)"

lemma text_at_Cons: "text_at m p (c # cs) \<longleftrightarrow> m p = c \<and> text_at m (p + 1) cs"
  by (auto simp: text_at_def less_Suc_eq_0_disj add.assoc)

lemma text_at_Nil [simp]: "text_at m p []"
  by (simp add: text_at_def)

lemma text_at_upd: "length cs \<le> unat (a - p) \<Longrightarrow> text_at (m(a := x)) p cs = text_at m p cs"
proof -
  assume a: "length cs \<le> unat (a - p)"
  have "p + of_nat i \<noteq> a" if "i < length cs" for i
  proof
    assume "p + of_nat i = a"
    then have "unat (a - p) = unat (of_nat i :: LONG)" by (metis add_diff_cancel_left')
    then have "unat (a - p) \<le> i" by (simp add: unat_of_nat)
    with a that show False by simp
  qed
  then show ?thesis by (simp add: text_at_def)
qed

text \<open>
  The table as it is initialised: each name fills its array of 128 bytes with NULs, and the
  pointer to its function follows; \<open>f\<close> and \<open>g\<close> are the addresses of the two functions. The name of
  the last entry starts with a NUL.
\<close>

definition pointer_bytes :: "LONG \<Rightarrow> BYTE list" where
  "pointer_bytes p = [ucast p, ucast (drop_bit 8 p), ucast (drop_bit 16 p), ucast (drop_bit 24 p)]"

definition cmdline_table :: "LONG \<Rightarrow> LONG \<Rightarrow> BYTE list" where
  "cmdline_table f g = str ''serial'' @ replicate 122 0 @ pointer_bytes f @
     str ''network'' @ replicate 121 0 @ pointer_bytes g @ [0]"

lemma length_table: "length (pointer_bytes p) = 4" "length (cmdline_table f g) = 265"
  by (simp_all add: cmdline_table_def pointer_bytes_def)

lemma cmdline_table_nth:
  assumes "text_at m (cmds_at A) (cmdline_table f g)"
  shows "i < 6 \<Longrightarrow> m (cmds_at A + of_nat i) = str ''serial'' ! i"
    and "6 \<le> i \<Longrightarrow> i < 128 \<Longrightarrow> m (cmds_at A + of_nat i) = 0"
    and "i < 7 \<Longrightarrow> m (cmds_at A + 132 + of_nat i) = str ''network'' ! i"
    and "7 \<le> i \<Longrightarrow> i < 128 \<Longrightarrow> m (cmds_at A + 132 + of_nat i) = 0"
    and "m (cmds_at A + 264) = 0"
proof -
  have *: "m (cmds_at A + of_nat i) = cmdline_table f g ! i" if "i < 265" for i
    using assms that by (simp add: text_at_def length_table)
  note nth = cmdline_table_def nth_append length_table
  show "i < 6 \<Longrightarrow> m (cmds_at A + of_nat i) = str ''serial'' ! i"
    using * [of i] by (simp add: nth del: str_simps)
  show "6 \<le> i \<Longrightarrow> i < 128 \<Longrightarrow> m (cmds_at A + of_nat i) = 0"
    using * [of i] by (auto simp: nth simp del: str_simps)
  show "i < 7 \<Longrightarrow> m (cmds_at A + 132 + of_nat i) = str ''network'' ! i"
    using * [of "132 + i"] by (simp add: nth add.assoc del: str_simps)
  show "7 \<le> i \<Longrightarrow> i < 128 \<Longrightarrow> m (cmds_at A + 132 + of_nat i) = 0"
    using * [of "132 + i"] by (auto simp: nth add.assoc simp del: str_simps)
  show "m (cmds_at A + 264) = 0" using * [of 264] by (simp add: nth del: str_simps)
qed

text \<open>The text of a word: command, colon, argument, NUL.\<close>

lemma split_arg_text:
  assumes "text_at m cmd (c @ [58] @ a @ [0])" and "0 \<notin> set c" "58 \<notin> set c" "0 \<notin> set a" "58 \<notin> set a"
    and "a \<noteq> []" and "length c + length a < 2 ^ 31"
  shows "split_arg cmd 0 m = Some (cmd + of_nat (length c + 1), m(cmd + of_nat (length c) := 0))"
proof (rule split_arg_word [where k = "length a"])
  have *: "m (cmd + of_nat i) = (c @ [58] @ a @ [0]) ! i" if "i < length c + length a + 2" for i
    using assms(1) that by (simp add: text_at_def)
  show "m (cmd + of_nat i) \<notin> {0, 58}" if "i < length c" for i
    using * [of i] that assms(2,3) by (auto simp: nth_append dest: nth_mem)
  show "m (cmd + of_nat (length c)) = 58" using * [of "length c"] by simp
  show "m (cmd + of_nat (length c + 1 + i)) \<notin> {0, 58}" if "i < length a" for i
    using * [of "length c + 1 + i"] that assms(4,5) by (auto simp: nth_append dest: nth_mem simp del: of_nat_add)
  show "m (cmd + of_nat (length c + 1 + length a)) = 0"
    using * [of "length c + 1 + length a"] by (simp add: nth_append del: of_nat_add)
qed (use assms in auto)

text \<open>What the first bytes of a word are after the colon has become a NUL.\<close>

lemma word_bytes:
  assumes "text_at m cmd (c @ [58] @ a @ [0])" and "length c + length a < 2 ^ 31"
    and "i < length c + length a + 2"
  shows "(m(cmd + of_nat (length c) := 0)) (cmd + of_nat i) = (c @ [0] @ a @ [0]) ! i"
proof -
  have "m (cmd + of_nat i) = (c @ [58] @ a @ [0]) ! i" using assms(1,3) by (simp add: text_at_def)
  moreover have "(of_nat i :: LONG) = of_nat (length c) \<longleftrightarrow> i = length c"
  proof -
    have "unat (of_nat i :: LONG) = i" "unat (of_nat (length c) :: LONG) = length c"
      using assms(2,3) by (intro unat_of_nat_small, simp)+
    then show ?thesis by metis
  qed
  ultimately show ?thesis by (auto simp: nth_append nth_Cons')
qed

text \<open>Text laid into memory, for the examples.\<close>

definition put_text :: "LONG \<Rightarrow> BYTE list \<Rightarrow> memory \<Rightarrow> memory" where
  "put_text p cs m = (\<lambda>a. if unat (a - p) < length cs then cs ! unat (a - p) else m a)"

lemma text_at_put: "length cs < 2 ^ 32 \<Longrightarrow> text_at (put_text p cs m) p cs"
  by (simp add: text_at_def put_text_def unat_of_nat_small)

lemma put_text_above:
  assumes "unat q = unat p + e" and "length cs \<le> e + i" and "e + i < 2 ^ 32"
  shows "put_text p cs m (q + of_nat i) = m (q + of_nat i)"
proof -
  have "q = p + of_nat e" using assms(1) by (metis of_nat_add word_of_nat_unat)
  then have "q + of_nat i - p = of_nat (e + i)" by simp
  moreover have "unat (of_nat (e + i) :: LONG) = e + i" using assms(3) by (intro unat_of_nat_small) simp
  ultimately have "unat (q + of_nat i - p) = e + i" by metis
  then show ?thesis using assms(2) by (simp add: put_text_def)
qed

lemma text_at_put_above:
  assumes "unat q = unat p + e" and "length cs \<le> e" and "e + length ds < 2 ^ 32"
  shows "text_at (put_text p cs m) q ds = text_at m q ds"
  using put_text_above [OF assms(1)] assms(2,3) by (simp add: text_at_def)

definition syms_cmd :: cmdline_syms where
  "syms_cmd = \<lparr>cmds_at = 0x2000, true_at = 0x3000, false_at = 0x3005, argbuf_at = 0x1000\<rparr>"

definition cmd_mem :: "string \<Rightarrow> memory" where
  "cmd_mem w = put_text 0x1000 (str w @ [0]) (put_text 0x2000 (cmdline_table 0x102000 0x102040)
     (put_text 0x3000 (str ''true'' @ [0] @ str ''false'' @ [0]) (\<lambda>_. 0)))"

lemma cmd_mem_text:
  assumes "length w < 256"
  shows "text_at (cmd_mem w) 0x1000 (str w @ [0])" and "text_at (cmd_mem w) 0x2000 (cmdline_table 0x102000 0x102040)"
proof -
  show "text_at (cmd_mem w) 0x1000 (str w @ [0])"
    using assms by (auto simp: cmd_mem_def intro!: text_at_put)
  have "text_at (cmd_mem w) 0x2000 (cmdline_table 0x102000 0x102040) =
      text_at (put_text 0x2000 (cmdline_table 0x102000 0x102040)
        (put_text 0x3000 (str ''true'' @ [0] @ str ''false'' @ [0]) (\<lambda>_. 0))) 0x2000 (cmdline_table 0x102000 0x102040)"
    unfolding cmd_mem_def
    by (rule text_at_put_above [where e = "0x1000"])
      (use assms in \<open>simp_all add: length_table\<close>)
  moreover have "length (cmdline_table 0x102000 0x102040) < 2 ^ 32" by (simp add: length_table)
  ultimately show "text_at (cmd_mem w) 0x2000 (cmdline_table 0x102000 0x102040)"
    using text_at_put by blast
qed

text \<open>
  C7: The command \<^verbatim>\<open>network:false\<close> has no effect. \<open>strncmp\<close> finds the word different from the
  name in the table, since it goes on past the NUL at the end of the first eight bytes, so no
  function is called and the network stays enabled; only the colon is overwritten. The table is in
  memory as \<open>cmdline.c\<close> initialises it, wherever its functions are, and the word is apart from it.
\<close>

theorem cmdline_network_ignored:
  assumes "text_at (mem s) cmd (str ''network:false'' @ [0])"
    and "text_at (mem s) (cmds_at A) (cmdline_table f g)" and "265 \<le> unat (cmd + 7 - cmds_at A)"
  shows "cmdline_process A cmd s = Some (s\<lparr>mem := (mem s)(cmd + 7 := 0)\<rparr>)"
proof -
  let ?c = "str ''network''" and ?a = "str ''false''" and ?m = "(mem s)(cmd + 7 := 0)"
  have tx: "text_at (mem s) cmd (?c @ [58] @ ?a @ [0])" using assms(1) by simp
  have split: "split_arg cmd 0 (mem s) = Some (cmd + of_nat 8, ?m)"
    using split_arg_text [OF tx] by simp
  have "text_at ?m (cmds_at A) (cmdline_table f g)" using assms(2,3) by (simp add: text_at_upd length_table)
  note tab = cmdline_table_nth [OF this]
  have w: "?m (cmd + of_nat i) = (?c @ [0] @ ?a @ [0]) ! i" if "i < 14" for i
    using word_bytes [OF tx, of i] that by (simp del: str_simps)
  have "strncmp ?m cmd (cmds_at A) (of_nat 128) \<noteq> 0"
    using w [of 0] tab(1) [of 0] by (subst strncmp_zero_iff [where d = 0]) simp_all
  moreover have "strncmp ?m cmd (cmds_at A + 132) (of_nat 128) \<noteq> 0"
  proof (subst strncmp_zero_iff [where d = 8])
    show "?m (cmd + of_nat i) = ?m (cmds_at A + 132 + of_nat i)" if "i < 8" for i
    proof (cases "i = 7")
      case True
      then show ?thesis using w [of 7] tab(4) [of 7] by simp
    next
      case False
      then show ?thesis using w [of i] tab(3) [of i] that by (simp add: nth_append del: str_simps)
    qed
    show "?m (cmd + of_nat 8) \<noteq> ?m (cmds_at A + 132 + of_nat 8)" using w [of 8] tab(4) [of 8] by simp
  qed simp_all
  moreover have "?m (cmds_at A) \<noteq> 0" "?m (cmds_at A + 132) \<noteq> 0" "?m (cmds_at A + 264) = 0"
    using tab(1) [of 0] tab(3) [of 0] tab(5) by simp_all
  ultimately show ?thesis
    by (simp add: cmdline_process_def split cmdline_cmds_def add.assoc del: fun_upd_apply)
qed

theorem cmdline_network_ignored_witness:
  "network__disable (the (cmdline_process syms_cmd 0x1000 (net0\<lparr>mem := cmd_mem ''network:false''\<rparr>))) = 0"
proof -
  have "text_at (cmd_mem ''network:false'') 0x1000 (str ''network:false'' @ [0])"
    "text_at (cmd_mem ''network:false'') 0x2000 (cmdline_table 0x102000 0x102040)"
    by (rule cmd_mem_text, simp)+
  then show ?thesis
    using cmdline_network_ignored [of "net0\<lparr>mem := cmd_mem ''network:false''\<rparr>" "0x1000" syms_cmd]
    by (simp add: syms_cmd_def del: str_simps)
qed

text \<open>
  The command \<^verbatim>\<open>serial:true\<close> switches the first serial port on, and no other. The literal
  that the argument is compared with is in memory too, and the comparison succeeds when one
  of the three bytes after its NUL differs from those after the NUL of the argument.
\<close>

theorem cmdline_serial_on:
  assumes "text_at (mem s) cmd (str ''serial:true'' @ [0])"
    and "text_at (mem s) (cmds_at A) (cmdline_table f g)" and "265 \<le> unat (cmd + 6 - cmds_at A)"
    and "text_at (mem s) (true_at A) (str ''true'' @ [0])" and "8 \<le> unat (cmd + 6 - true_at A)"
    and "\<exists>i \<in> {5, 6, 7}. mem s (cmd + 7 + of_nat i) \<noteq> mem s (true_at A + of_nat i)"
  shows "\<exists>t. cmdline_process A cmd s = Some t \<and> serial_status t = [1, 0, 0, 0] \<and>
    network__disable t = network__disable s"
proof -
  let ?c = "str ''serial''" and ?a = "str ''true''" and ?m = "(mem s)(cmd + 6 := 0)"
  have tx: "text_at (mem s) cmd (?c @ [58] @ ?a @ [0])" using assms(1) by simp
  have split: "split_arg cmd 0 (mem s) = Some (cmd + of_nat 7, ?m)"
    using split_arg_text [OF tx] by simp
  have "text_at ?m (cmds_at A) (cmdline_table f g)" using assms(2,3) by (simp add: text_at_upd length_table)
  note tab = cmdline_table_nth [OF this]
  have w: "?m (cmd + of_nat i) = (?c @ [0] @ ?a @ [0]) ! i" if "i < 12" for i
    using word_bytes [OF tx, of i] that by (simp del: str_simps)
  have cmd0: "strncmp ?m cmd (cmds_at A) (of_nat 128) = 0"
  proof (subst strncmp_zero_iff [where d = 7])
    show "?m (cmd + of_nat i) = ?m (cmds_at A + of_nat i)" if "i < 7" for i
    proof (cases "i = 6")
      case True
      then show ?thesis using w [of 6] tab(2) [of 6] by simp
    next
      case False
      then show ?thesis using w [of i] tab(1) [of i] that by (simp add: nth_append del: str_simps)
    qed
    show "?m (cmd + of_nat 7) \<noteq> ?m (cmds_at A + of_nat 7)" using w [of 7] tab(2) [of 7] by simp
    show "\<exists>z \<in> {4 * (7 div 4)..<7}. ?m (cmd + of_nat z) = 0" using w [of 6] by (intro bexI [of _ 6]) simp_all
  qed simp_all
  have lit: "text_at ?m (true_at A) (str ''true'' @ [0])" using assms(4,5) by (simp add: text_at_upd)
  have arg: "?m (cmd + 7 + of_nat i) = ?m (true_at A + of_nat i)" if "i < 5" for i
    using w [of "7 + i"] lit that by (simp add: text_at_def nth_append add.assoc del: str_simps fun_upd_apply)
  let ?D = "\<lambda>i. mem s (cmd + 7 + of_nat i) \<noteq> mem s (true_at A + of_nat i)"
  have keep: "?m (cmd + 7 + of_nat i) = mem s (cmd + 7 + of_nat i) \<and>
      ?m (true_at A + of_nat i) = mem s (true_at A + of_nat i)" if "i < 8" for i
    using text_at_upd [of "map (\<lambda>i. mem s (true_at A + of_nat i)) [0..<8]" "cmd + 6" "true_at A" "mem s" 0]
      that assms(5) unat_of_nat_small [of "Suc i", where 'a = 32]
    by (auto simp: text_at_def add.assoc)
  define d where "d = (LEAST i. i \<in> {5, 6, 7} \<and> ?D i)"
  have ex: "\<exists>i. i \<in> {5, 6, 7} \<and> ?D i" using assms(6) by blast
  have d: "d \<in> {5, 6, 7}" "?D d" using LeastI_ex [OF ex] unfolding d_def by blast+
  have below: "\<not> ?D i" if "5 \<le> i" "i < d" for i
    using not_less_Least [of i "\<lambda>i. i \<in> {5, 6, 7} \<and> ?D i"] that d(1) unfolding d_def [symmetric] by auto
  have arg0: "strncmp ?m (cmd + 7) (true_at A) (of_nat 128) = 0"
  proof (subst strncmp_zero_iff [where d = d])
    show "?m (cmd + 7 + of_nat i) = ?m (true_at A + of_nat i)" if "i < d" for i
      using that arg [of i] keep [of i] below [of i] d(1) by (cases "i < 5") auto
    show "\<exists>z \<in> {4 * (d div 4)..<d}. ?m (cmd + 7 + of_nat z) = 0"
      using d(1) w [of 11] by (intro bexI [of _ 4]) (auto simp: add.assoc)
    show "?m (cmd + 7 + of_nat d) \<noteq> ?m (true_at A + of_nat d)" using d keep [of d] by auto
  qed (use d(1) in auto)
  have "?m (cmds_at A) \<noteq> 0" using tab(1) [of 0] by simp
  then have "cmdline_process A cmd s = serial_setup_port 0 (serial_setup (s\<lparr>mem := ?m\<rparr>))"
    using cmd0 arg0
    by (simp add: cmdline_process_def split cmdline_cmds_def cmdline_serial_def del: fun_upd_apply)
  then show ?thesis
    by (simp add: serial_setup_port_def serial_setup_def hwport_at_def serial_hwport_def frames numeral_eq_Suc Let_def)
qed

theorem cmdline_serial_on_witness:
  "\<exists>t. cmdline_process syms_cmd 0x1000 (net0\<lparr>mem := cmd_mem ''serial:true''\<rparr>) = Some t \<and>
     serial_status t = [1, 0, 0, 0]"
proof -
  let ?m = "cmd_mem ''serial:true''"
  have "text_at ?m 0x1000 (str ''serial:true'' @ [0])" "text_at ?m 0x2000 (cmdline_table 0x102000 0x102040)"
    by (rule cmd_mem_text, simp)+
  moreover have "text_at ?m 0x3000 (str ''true'' @ [0])"
    by (simp add: text_at_Cons) (simp add: cmd_mem_def put_text_def length_table)
  moreover have "?m 0x100c \<noteq> ?m 0x3005"
    by (simp add: cmd_mem_def put_text_def length_table)
  ultimately show ?thesis
    using cmdline_serial_on [of "net0\<lparr>mem := ?m\<rparr>" "0x1000" syms_cmd]
    by (simp add: syms_cmd_def del: str_simps) blast
qed

section \<open>The tags\<close>

text \<open>The addresses of the tags before the last one.\<close>

fun tag_chain :: "memory \<Rightarrow> LONG \<Rightarrow> LONG list \<Rightarrow> bool" where
  "tag_chain m p [] \<longleftrightarrow> tag_type m p = MULTIBOOT_TAG_TYPE_END"
| "tag_chain m p (q # qs) \<longleftrightarrow> p = q \<and> tag_type m p \<noteq> MULTIBOOT_TAG_TYPE_END \<and> tag_chain m (tag_next m p) qs"

text \<open>Memory that agrees except for the 32 bytes of the buffer that are cleared for every tag.\<close>

definition same_but_buf :: "LONG \<Rightarrow> memory \<Rightarrow> memory \<Rightarrow> bool" where
  "same_but_buf buf m m' \<longleftrightarrow> (\<forall>a. 32 \<le> unat (a - buf) \<longrightarrow> m' a = m a)"

definition off_buf :: "LONG \<Rightarrow> LONG \<Rightarrow> nat \<Rightarrow> bool" where
  "off_buf buf p n \<longleftrightarrow> (\<forall>i < n. 32 \<le> unat (p + of_nat i - buf))"

lemma same_load32:
  assumes "same_but_buf buf m m'" and "off_buf buf p n" and "k + 4 \<le> n"
  shows "load32 m' (p + of_nat k) = load32 m (p + of_nat k)"
proof -
  have "m' (p + of_nat k + of_nat j) = m (p + of_nat k + of_nat j)" if "j < 4" for j
    using assms that unfolding same_but_buf_def off_buf_def
    by (metis (no_types, lifting) add.assoc add_less_cancel_left of_nat_add order.strict_trans2)
  from this [of 0] this [of 1] this [of 2] this [of 3] show ?thesis by (simp add: load32_def)
qed

lemma same_tag:
  assumes "same_but_buf buf m m'" and "off_buf buf p n" and "8 \<le> n"
  shows "tag_type m' p = tag_type m p" and "tag_size m' p = tag_size m p" and "tag_next m' p = tag_next m p"
  using same_load32 [OF assms(1,2), of 0] same_load32 [OF assms(1,2), of 4] assms(3)
  by (simp_all add: tag_type_def tag_size_def tag_next_def)

lemma same_mmap:
  assumes "same_but_buf buf m m'" and "off_buf buf p (16 + 24 * unat n)" and "unat n < 2 ^ 27"
  shows "mmap_at m' (p + 16) n = mmap_at m (p + 16) n"
  unfolding mmap_at_def
proof (rule map_cong [OF refl])
  fix i
  assume i: "i \<in> set [0..<unat n]"
  have l: "load32 m' (p + of_nat (16 + 24 * i + j)) = load32 m (p + of_nat (16 + 24 * i + j))" if "j + 4 \<le> 24" for j
    using i that by (intro same_load32 [OF assms(1,2)]) simp
  show "mmap_entry_at m' (p + 16 + 24 * of_nat i) = mmap_entry_at m (p + 16 + 24 * of_nat i)"
    using l [of 0] l [of 4] l [of 8] l [of 12] l [of 16]
    by (simp add: mmap_entry_at_def load64_def add.assoc)
qed

lemma same_but_buf_clear: "same_but_buf buf m m' \<Longrightarrow> same_but_buf buf m (kmemset buf 0 32 m')"
  by (simp add: same_but_buf_def kmemset_def kmemset_loop_apply)

text \<open>A tag that is not a command line and, if it is a memory map, names usable memory.\<close>

definition tag_mmap :: "memory \<Rightarrow> LONG \<Rightarrow> mmap_entry list" where
  "tag_mmap m p = mmap_at m (p + 16) ((tag_size m p - 16) div 24)"

definition tag_ok :: "LONG \<Rightarrow> memory \<Rightarrow> LONG \<Rightarrow> bool" where
  "tag_ok buf m p \<longleftrightarrow> tag_type m p \<noteq> MULTIBOOT_TAG_TYPE_CMDLINE \<and> off_buf buf p 8 \<and>
     (tag_type m p = MULTIBOOT_TAG_TYPE_MMAP \<longrightarrow>
        16 \<le> unat (tag_size m p) \<and> unat (tag_size m p) < 2 ^ 31 \<and> off_buf buf p (unat (tag_size m p)) \<and>
        (\<forall>e \<in> set (tag_mmap m p). available e \<longrightarrow> me_len e < 2 ^ 32) \<and>
        (\<exists>e \<in> set (tag_mmap m p). available e \<and> me_len e \<noteq> 0))"

text \<open>The allocator is set up on the largest available chunk of a memory map.\<close>

definition mm_on :: "mmap_entry list \<Rightarrow> 'a memmgmt_scheme \<Rightarrow> bool" where
  "mm_on mmap t \<longleftrightarrow> mmgmt_counter t = 0 \<and>
     (\<exists>e \<in> set mmap. available e \<and> (\<forall>f \<in> set mmap. available f \<longrightarrow> me_len f \<le> me_len e) \<and>
        mmgmt_start t = ucast (me_addr e) \<and> unat (mmgmt_len t) = unat (me_len e) div 4096)"

definition mm_same :: "'a memmgmt_scheme \<Rightarrow> 'a memmgmt_scheme \<Rightarrow> bool" where
  "mm_same s t \<longleftrightarrow> mmgmt_counter t = mmgmt_counter s \<and> mmgmt_start t = mmgmt_start s \<and>
     mmgmt_len t = mmgmt_len s"

text \<open>What one tag does.\<close>

lemma multiboot_tag_step:
  assumes ok: "tag_ok (argbuf_at A) m p" and same: "same_but_buf (argbuf_at A) m (mem s)" and tty: "tty_ready s"
  shows "\<exists>t. multiboot_tag A p s = Some t \<and> tty_ready t \<and> same_but_buf (argbuf_at A) m (mem t) \<and> con_same s t \<and>
    memmgmt.more t = memmgmt.more s \<and> (text_ok s \<longrightarrow> text_ok t) \<and>
    (if tag_type m p = MULTIBOOT_TAG_TYPE_MMAP then mm_on (tag_mmap m p) t else mm_same s t)"
proof -
  define u where "u = s\<lparr>mem := kmemset (argbuf_at A) 0 32 (mem s)\<rparr>"
  have u: "same_but_buf (argbuf_at A) m (mem u)" "tty_ready u"
    using same_but_buf_clear [OF same] tty by (simp_all add: u_def tty_ready_def)
  have tag: "tag_type (mem u) p = tag_type m p" "tag_size (mem u) p = tag_size m p"
    using same_tag [OF u(1), of p 8] ok by (simp_all add: tag_ok_def)
  have nc: "tag_type m p \<noteq> MULTIBOOT_TAG_TYPE_CMDLINE" using ok by (simp add: tag_ok_def)
  show ?thesis
  proof (cases "tag_type m p = MULTIBOOT_TAG_TYPE_MMAP")
    case False
    then have "multiboot_tag A p s = Some u"
      using tag nc by (simp add: multiboot_tag_def u_def)
    with False u show ?thesis by (auto simp: u_def mm_same_def text_ok_def con_same_def)
  next
    case True
    let ?n = "(tag_size m p - 16) div 24"
    have sz: "16 \<le> unat (tag_size m p)" "unat (tag_size m p) < 2 ^ 31" "off_buf (argbuf_at A) p (unat (tag_size m p))"
      using ok True by (simp_all add: tag_ok_def)
    have n: "unat ?n = (unat (tag_size m p) - 16) div 24"
      using sz(1) by (simp add: unat_div_distrib unat_sub word_le_nat_alt)
    then have "16 + 24 * unat ?n \<le> unat (tag_size m p)" using sz(1) by simp
    with sz(3) have "off_buf (argbuf_at A) p (16 + 24 * unat ?n)" by (simp add: off_buf_def)
    moreover have "unat ?n < 2 ^ 27" using n sz(2) by simp
    ultimately have map: "mmap_at (mem u) (p + 16) ?n = tag_mmap m p"
      unfolding tag_mmap_def by (rule same_mmap [OF u(1)])
    have "length (tag_mmap m p) < 2 ^ 32" unfolding tag_mmap_def mmap_at_def using \<open>unat ?n < 2 ^ 27\<close> by simp
    then obtain t where t: "mmgmt_init (tag_mmap m p) u = Some t" "tty_ready t" "mem t = mem u" "con_same u t"
        "memmgmt.more t = memmgmt.more u" "text_ok u \<longrightarrow> text_ok t" "mm_on (tag_mmap m p) t"
      using mmgmt_init_chosen [OF u(2), of "tag_mmap m p"] ok True unfolding tag_ok_def mm_on_def by blast
    have "multiboot_tag A p s = Some t"
      using t(1) True tag map by (simp add: multiboot_tag_def u_def MULTIBOOT_TAG_TYPE_MMAP_def
          MULTIBOOT_TAG_TYPE_CMDLINE_def)
    with True t u show ?thesis by (auto simp: u_def text_ok_def con_same_def)
  qed
qed

lemma multiboot_tags_run:
  assumes "tag_chain m p ps" and "\<forall>q \<in> set ps. tag_ok (argbuf_at A) m q" and "same_but_buf (argbuf_at A) m (mem s)"
    and "\<forall>q \<in> set ps. off_buf (argbuf_at A) (tag_next m q) 8" and "off_buf (argbuf_at A) p 8" and "tty_ready s"
  shows "\<exists>t. multiboot_tags A p s = Some t \<and> tty_ready t \<and> same_but_buf (argbuf_at A) m (mem t) \<and> con_same s t \<and>
    memmgmt.more t = memmgmt.more s \<and> (text_ok s \<longrightarrow> text_ok t) \<and>
    (case filter (\<lambda>q. tag_type m q = MULTIBOOT_TAG_TYPE_MMAP) (rev ps) of
       [] \<Rightarrow> mm_same s t | q # _ \<Rightarrow> mm_on (tag_mmap m q) t)"
  using assms
proof (induction ps arbitrary: p s)
  case Nil
  then have "tag_type (mem s) p = MULTIBOOT_TAG_TYPE_END" using same_tag [OF Nil(3,5)] by simp
  with Nil show ?case by (auto simp: multiboot_tags.simps [of A p] mm_same_def con_same_def)
next
  case (Cons q ps)
  have p: "p = q" "tag_type m p \<noteq> MULTIBOOT_TAG_TYPE_END" "tag_chain m (tag_next m p) ps"
    using Cons.prems(1) by auto
  have "tag_ok (argbuf_at A) m p" using Cons.prems(2) p(1) by simp
  then obtain u where u: "multiboot_tag A p s = Some u" "tty_ready u" "same_but_buf (argbuf_at A) m (mem u)"
      "con_same s u" "memmgmt.more u = memmgmt.more s" "text_ok s \<longrightarrow> text_ok u"
      "if tag_type m p = MULTIBOOT_TAG_TYPE_MMAP then mm_on (tag_mmap m p) u else mm_same s u"
    using multiboot_tag_step [OF _ Cons.prems(3,6)] by blast
  have tag: "tag_type (mem s) p = tag_type m p" "tag_next (mem u) p = tag_next m p"
    using same_tag [OF Cons.prems(3,5)] same_tag [OF u(3) Cons.prems(5)] by simp_all
  then have "multiboot_tags A p s = multiboot_tags A (tag_next m p) u"
    using u(1) p(2) by (simp add: multiboot_tags.simps [of A p])
  moreover obtain t where t: "multiboot_tags A (tag_next m p) u = Some t" "tty_ready t"
      "same_but_buf (argbuf_at A) m (mem t)" "con_same u t" "memmgmt.more t = memmgmt.more u" "text_ok u \<longrightarrow> text_ok t"
      "case filter (\<lambda>q. tag_type m q = MULTIBOOT_TAG_TYPE_MMAP) (rev ps) of
         [] \<Rightarrow> mm_same u t | q # _ \<Rightarrow> mm_on (tag_mmap m q) t"
    using Cons.IH [OF p(3) _ u(3) _ _ u(2)] Cons.prems(2,4) p(1) by auto
  moreover have "case filter (\<lambda>q. tag_type m q = MULTIBOOT_TAG_TYPE_MMAP) (rev (q # ps)) of
      [] \<Rightarrow> mm_same s t | q # _ \<Rightarrow> mm_on (tag_mmap m q) t"
    using t(7) u(7) p(1) by (auto simp: mm_same_def mm_on_def split: list.splits if_splits)
  ultimately show ?case using u by (auto simp: con_same_def)
qed


definition mb_mem :: memory where
  "mb_mem = put_text 0x5008 ([6, 0, 0, 0, 40, 0, 0, 0, 24, 0, 0, 0, 0, 0, 0, 0] @
     [0, 0, 0x10, 0, 0, 0, 0, 0] @ [0, 0, 0, 1, 0, 0, 0, 0] @ [1, 0, 0, 0, 0, 0, 0, 0] @
     [0, 0, 0, 0, 8, 0, 0, 0]) (\<lambda>_. 0)"

lemma off_buf_above:
  assumes "unat p = unat buf + d" and "32 \<le> d" and "d + n < 2 ^ 32"
  shows "off_buf buf p n"
  unfolding off_buf_def
proof (intro allI impI)
  fix i
  assume "i < n"
  have "p = buf + of_nat d" using assms(1) by (metis of_nat_add word_of_nat_unat)
  then have "p + of_nat i - buf = of_nat (d + i)" by simp
  moreover have "unat (of_nat (d + i) :: LONG) = d + i" using assms(3) \<open>i < n\<close> by (intro unat_of_nat_small) simp
  ultimately have "unat (p + of_nat i - buf) = d + i" by metis
  then show "32 \<le> unat (p + of_nat i - buf)" using assms(2) by simp
qed

lemma mb_mem_tags:
  "tag_type mb_mem 0x5008 = 6" "tag_size mb_mem 0x5008 = 40" "tag_next mb_mem 0x5008 = 0x5030"
  "tag_type mb_mem 0x5030 = 0"
  "tag_mmap mb_mem 0x5008 = [\<lparr>me_addr = 0x100000, me_len = 0x1000000, me_type = 1\<rparr>]"
  by code_simp+

lemma mb_mem_ok:
  "tag_chain mb_mem 0x5008 [0x5008]" "tag_ok 0x1000 mb_mem 0x5008"
  "off_buf 0x1000 0x5008 8" "off_buf 0x1000 0x5030 8"
proof -
  have off: "off_buf 0x1000 0x5008 n" "off_buf 0x1000 0x5030 n" if "n < 100" for n
    by (rule off_buf_above [where d = "0x4008"], use that in simp_all,
        rule off_buf_above [where d = "0x4030"], use that in simp_all)
  then show "off_buf 0x1000 0x5008 8" "off_buf 0x1000 0x5030 8" by simp_all
  show "tag_chain mb_mem 0x5008 [0x5008]"
    by (simp add: mb_mem_tags MULTIBOOT_TAG_TYPE_END_def)
  show "tag_ok 0x1000 mb_mem 0x5008"
    by (simp add: tag_ok_def mb_mem_tags off MULTIBOOT_TAG_TYPE_CMDLINE_def available_def
        MULTIBOOT_MEMORY_AVAILABLE_def)
qed


end
