(* ===== verification/Boot.thy ===== *)
theory Boot
  imports Kernel Kssfs Multiboot
begin

text \<open>
  The kernel's entry, \<^verbatim>\<open>kernel/main.c\<close>: all components in the order in which \<open>kmain\<close> sets
  them up. Interrupts are off until the \<^verbatim>\<open>sti\<close> before \<open>network_setup\<close>. The driver functions of
  Ethernet devices (\<open>call\<close>), the interrupts taken while the kernel sleeps (\<open>irqs\<close>) and the
  program that is loaded as init (\<open>run_init\<close>) are arguments, as are the addresses that the
  linker chooses.
\<close>

datatype boot_end =
    Returned  \<comment> \<open>\<open>kmain\<close> has returned\<close>
  | Halted    \<comment> \<open>in the endless loop at \<open>halt\<close>\<close>
  | Shell     \<comment> \<open>in the endless loop of \<open>kshell_main\<close>\<close>

definition MULTIBOOT2_BOOTLOADER_MAGIC :: LONG where
  "MULTIBOOT2_BOOTLOADER_MAGIC = 0x36d76289"

fun call_initf :: "pci_initf \<Rightarrow> LONG \<Rightarrow> LONG \<Rightarrow> LONG \<Rightarrow> 'a ide_scheme \<Rightarrow> (LONG \<times> 'a ide_scheme) option" where
  "call_initf ide_init_ptr bus device func s = ide_init Some bus device func s"

definition kom_magic :: "memory \<Rightarrow> LONG \<Rightarrow> bool" where
  "kom_magic m p \<longleftrightarrow> m p = 75 \<and> m (p + 1) = 79 \<and> m (p + 2) = 77 \<and> m (p + 3) = 48"

definition kmain_init :: "(LONG \<Rightarrow> 'a kssfs_scheme \<Rightarrow> 'a kssfs_scheme option) \<Rightarrow> LONG \<Rightarrow>
    'a kssfs_scheme \<Rightarrow> 'a kssfs_scheme option" where
  "kmain_init run_init init s = do {
     s \<leftarrow> puts (str ''found init'' @ [10]) s;
     let s = kbd_reset s;
     s \<leftarrow> (if kom_magic (mem s) init then do {
            let entry_point = load32 (mem s) (init + 4);
            s \<leftarrow> puts (str ''KOM executable'' @ [10]) s;
            s \<leftarrow> puts (str ''Entry point: '') s;
            s \<leftarrow> putn entry_point 16 s;
            s \<leftarrow> puts [10] s;
            s \<leftarrow> puts (str ''Begin...'' @ [10, 10]) s;
            run_init entry_point s
          }
          else do {
            s \<leftarrow> puts (str ''not a KOM executable: '') s;
            s \<leftarrow> for_each (\<lambda>i s. put (mem s (init + of_nat i)) s) [0..<4] s;
            puts [10] s
          });
     puts (str ''attempted to kill init'' @ [10]) s
   }"

text \<open>The second half, from the first device that needs the allocator.\<close>

definition kmain_late :: "LONG \<Rightarrow>
    (LONG \<Rightarrow> nat \<Rightarrow> 'a kssfs_scheme \<Rightarrow> (LONG \<times> 'a kssfs_scheme) option) \<Rightarrow>
    ('a kssfs_scheme \<Rightarrow> 'a kssfs_scheme option) \<Rightarrow>
    (LONG \<Rightarrow> 'a kssfs_scheme \<Rightarrow> 'a kssfs_scheme option) \<Rightarrow>
    'a kssfs_scheme \<Rightarrow> (boot_end \<times> 'a kssfs_scheme) option" where
  "kmain_late init_name call irqs run_init s = do {
     s \<leftarrow> ethernet_setup s;
     s \<leftarrow> pci_setup call_initf pci_devices s;
     s \<leftarrow> network_setup call irqs s;
     if kssfs_avail s = 0 then do {
       s \<leftarrow> puts (str ''no disk available, halt'' @ [10]) s;
       Some (Halted, s)
     }
     else do {
       let init = 0x3D09000;
       let (found, s) = kssfs_read_file ide_read_sector init init_name s;
       if found = 0 then do {
         s \<leftarrow> puts (str ''no init found, kshell'' @ [10]) s;
         Some (Shell, s)
       }
       else do {
         s \<leftarrow> kmain_init run_init init s;
         Some (Halted, s)
       }
     }
   }"

definition kmain :: "symbols \<Rightarrow> cmdline_syms \<Rightarrow> LONG \<Rightarrow>
    (LONG \<Rightarrow> nat \<Rightarrow> 'a kssfs_scheme \<Rightarrow> (LONG \<times> 'a kssfs_scheme) option) \<Rightarrow>
    ('a kssfs_scheme \<Rightarrow> 'a kssfs_scheme option) \<Rightarrow>
    (LONG \<Rightarrow> 'a kssfs_scheme \<Rightarrow> 'a kssfs_scheme option) \<Rightarrow>
    LONG \<Rightarrow> LONG \<Rightarrow> 'a kssfs_scheme \<Rightarrow> (boot_end \<times> 'a kssfs_scheme) option" where
  "kmain syms A init_name call irqs run_init magic address s =
     (if magic \<noteq> MULTIBOOT2_BOOTLOADER_MAGIC then do {
        s \<leftarrow> puts (str ''Please reboot from a Multiboot-compliant bootloader.'') s;
        Some (Returned, s)
      }
      else do {
        s \<leftarrow> puts (str ''Korolev64'' @ [10]) s;
        s \<leftarrow> int_setup syms s;
        s \<leftarrow> multiboot_process A address s;
        let s = syscall_setup s;
        s \<leftarrow> timer_setup s;
        s \<leftarrow> kbd_setup s;
        kmain_late init_name call irqs run_init s
      })"

section \<open>The phases of the boot\<close>

text \<open>
  Until interrupts are enabled: the invariant of the kernel, and no tick yet. \<open>H\<close> is the
  hardware, \<open>R\<close> what the phase does not change: memory, the allocator
  and the state above the drivers.
\<close>

type_synonym 'a boot_rest = "memory \<times> LONG \<times> LONG \<times> LONG \<times> 'a"

definition boot_rest :: "'a ide_scheme \<Rightarrow> 'a boot_rest" where
  "boot_rest s = (mem s, mmgmt_counter s, mmgmt_start s, mmgmt_len s, ide.more s)"

definition booting :: "(io_event list \<Rightarrow> io_req \<Rightarrow> LONG) \<Rightarrow> 'a boot_rest \<Rightarrow> 'a ide_scheme \<Rightarrow> bool" where
  "booting H R s \<longleftrightarrow> kernel_ok s \<and> ticks2 s = 0 \<and> hw s = H \<and> boot_rest s = R"

lemma booting_tty: "tty_step s t \<Longrightarrow> booting H R s \<Longrightarrow> booting H R t \<and> int_handlers t = int_handlers s"
  using kernel_ok_tty [of s t] by (auto simp: booting_def boot_rest_def tty_step_def elim!: printedE)

lemma booting_puts:
  assumes "booting H R s" and "\<And>t. booting H R t \<Longrightarrow> int_handlers t = int_handlers s \<Longrightarrow> Q t"
  shows "returns (puts cs s) Q"
proof (rule puts_wp [OF tty_step_refl])
  show "tty_ready s" using assms(1) by (simp add: booting_def kernel_ok_def)
  show "Q t" if "tty_step s t" for t using booting_tty [OF that assms(1)] assms(2) by blast
qed

lemma booting_simps [simp]:
  "booting H R (s\<lparr>io_log := l\<rparr>) = booting H R s"
  "booting H R (s\<lparr>gdtd := d\<rparr>) = booting H R s" "booting H R (s\<lparr>idtd := d\<rparr>) = booting H R s"
  "booting H R (s\<lparr>gdtr := d\<rparr>) = booting H R s" "booting H R (s\<lparr>idtr := d\<rparr>) = booting H R s"
  "length g = length (gdt s) \<Longrightarrow> booting H R (s\<lparr>gdt := g\<rparr>) = booting H R s"
  "length h = length (int_handlers s) \<Longrightarrow> booting H R (s\<lparr>int_handlers := h\<rparr>) = booting H R s"
  "booting H R (s\<lparr>ctrl := a, alt := b, shift := c\<rparr>) = booting H R s"
  "booting H R (s\<lparr>kbd_keycode_map := m\<rparr>) = booting H R s"
  "booting H R (s\<lparr>kbd_keycode_shift_map := m\<rparr>) = booting H R s"
  "booting H R (s\<lparr>ide_pch_base := x\<rparr>) = booting H R s"
  "booting H R (s\<lparr>ide_pch_ctrl := x\<rparr>) = booting H R s"
  "booting H R (s\<lparr>ide_pch_bm := x\<rparr>) = booting H R s"
  by (simp_all add: booting_def kernel_ok_defs boot_rest_def)

lemma booting_regh [simp]: "booting H R (int_regh n h s) = booting H R s"
  by (simp add: int_regh_def)

lemma booting_idt: "booting H R s \<Longrightarrow> length e = 256 \<Longrightarrow> booting H R (s\<lparr>idt := e\<rparr>)"
  by (auto simp: booting_def kernel_ok_defs boot_rest_def)

text \<open>The same with the handlers that are registered, except those of the disk.\<close>

definition bootv :: "(io_event list \<Rightarrow> io_req \<Rightarrow> LONG) \<Rightarrow> 'a boot_rest \<Rightarrow> (nat \<Rightarrow> isr option) \<Rightarrow>
    'a ide_scheme \<Rightarrow> bool" where
  "bootv H R V s \<longleftrightarrow> booting H R s \<and> (\<forall>n < 256. n \<notin> {46, 47} \<longrightarrow> int_handlers s ! n = V n)"

lemma bootv_tty: "tty_step s t \<Longrightarrow> bootv H R V s \<Longrightarrow> bootv H R V t"
  using booting_tty [of s t H R] by (auto simp: bootv_def)

lemma bootv_puts: "bootv H R V s \<Longrightarrow> (\<And>t. bootv H R V t \<Longrightarrow> Q t) \<Longrightarrow> returns (puts cs s) Q"
  by (rule booting_puts [of H R]) (auto simp: bootv_def)

lemma bootv_simps [simp]:
  "bootv H R V (s\<lparr>io_log := l\<rparr>) = bootv H R V s"
  "bootv H R V (s\<lparr>gdtd := d\<rparr>) = bootv H R V s" "bootv H R V (s\<lparr>idtd := d\<rparr>) = bootv H R V s"
  "bootv H R V (s\<lparr>gdtr := d\<rparr>) = bootv H R V s" "bootv H R V (s\<lparr>idtr := d\<rparr>) = bootv H R V s"
  "length g = length (gdt s) \<Longrightarrow> bootv H R V (s\<lparr>gdt := g\<rparr>) = bootv H R V s"
  "bootv H R V (s\<lparr>ctrl := a, alt := b, shift := c\<rparr>) = bootv H R V s"
  "bootv H R V (s\<lparr>kbd_keycode_map := m\<rparr>) = bootv H R V s"
  "bootv H R V (s\<lparr>kbd_keycode_shift_map := m\<rparr>) = bootv H R V s"
  "bootv H R V (s\<lparr>ide_pch_base := x\<rparr>) = bootv H R V s"
  "bootv H R V (s\<lparr>ide_pch_ctrl := x\<rparr>) = bootv H R V s"
  "bootv H R V (s\<lparr>ide_pch_bm := x\<rparr>) = bootv H R V s"
  by (simp_all add: bootv_def)

lemma bootv_idt: "bootv H R V s \<Longrightarrow> length e = 256 \<Longrightarrow> bootv H R V (s\<lparr>idt := e\<rparr>)"
  by (simp add: bootv_def booting_idt)

lemma bootv_len: "bootv H R V s \<Longrightarrow> length (gdt s) = 5 \<and> length (idt s) = 256 \<and> length (int_handlers s) = 256"
  by (simp add: bootv_def booting_def kernel_ok_def int_ok_def)

lemma bootv_regh: "bootv H R V s \<Longrightarrow> bootv H R (V(unat n := h)) (int_regh n h s)"
  using bootv_len [of H R V s] by (auto simp: bootv_def nth_list_update)

lemma bootv_gate:
  assumes "bootv H R V s" and "unat i < 5" and "\<And>t. bootv H R V t \<Longrightarrow> Q t"
  shows "returns (gdt_set_gate i base lim acc gran s) Q"
  using assms bootv_len [OF assms(1)] by (intro gdt_set_gate_wp) simp_all

lemma gdt_setup_boot: "bootv H R V s \<Longrightarrow> returns (gdt_setup syms s) (bootv H R V)"
  unfolding gdt_setup_def returns_bind Let_def
  by (rule bootv_puts, assumption)
    (auto intro!: bootv_gate [of H R V] bootv_puts [of H R V] simp del: str_simps)

lemma idt_gates_boot:
  assumes "bootv H R V s" and "i + n \<le> 256" and "\<And>t. bootv H R V t \<Longrightarrow> Q t"
  shows "returns (idt_set_gates i (map f [0..<n]) s) Q"
proof -
  obtain es where "idt_set_gates i (map f [0..<n]) s = Some (s\<lparr>idt := es\<rparr>)" "length es = 256"
    using idt_set_gates_range [OF assms(2), of s f] bootv_len [OF assms(1)] by auto
  with assms(1,3) show ?thesis by (simp add: bootv_idt)
qed

lemma idt_gate_boot:
  assumes "bootv H R V s" and "\<And>t. bootv H R V t \<Longrightarrow> Q t"
  shows "returns (idt_set_gate i base slct flags s) Q"
proof -
  have "unat i < length (idt s)" using bootv_len [OF assms(1)] unat_bounds(1) [of i] by simp
  then obtain e where "idt_set_gate i base slct flags s = Some (s\<lparr>idt := (idt s)[unat i := e]\<rparr>)"
    using idt_set_gate_decode by blast
  with assms bootv_len [OF assms(1)] show ?thesis by (simp add: bootv_idt)
qed

lemma idt_setup_boot: "bootv H R V s \<Longrightarrow> returns (idt_setup syms s) (bootv H R V)"
  unfolding idt_setup_def returns_bind Let_def fold_outb_log
  by (rule bootv_puts, assumption)
    (auto intro!: idt_gates_boot [of H R V] idt_gate_boot [of H R V] bootv_puts [of H R V] bootv_idt
      simp del: str_simps upt_rec_numeral)

lemma int_setup_boot: "bootv H R V s \<Longrightarrow> returns (int_setup syms s) (bootv H R V)"
  unfolding int_setup_def returns_bind
  by (rule returns_mono [OF gdt_setup_boot], assumption) (rule idt_setup_boot)

lemma timer_setup_boot: "bootv H R V s \<Longrightarrow> returns (timer_setup s) (bootv H R (V(32 := Some timer_handler_ptr)))"
proof -
  assume s: "bootv H R V s"
  have zero: "bootv H R V (t\<lparr>ticks := 0, ticks2 := 0, seconds := 0\<rparr>)" if "bootv H R V t" for t
    using that by (auto simp: bootv_def booting_def kernel_ok_defs boot_rest_def)
  have reg: "bootv H R (V(32 := Some timer_handler_ptr)) (int_regh IRQ0 (Some timer_handler_ptr) t)"
    if "bootv H R V t" for t
    using bootv_regh [OF that, of IRQ0 "Some timer_handler_ptr"] by (simp add: IRQ0_def)
  show ?thesis
    unfolding timer_setup_def returns_bind Let_def
    by (rule bootv_puts [OF s])
      (auto simp: frames Let_def simp del: str_simps
        intro!: bootv_puts [of H R "V(32 := Some timer_handler_ptr)"] reg zero)
qed

text \<open>A keyboard controller that takes commands and has an answer whenever it is asked.\<close>

definition ps2_ready :: "(io_event list \<Rightarrow> io_req \<Rightarrow> LONG) \<Rightarrow> bool" where
  "ps2_ready H \<longleftrightarrow> (\<forall>l. \<not> bit (H l (Port8 0x64)) 1 \<and> bit (H l (Port8 0x64)) 0)"

lemma ps2_bits:
  assumes "ps2_ready H"
  shows "(ucast (H l (Port8 0x64)) :: BYTE) AND 2 = 0" and "NOT (ucast (H l (Port8 0x64)) :: BYTE) AND 1 = 0"
proof -
  have two: "(2 :: BYTE) = push_bit 1 1" by (simp add: push_bit_eq_mult)
  show "(ucast (H l (Port8 0x64)) :: BYTE) AND 2 = 0"
    unfolding two using assms by (intro bit_word_eqI) (auto simp: bit_simps ps2_ready_def)
  show "NOT (ucast (H l (Port8 0x64)) :: BYTE) AND 1 = 0"
    using assms by (intro bit_word_eqI) (auto simp: bit_simps ps2_ready_def)
qed

lemma ps2_cmd_boot:
  assumes "ps2_ready H" and "bootv H R V s" and "\<And>t. bootv H R V t \<Longrightarrow> Q t"
  shows "returns (kbd_ps2_cmd c s) Q" and "returns (kbd_ps2_write_data c s) Q"
    and "(\<And>v t. bootv H R V t \<Longrightarrow> Q' (v, t)) \<Longrightarrow> returns (kbd_ps2_read_data s) Q'"
proof -
  have h: "hw s = H" using assms(2) by (simp add: bootv_def booting_def)
  note b = ps2_bits [OF assms(1), of "io_log s"]
  have w: "spin (\<lambda>s. let (v, s) = inb 0x64 s in Some (v AND 2 \<noteq> 0, s)) s = Some (snd (inb 0x64 s))"
    using b by (intro spin_stop) (simp add: frames Let_def h)
  have r: "spin (\<lambda>s. let (v, s) = inb 0x64 s in Some (NOT v AND 1 \<noteq> 0, s)) s = Some (snd (inb 0x64 s))"
    using b by (intro spin_stop) (simp add: frames Let_def h)
  show "returns (kbd_ps2_cmd c s) Q" "returns (kbd_ps2_write_data c s) Q"
    using assms(2,3) unfolding kbd_ps2_cmd_def kbd_ps2_write_data_def w by (simp_all add: frames Let_def)
  show "returns (kbd_ps2_read_data s) Q'" if "\<And>v t. bootv H R V t \<Longrightarrow> Q' (v, t)"
    using assms(2) that unfolding kbd_ps2_read_data_def r by (simp add: frames Let_def)
qed

lemma ps2_tests_boot:
  assumes "ps2_ready H" and "bootv H R V s" and "\<And>ok t. bootv H R V t \<Longrightarrow> Q (ok, t)"
  shows "returns (kbd_ps2_selftest s) Q" and "returns (kbd_ps2_testch 1 s) Q"
  unfolding kbd_ps2_selftest_def kbd_ps2_testch_def returns_bind
  using assms(2,3) by (auto intro!: ps2_cmd_boot [OF assms(1), of R V])

lemma ps2_enable_boot:
  assumes "ps2_ready H" and "bootv H R V s" and "\<And>t. bootv H R V t \<Longrightarrow> Q t"
  shows "returns (kbd_ps2_enable_irq s) Q"
  unfolding kbd_ps2_enable_irq_def returns_bind
  using assms(2,3) by (auto intro!: ps2_cmd_boot [OF assms(1), of R V])

text \<open>The keyboard is set up, or its handler is not registered when a test fails.\<close>

lemma kbd_setup_boot:
  assumes "ps2_ready H" and "bootv H R V s"
  shows "returns (kbd_setup s) (\<lambda>t. bootv H R V t \<or> bootv H R (V(33 := Some kbd_interrupt_ptr)) t)"
proof -
  define K where "K = (\<lambda>t. bootv H R V t \<or> bootv H R (V(33 := Some kbd_interrupt_ptr)) t)"
  have stack: "bootv H R V (t\<lparr>kbd_stack := replicate 512 kbd_event_zero\<rparr>)" if "bootv H R V t" for t
    using that by (auto simp: bootv_def booting_def kernel_ok_defs boot_rest_def)
  have fail: "K t" if "bootv H R V t" for t using that by (simp add: K_def)
  have ok: "K ((int_regh IRQ1 (Some kbd_interrupt_ptr) t)\<lparr>kbd_keycode_map := a, kbd_keycode_shift_map := b\<rparr>)"
    if "bootv H R V t" for t a b
    using bootv_regh [OF that, of IRQ1 "Some kbd_interrupt_ptr"] by (simp add: IRQ1_def K_def)
  have last: "returns (puts cs t) K" if "K t" for cs t
    using that unfolding K_def by (auto intro: bootv_puts)
  have flush: "bootv H R V (kbd_ps2_flush_buf t)" if "bootv H R V t" for t
    using that by (simp add: kbd_ps2_flush_buf_def frames Let_def)
  have start: "returns (kbd_start t) K" if "bootv H R V t" for t
    unfolding kbd_start_def returns_bind Let_def
    by (rule ps2_cmd_boot [OF assms(1) that], rule ps2_enable_boot [OF assms(1)], assumption,
        rule ps2_cmd_boot [OF assms(1)], assumption, rule last, rule ok) simp
  have "returns (kbd_setup s) K"
    unfolding kbd_setup_def returns_bind Let_def
  proof (rule bootv_puts [OF assms(2)], rule ps2_cmd_boot [OF assms(1) stack], assumption,
      rule ps2_cmd_boot [OF assms(1)], assumption, rule ps2_tests_boot [OF assms(1) flush], assumption)
    fix pass t
    assume t: "bootv H R V t"
    have "returns (kbd_ps2_testch 1 t)
        (\<lambda>x. returns (case x of (ok, s) \<Rightarrow> if \<not> ok then puts cs s else kbd_start s) K)" for cs
      by (rule ps2_tests_boot(2) [OF assms(1) t]) (simp add: last fail start)
    then show "returns (case (pass, t) of (ok, s) \<Rightarrow>
        if \<not> ok then puts (str ''SELF TEST FAIL'' @ [10]) s
        else do {
          (ok, s) \<leftarrow> kbd_ps2_testch 1 s;
          if \<not> ok then puts (str ''CH1 TEST FAIL'' @ [10]) s else kbd_start s
        }) K"
      using t by (simp add: last fail del: str_simps)
  qed
  then show ?thesis by (simp add: K_def)
qed

section \<open>The disk controller and the bus\<close>

lemma bootv_sleep: "bootv H R V s \<Longrightarrow> sleep irqs n s = Some s"
  by (simp add: bootv_def booting_def sleep_def)

lemma bootv_pci:
  assumes "bootv H R V s" and "length es = 256" and "\<forall>e \<in> set es. ie_dev e \<noteq> 0 \<longrightarrow> ie_handler e = Some ide_handle_int_ptr"
  shows "bootv H R V (s\<lparr>pci_int_entries := es\<rparr>)"
  using assms by (auto simp: bootv_def booting_def kernel_ok_defs boot_rest_def)

lemma bootv_disk_irq: "bootv H R V s \<Longrightarrow> n \<in> {IRQ14, IRQ15} \<Longrightarrow> bootv H R V (int_regh n h s)"
  by (auto simp: bootv_def IRQ14_def IRQ15_def)

lemma bootv_request:
  assumes "bootv H R V s" and "\<And>r t. bootv H R V t \<Longrightarrow> Q (r, t)"
  shows "returns (pci_int_request b d f dev ide_handle_int_ptr s) Q"
proof (cases "first_free (\<lambda>ie. ie_dev ie = 0) (pci_int_entries s)")
  case None
  then show ?thesis
    unfolding pci_int_request_def by (auto intro!: bootv_puts [OF assms(1)] assms(2) simp del: str_simps)
next
  case (Some i)
  let ?e = "(pci_int_entries s ! i)\<lparr>ie_bus := b, ie_device := d, ie_function := f, ie_dev := dev,
    ie_handler := Some ide_handle_int_ptr\<rparr>"
  have "length (pci_int_entries s) = 256" "\<forall>e \<in> set (pci_int_entries s). ie_dev e \<noteq> 0 \<longrightarrow> ie_handler e = Some ide_handle_int_ptr"
    using assms(1) by (simp_all add: bootv_def booting_def kernel_ok_def pci_ok_def pci_handlers_ok_def)
  then have "bootv H R V (s\<lparr>pci_int_entries := (pci_int_entries s)[i := ?e]\<rparr>)"
    by (intro bootv_pci [OF assms(1)]) (auto dest: set_update_subset_insert [THEN subsetD])
  with Some assms(2) show ?thesis by (simp add: pci_int_request_def Let_def)
qed

lemma if_intro: "(c \<Longrightarrow> P) \<Longrightarrow> (\<not> c \<Longrightarrow> P') \<Longrightarrow> if c then P else P'"
  by simp

text \<open>An access to the configuration space reads some value and adds to the log.\<close>

definition cfg_valb :: "BYTE \<Rightarrow> BYTE \<Rightarrow> BYTE \<Rightarrow> BYTE \<Rightarrow> 'a machine_scheme \<Rightarrow> BYTE" where
  "cfg_valb b d f off s = fst (pci_cfg_readb b d f off s)"

definition cfg_valw :: "BYTE \<Rightarrow> BYTE \<Rightarrow> BYTE \<Rightarrow> BYTE \<Rightarrow> 'a machine_scheme \<Rightarrow> WORD" where
  "cfg_valw b d f off s = fst (pci_cfg_readw b d f off s)"

definition cfg_vall :: "BYTE \<Rightarrow> BYTE \<Rightarrow> BYTE \<Rightarrow> BYTE \<Rightarrow> 'a machine_scheme \<Rightarrow> LONG" where
  "cfg_vall b d f off s = fst (pci_cfg_readl b d f off s)"

definition cfg_log :: "BYTE \<Rightarrow> BYTE \<Rightarrow> BYTE \<Rightarrow> BYTE \<Rightarrow> 'a machine_scheme \<Rightarrow> io_event list" where
  "cfg_log b d f off s = io_log (snd (pci_cfg_readl b d f off s))"

lemma cfg_reads:
  "pci_cfg_readb b d f off s = (cfg_valb b d f off s, s\<lparr>io_log := cfg_log b d f off s\<rparr>)"
  "pci_cfg_readw b d f off s = (cfg_valw b d f off s, s\<lparr>io_log := cfg_log b d f off s\<rparr>)"
  "pci_cfg_readl b d f off s = (cfg_vall b d f off s, s\<lparr>io_log := cfg_log b d f off s\<rparr>)"
  by (simp_all add: cfg_valb_def cfg_valw_def cfg_vall_def cfg_log_def pci_cfg_readb_def pci_cfg_readw_def
      pci_cfg_readl_def frames Let_def)

lemmas pci_io = pci_cfg_read_pif_def pci_cfg_read_intl_def pci_cfg_write_intl_def pci_cfg_read_bar_def
  cfg_reads pci_cfg_writeb_log Let_def

lemma ide_enable_int_bootv:
  assumes "bootv H R V s" and "\<And>t. bootv H R V t \<Longrightarrow> Q t"
  shows "returns (ide_enable_int b d f s) Q"
  unfolding ide_enable_int_def pci_io prod.case if_distrib [of "\<lambda>m. returns m Q"]
proof (intro if_intro impI, goal_cases)
  case 1
  show ?case
    unfolding returns_bind
    by (rule bootv_request [of H R V]) (use assms in \<open>auto intro!: bootv_puts [of H R V] simp del: str_simps\<close>)
next
  case 2
  show ?case
    by (rule bootv_puts [of H R V]) (use assms in \<open>auto intro!: bootv_disk_irq\<close>)
qed

lemma ide_channel_bootv:
  assumes "bootv H R V s" and "\<And>r t. bootv H R V t \<Longrightarrow> Q (r, t)"
  shows "returns (ide_channel_setnative irqs b d f ch s) Q"
  unfolding ide_channel_setnative_def returns_bind
  by (rule bootv_puts [OF assms(1)])
    (auto simp: pci_io bootv_sleep simp del: str_simps intro!: bootv_puts [of H R V] assms(2))

lemma ide_init_bootv:
  assumes "bootv H R V s" and "\<And>r t. bootv H R V t \<Longrightarrow> Q (r, t)"
  shows "returns (ide_init irqs b d f s) Q"
proof -
  have finish: "returns (ide_finish b d f t) Q" if "bootv H R V t" for t
    unfolding ide_finish_def returns_bind
    by (rule bootv_puts [OF that])
      (auto simp: pci_io intro!: ide_enable_int_bootv [of H R V] assms(2))
  show ?thesis
    unfolding ide_init_def returns_bind
    by (rule bootv_puts [OF assms(1)])
      (auto intro!: ide_channel_bootv [of H R V] finish assms(2))
qed

lemma bootv_putn:
  assumes "bootv H R V s" and "\<And>t. bootv H R V t \<Longrightarrow> Q t"
  shows "returns (putn n base s) Q"
proof (rule putn_wp [OF tty_step_refl])
  show "tty_ready s" using assms(1) by (simp add: bootv_def booting_def kernel_ok_def)
  show "Q t" if "tty_step s t" for t using bootv_tty [OF that assms(1)] by (rule assms(2))
qed

lemma bootv_print_name:
  assumes "bootv H R V s" and "\<And>t. bootv H R V t \<Longrightarrow> Q t"
  shows "returns (pci_print_loc b d f s) Q" and "returns (pci_print_name dv b d f s) Q"
proof -
  have loc: "returns (pci_print_loc b d f s) Q" if "bootv H R V s" for s
    unfolding pci_print_loc_def returns_bind
    using that assms(2) by (auto intro!: bootv_putn [of H R V] bootv_puts [of H R V] simp del: str_simps)
  then show "returns (pci_print_loc b d f s) Q" using assms(1) .
  show "returns (pci_print_name dv b d f s) Q"
    unfolding pci_print_name_def returns_bind
    using assms(1) by (auto intro!: loc bootv_puts [of H R V] simp del: str_simps)
qed

lemma pci_start_boot:
  assumes "bootv H R V s" and "\<And>t. bootv H R V t \<Longrightarrow> Q t"
  shows "returns (pci_start call_initf pci_dev_disk [] b d f s) Q"
proof -
  have "returns (call_initf ide_init_ptr (ucast b) (ucast d) (ucast f) t)
      (\<lambda>x. (fst x \<noteq> 0 \<longrightarrow> returns (puts (str ''[pci] Initialization failure.'' @ [10]) (snd x)) Q) \<and>
        (fst x = 0 \<longrightarrow> Q (snd x)))"
    if "bootv H R V t" for t
    unfolding call_initf.simps
    by (rule ide_init_bootv [OF that]) (use assms(2) in \<open>auto intro!: bootv_puts [of H R V] simp del: str_simps\<close>)
  then show ?thesis
    unfolding pci_start_def returns_bind
    by (intro bootv_print_name(2) [OF assms(1)])
      (simp add: pci_dev_disk_def case_prod_beta' del: str_simps call_initf.simps)
qed

lemma pci_probe_boot:
  assumes "bootv H R V s"
  shows "returns (pci_probe call_initf pci_devices p s) (bootv H R V)"
proof -
  have go: "returns (pci_match call_initf b d f vendor devid cls scls pci_devices t) (bootv H R V)"
    if "bootv H R V t" for b d f vendor devid cls scls t
  proof (cases "class_code pci_dev_disk = cls \<and> sub_class pci_dev_disk = scls")
    case True
    then show ?thesis
      using pci_start_boot [OF that, of "bootv H R V"] by (simp add: pci_devices_def pci_dev_disk_def del: str_simps)
  next
    case False
    have "ids_len pci_dev_disk = 33" by (simp add: pci_dev_disk_def)
    with False show ?thesis
      unfolding pci_devices_def pci_match.simps returns_bind
      by (auto intro!: bootv_puts [of H R V] bootv_putn [of H R V] bootv_print_name(1) [of H R V] that simp del: str_simps)
  qed
  obtain b d f where p: "p = (b, d, f)" by (cases p)
  show ?thesis
    unfolding p pci_probe_def using assms by (simp add: cfg_reads go Let_def)
qed

lemma pci_setup_boot:
  assumes "bootv H R V s"
  shows "returns (pci_setup call_initf pci_devices s) (bootv H R (V(42 := Some pci_irq_handler_ptr)))"
proof -
  let ?V = "V(42 := Some pci_irq_handler_ptr)"
  have reg: "bootv H R ?V (int_regh IRQ10 (Some pci_irq_handler_ptr)
      (t\<lparr>pci_int_entries := replicate 256 pci_int_entry_zero\<rparr>))" if "bootv H R V t" for t
    using bootv_regh [OF bootv_pci [OF that, of "replicate 256 pci_int_entry_zero"], of IRQ10 "Some pci_irq_handler_ptr"]
    by (simp add: IRQ10_def pci_int_entry_zero_def)
  show ?thesis
    unfolding pci_setup_def pci_scan_eq returns_bind Let_def
    by (rule bootv_puts [OF assms], rule bootv_puts [OF reg], assumption)
      (rule for_each_returns, rule pci_probe_boot)
qed

section \<open>The network\<close>

lemma boot_rest_upper:
  fixes s t :: "'a kssfs_scheme"
  assumes "boot_rest t = boot_rest s"
  shows "eth_ifs t = eth_ifs s" "network__disable t = network__disable s" "net_addrs t = net_addrs s"
    "kssfs_lba t = kssfs_lba s" "mmgmt_counter t = mmgmt_counter s" "mmgmt_start t = mmgmt_start s"
    "mmgmt_len t = mmgmt_len s" "mem t = mem s"
  using assms by (cases s, cases t, simp add: boot_rest_def)+

lemma ethernet_setup_boot:
  fixes s :: "'a kssfs_scheme"
  assumes "bootv H R V s" and "mmgmt_counter s < mmgmt_len s" and "mm_top s + 4096 < 2 ^ 32"
  shows "returns (ethernet_setup s) (\<lambda>t. bootv H (boot_rest t) V t \<and> no_ethernet t \<and>
    network__disable t = network__disable s \<and> kssfs_lba t = kssfs_lba s \<and>
    unat (mmgmt_counter t) = unat (mmgmt_counter s) + 1 \<and> mmgmt_start t = mmgmt_start s \<and>
    mmgmt_len t = mmgmt_len s)"
  unfolding ethernet_setup_def returns_bind
proof (rule bootv_puts [OF assms(1)])
  fix t
  assume t: "bootv H R V t"
  then have rest: "boot_rest t = boot_rest s" using assms(1) by (simp add: bootv_def booting_def)
  note up = boot_rest_upper [OF rest]
  obtain a c where a: "malloc (of_nat ETH_MAX_IFS * sizeof_ethdev) t = (a, t\<lparr>mmgmt_counter := c\<rparr>)"
      "unat c = unat (mmgmt_counter s) + 1"
    using malloc_page [of "of_nat ETH_MAX_IFS * sizeof_ethdev" t] assms(2,3) up
    by (auto simp: ETH_MAX_IFS_def sizeof_ethdev_def mm_top_def)
  have "bootv H (boot_rest (t\<lparr>mmgmt_counter := c, eth_ifs_at := a, eth_ifs := e\<rparr>)) V
      (t\<lparr>mmgmt_counter := c, eth_ifs_at := a, eth_ifs := e\<rparr>)" for e
    using t by (auto simp: bootv_def booting_def kernel_ok_defs)
  with a up show "returns (let (a, s) = malloc (of_nat ETH_MAX_IFS * sizeof_ethdev) t in
      Some (s\<lparr>eth_ifs_at := a, eth_ifs := replicate ETH_MAX_IFS ethdev_zero\<rparr>))
    (\<lambda>t. bootv H (boot_rest t) V t \<and> no_ethernet t \<and>
    network__disable t = network__disable s \<and> kssfs_lba t = kssfs_lba s \<and>
    unat (mmgmt_counter t) = unat (mmgmt_counter s) + 1 \<and> mmgmt_start t = mmgmt_start s \<and>
    mmgmt_len t = mmgmt_len s)"
    by (simp add: no_ethernet_def ethdev_zero_def)
qed

lemma bootv_rest:
  fixes s t :: "'a kssfs_scheme"
  assumes "bootv H R V s" and "bootv H R V t"
  shows "boot_rest t = boot_rest s"
  using assms by (simp add: bootv_def booting_def)

lemma bootv_self: "bootv H R V s \<Longrightarrow> bootv H (boot_rest s) V s"
  by (simp add: bootv_def booting_def)

lemma network_setup_boot:
  fixes s :: "'a kssfs_scheme"
  assumes s: "bootv H R V s" and net: "no_ethernet s" "network__disable s = 0"
    and mem: "unat (mmgmt_counter s) + 1 < unat (mmgmt_len s)" "0 < mm_top s" "mm_top s + 2 * 4096 < 2 ^ 32"
  shows "returns (network_setup call irqs s) (\<lambda>t. bootv H (boot_rest t) V t \<and> kssfs_lba t = kssfs_lba s \<and>
    (\<exists>a. net_ifs t = loopback a # replicate 15 netdev_zero))"
proof -
  have "tty_ready s" using s by (simp add: bootv_def booting_def kernel_ok_def)
  then obtain t a where t: "network_setup call irqs s = Some t" "net_step s t"
      "net_ifs t = loopback a # replicate 15 netdev_zero"
    using network_setup_run [OF _ net mem] by blast
  let ?t = "t\<lparr>mmgmt_counter := mmgmt_counter s, net_ifs := net_ifs s, net_ifs_at := net_ifs_at s,
    net_addrs := net_addrs s\<rparr>"
  have b: "bootv H R V ?t" using t(2) s bootv_tty unfolding net_step_def by blast
  then have "bootv H (boot_rest t) V t" by (auto simp: bootv_def booting_def kernel_ok_defs)
  moreover have "kssfs_lba t = kssfs_lba s" using boot_rest_upper(4) [OF bootv_rest [OF s b]] by simp
  ultimately show ?thesis using t(1,3) by auto
qed

section \<open>The boot information\<close>

text \<open>
  Boot information without a command line: tags up to the end tag, outside the buffer of the walk,
  the last memory map with at least three pages in its largest chunk, below 4 GiB.
\<close>

definition boot_info_ok :: "LONG \<Rightarrow> memory \<Rightarrow> LONG \<Rightarrow> LONG list \<Rightarrow> bool" where
  "boot_info_ok buf m address ps \<longleftrightarrow> tag_chain m (address + 8) ps \<and> off_buf buf (address + 8) 8 \<and>
     (\<forall>q \<in> set ps. tag_ok buf m q \<and> off_buf buf (tag_next m q) 8) \<and>
     (case filter (\<lambda>q. tag_type m q = MULTIBOOT_TAG_TYPE_MMAP) (rev ps) of
        [] \<Rightarrow> False
      | q # _ \<Rightarrow> \<forall>e \<in> set (tag_mmap m q). available e \<and>
          (\<forall>f \<in> set (tag_mmap m q). available f \<longrightarrow> me_len f \<le> me_len e) \<longrightarrow>
          3 * 4096 \<le> unat (me_len e) \<and> unat (ucast (me_addr e) :: LONG) + 3 * 4096 < 2 ^ 32)"

definition three_pages :: "'a memmgmt_scheme \<Rightarrow> bool" where
  "three_pages s \<longleftrightarrow> mmgmt_counter s = 0 \<and> 3 \<le> unat (mmgmt_len s) \<and> unat (mmgmt_start s) + 3 * 4096 < 2 ^ 32"

lemma multiboot_boot:
  fixes s :: "'a kssfs_scheme"
  assumes s: "bootv H R V s" and info: "boot_info_ok (argbuf_at A) (mem s) address ps"
  shows "returns (multiboot_process A address s) (\<lambda>t. bootv H (boot_rest t) V t \<and> three_pages t \<and>
    kssfs_lba t = kssfs_lba s \<and> network__disable t = network__disable s)"
proof -
  have ok: "tty_ready s" "text_ok s" using s by (simp_all add: bootv_def booting_def kernel_ok_def)
  have same: "same_but_buf (argbuf_at A) (mem s) (mem s)" by (simp add: same_but_buf_def)
  obtain t where t: "multiboot_process A address s = Some t" "tty_ready t" "text_ok t" "con_same s t"
      "memmgmt.more t = memmgmt.more s"
      "case filter (\<lambda>q. tag_type (mem s) q = MULTIBOOT_TAG_TYPE_MMAP) (rev ps) of
         [] \<Rightarrow> mm_same s t | q # _ \<Rightarrow> mm_on (tag_mmap (mem s) q) t"
    using multiboot_tags_run [OF _ _ same _ _ ok(1), of "address + 8" ps] info ok(2)
    unfolding boot_info_ok_def multiboot_process_def by blast
  have "int_ok t = int_ok s" "timer_ok t = timer_ok s" "kbd_ok t = kbd_ok s" "pci_ok t = pci_ok s"
      "pci_handlers_ok t = pci_handlers_ok s" "ticks2 t = ticks2 s" "int_handlers t = int_handlers s"
      "kssfs_lba t = kssfs_lba s" "network__disable t = network__disable s"
    using t(5) by (cases s, cases t, simp add: kernel_ok_defs)+
  moreover have "three_pages t"
    using t(6) info unfolding boot_info_ok_def three_pages_def mm_on_def
    by (fastforce split: list.splits)
  ultimately show ?thesis
    using s t by (simp add: bootv_def booting_def kernel_ok_def con_same_def)
qed

section \<open>The boot as a whole\<close>

lemma kmain_late_boot:
  fixes s :: "'a kssfs_scheme"
  assumes s: "bootv H R V s" "three_pages s" and st: "kssfs_lba s = 0" "network__disable s = 0"
  shows "returns (kmain_late init_name call irqs run_init s) (\<lambda>(e, t). e = Halted \<and>
    bootv H (boot_rest t) (V(42 := Some pci_irq_handler_ptr)) t)"
proof -
  have mem: "mmgmt_counter s < mmgmt_len s" "mm_top s + 4096 < 2 ^ 32"
    using s(2) by (auto simp: three_pages_def mm_top_def word_less_nat_alt)
  show ?thesis
    unfolding kmain_late_def returns_bind
  proof (rule returns_mono [OF ethernet_setup_boot [OF s(1) mem]], elim conjE,
      rule returns_mono [OF pci_setup_boot], assumption)
    fix t u :: "'a kssfs_scheme"
    let ?V = "V(42 := Some pci_irq_handler_ptr)"
    assume t: "bootv H (boot_rest t) V t" "no_ethernet t" "network__disable t = network__disable s"
        "kssfs_lba t = kssfs_lba s" "unat (mmgmt_counter t) = unat (mmgmt_counter s) + 1"
        "mmgmt_start t = mmgmt_start s" "mmgmt_len t = mmgmt_len s"
      and u: "bootv H (boot_rest t) ?V u"
    have "boot_rest u = boot_rest t" using u by (simp add: bootv_def booting_def)
    note up = boot_rest_upper [OF this]
    have c: "unat (mmgmt_counter u) = 1" using t(5) up s(2) by (simp add: three_pages_def)
    have u': "no_ethernet u" "network__disable u = 0" "unat (mmgmt_counter u) + 1 < unat (mmgmt_len u)"
        "0 < mm_top u" "mm_top u + 2 * 4096 < 2 ^ 32"
      using t up c st(2) s(2) by (simp_all add: no_ethernet_def three_pages_def mm_top_def)
    show "returns (network_setup call irqs u) (\<lambda>s. returns
        (if kssfs_avail s = 0 then do {
           s \<leftarrow> puts (str ''no disk available, halt'' @ [10]) s;
           Some (Halted, s)
         }
         else do {
           let init = 0x3D09000;
           let (found, s) = kssfs_read_file ide_read_sector init init_name s;
           if found = 0 then do {
             s \<leftarrow> puts (str ''no init found, kshell'' @ [10]) s;
             Some (Shell, s)
           }
           else do {
             s \<leftarrow> kmain_init run_init init s;
             Some (Halted, s)
           }
         })
        (\<lambda>(e, t). e = Halted \<and> bootv H (boot_rest t) ?V t))"
      by (rule returns_mono [OF network_setup_boot [OF u u']])
        (use up t st in \<open>auto simp: kssfs_avail_def intro!: bootv_puts intro: bootv_self simp del: str_simps\<close>)
  qed
qed

lemma kmain_boot:
  fixes s :: "'a kssfs_scheme"
  assumes s: "bootv (hw s) (boot_rest s) V s" and st: "ps2_ready (hw s)" "kssfs_lba s = 0" "network__disable s = 0"
    and info: "boot_info_ok (argbuf_at A) (mem s) address ps"
  shows "returns (kmain syms A init_name call irqs run_init MULTIBOOT2_BOOTLOADER_MAGIC address s)
    (\<lambda>(e, t). e = Halted \<and> (\<exists>k. bootv (hw s) (boot_rest t)
       ((V(127 := Some syscall_handler_ptr, 32 := Some timer_handler_ptr))(33 := k, 42 := Some pci_irq_handler_ptr)) t))"
proof -
  let ?H = "hw s" and ?V = "V(127 := Some syscall_handler_ptr, 32 := Some timer_handler_ptr)"
  have sys: "bootv ?H R (V(127 := Some syscall_handler_ptr)) (syscall_setup t)" if "bootv ?H R V t" for R t
    using bootv_regh [OF that, of 127 "Some syscall_handler_ptr"] by (simp add: syscall_setup_def)
  have late: "returns (kmain_late init_name call irqs run_init t) (\<lambda>(e, t). e = Halted \<and>
      (\<exists>k. bootv ?H (boot_rest t) (?V(33 := k, 42 := Some pci_irq_handler_ptr)) t))"
    if "bootv ?H R (?V(33 := k)) t" "three_pages t" "kssfs_lba t = 0" "network__disable t = 0" for R k t
    by (rule returns_mono [OF kmain_late_boot [OF that]]) auto
  have keep: "three_pages t \<and> kssfs_lba t = 0 \<and> network__disable t = 0"
    if "boot_rest t = boot_rest u" "three_pages u" "kssfs_lba u = 0" "network__disable u = 0" for t u :: "'a kssfs_scheme"
    using boot_rest_upper [OF that(1)] that by (simp add: three_pages_def)
  show ?thesis
    unfolding kmain_def Let_def eqTrueI [OF refl] not_True_eq_False if_False returns_bind
  proof (rule bootv_puts [OF s], rule returns_mono [OF int_setup_boot], assumption, rule returns_mono [OF multiboot_boot])
    fix t u :: "'a kssfs_scheme"
    assume u: "bootv ?H (boot_rest s) V u"
    then show "bootv ?H (boot_rest s) V u" .
    note up = boot_rest_upper [OF bootv_rest [OF s u]]
    show "boot_info_ok (argbuf_at A) (mem u) address ps" using info up by simp
    fix v :: "'a kssfs_scheme"
    assume "bootv ?H (boot_rest v) V v \<and> three_pages v \<and> kssfs_lba v = kssfs_lba u \<and>
      network__disable v = network__disable u"
    then have v: "bootv ?H (boot_rest v) V v" "three_pages v" "kssfs_lba v = 0" "network__disable v = 0"
      using up st by simp_all
    show "returns (timer_setup (syscall_setup v)) (\<lambda>s. returns (kbd_setup s) (\<lambda>s. returns
        (kmain_late init_name call irqs run_init s) (\<lambda>(e, t). e = Halted \<and>
          (\<exists>k. bootv ?H (boot_rest t) (?V(33 := k, 42 := Some pci_irq_handler_ptr)) t))))"
    proof (rule returns_mono [OF timer_setup_boot [OF sys [OF v(1)]]], rule returns_mono [OF kbd_setup_boot [OF st(1)]], assumption)
      fix w x :: "'a kssfs_scheme"
      assume "bootv ?H (boot_rest v) ?V x \<or> bootv ?H (boot_rest v) (?V(33 := Some kbd_interrupt_ptr)) x"
      then obtain k where x: "bootv ?H (boot_rest v) (?V(33 := k)) x"
        using fun_upd_triv [of ?V 33] by metis
      then have "boot_rest x = boot_rest v" by (simp add: bootv_def booting_def)
      from keep [OF this v(2-4)] show "returns (kmain_late init_name call irqs run_init x) (\<lambda>(e, t). e = Halted \<and>
          (\<exists>k. bootv ?H (boot_rest t) (?V(33 := k, 42 := Some pci_irq_handler_ptr)) t))"
        using late [OF x] by blast
    qed
  qed
qed

definition boot0 :: kssfs where
  "boot0 = kss0\<lparr>hw := \<lambda>_ _. 1, mem := mb_mem\<rparr>"

lemma boot0_ok: "kernel_ok boot0" "ticks2 boot0 = 0" "ps2_ready (hw boot0)" "kssfs_lba boot0 = 0"
    "network__disable boot0 = 0" "mem boot0 = mb_mem"
proof -
  show "ps2_ready (hw boot0)" by (auto simp: boot0_def ps2_ready_def bit_simps)
qed (simp_all add: boot0_def kss0_def network.defs net0_def ethernet.defs eth0_def ide.defs ide0_def pci.defs
    pci0_def kbd.defs kbd0_def int0_def interrupts.defs kernel_ok_defs pci_int_entry_zero_def)

lemma boot0_info: "boot_info_ok (argbuf_at syms_cmd) (mem boot0) 0x5000 [0x5008]"
  using mb_mem_ok by (simp add: boot_info_ok_def boot0_ok(6) syms_cmd_def mb_mem_tags MULTIBOOT_TAG_TYPE_MMAP_def)

text \<open>
  C1: On boot information without a command line that names at least three free pages, and with
  a keyboard controller that answers, \<open>kmain\<close> never gets stuck: it reaches the endless loop at
  \<open>halt\<close>, whatever the bus, the disk controller and the keyboard reply. The invariant of the
  kernel holds there, and the timer, the system calls and the PCI devices have their handlers.
  No init program is ever loaded, since no component mounts a disk. Started by any other boot
  loader, \<open>kmain\<close> returns with nothing set up.
\<close>

theorem kmain_halts:
  assumes "kernel_ok s" and "ticks2 s = 0" and "ps2_ready (hw s)" and "kssfs_lba s = 0"
    and "network__disable s = 0" and "boot_info_ok (argbuf_at A) (mem s) address ps"
  shows "\<exists>e t. kmain syms A init_name call irqs run_init magic address s = Some (e, t) \<and> kernel_ok t \<and>
    (if magic = MULTIBOOT2_BOOTLOADER_MAGIC then e = Halted \<and> int_handlers t ! 32 = Some timer_handler_ptr \<and>
       int_handlers t ! 42 = Some pci_irq_handler_ptr \<and> int_handlers t ! 127 = Some syscall_handler_ptr
     else e = Returned \<and> printed s t)"
proof (cases "magic = MULTIBOOT2_BOOTLOADER_MAGIC")
  case True
  have "bootv (hw s) (boot_rest s) (\<lambda>n. int_handlers s ! n) s"
    using assms(1,2) by (simp add: bootv_def booting_def)
  from kmain_boot [OF this assms(3-6), of syms init_name call irqs run_init] True show ?thesis
    by (auto simp: returns_def bootv_def booting_def)
next
  case False
  then have "kmain syms A init_name call irqs run_init magic address s = do {
      s \<leftarrow> puts (str ''Please reboot from a Multiboot-compliant bootloader.'') s;
      Some (Returned, s) }"
    by (simp add: kmain_def del: str_simps)
  moreover obtain t where "puts (str ''Please reboot from a Multiboot-compliant bootloader.'') s = Some t" "tty_step s t"
    using puts_tty_step assms(1) unfolding kernel_ok_def by blast
  ultimately show ?thesis
    using False assms(1) kernel_ok_tty [of s t] by (simp add: tty_step_def del: str_simps)
qed

theorem kmain_halts_witness:
  "\<exists>t. kmain syms0 syms_cmd 0x3100 (\<lambda>_ _ _. None) Some (\<lambda>_. Some) 0x36d76289 0x5000 boot0 = Some (Halted, t) \<and>
     int_handlers t ! 32 = Some timer_handler_ptr"
  using kmain_halts [OF boot0_ok(1-5) boot0_info, of syms0 "0x3100" "\<lambda>_ _ _. None" Some "\<lambda>_. Some" "0x36d76289"]
  by (auto simp: MULTIBOOT2_BOOTLOADER_MAGIC_def)

end
