(* ===== verification/Hostfile.thy ===== *)
theory Hostfile
  imports Prelude
begin

text \<open>
  What the tools of \<^verbatim>\<open>tools/\<close> use of the C library of the host: binary files read and written
  at a position, fields of packed structures in byte arrays, and the string functions. A short
  read at the end of a file gives the bytes that are there.
\<close>

section \<open>Files\<close>

record hfile =
  contents :: "BYTE list"
  fpos :: nat

definition fseek :: "nat \<Rightarrow> hfile \<Rightarrow> hfile" where
  "fseek n f = f\<lparr>fpos := n\<rparr>"

definition fread :: "nat \<Rightarrow> hfile \<Rightarrow> BYTE list \<times> hfile" where
  "fread n f = (let bs = take n (drop (fpos f) (contents f)) in (bs, f\<lparr>fpos := fpos f + length bs\<rparr>))"

definition fwrite :: "BYTE list \<Rightarrow> hfile \<Rightarrow> hfile" where
  "fwrite bs f = f\<lparr>contents := take (fpos f) (contents f @ replicate (fpos f - length (contents f)) 0) @ bs @
       drop (fpos f + length bs) (contents f),
     fpos := fpos f + length bs\<rparr>"

text \<open>A read into an array overwrites its front.\<close>

definition into :: "BYTE list \<Rightarrow> BYTE list \<Rightarrow> BYTE list" where
  "into buf bs = bs @ drop (length bs) buf"

lemma fwrite_end:
  "fpos f = length (contents f) \<Longrightarrow> fwrite bs f = \<lparr>contents = contents f @ bs, fpos = length (contents f) + length bs\<rparr>"
  by (simp add: fwrite_def)

lemma fwrite_inside:
  "fpos f + length bs \<le> length (contents f) \<Longrightarrow>
     contents (fwrite bs f) = take (fpos f) (contents f) @ bs @ drop (fpos f + length bs) (contents f)"
  by (simp add: fwrite_def)

section \<open>Fields of packed structures\<close>

definition get16 :: "BYTE list \<Rightarrow> nat \<Rightarrow> WORD" where
  "get16 b k = ucast (b ! k) OR push_bit 8 (ucast (b ! (k + 1)))"

definition get32 :: "BYTE list \<Rightarrow> nat \<Rightarrow> LONG" where
  "get32 b k = ucast (b ! k) OR push_bit 8 (ucast (b ! (k + 1))) OR push_bit 16 (ucast (b ! (k + 2))) OR
     push_bit 24 (ucast (b ! (k + 3)))"

definition le16 :: "WORD \<Rightarrow> BYTE list" where
  "le16 w = [ucast w, ucast (drop_bit 8 w)]"

definition le32 :: "LONG \<Rightarrow> BYTE list" where
  "le32 w = [ucast w, ucast (drop_bit 8 w), ucast (drop_bit 16 w), ucast (drop_bit 24 w)]"

text \<open>Bytes stored in an array at an offset.\<close>

definition put_at :: "nat \<Rightarrow> BYTE list \<Rightarrow> BYTE list \<Rightarrow> BYTE list" where
  "put_at k ds b = take k b @ ds @ drop (k + length ds) b"

lemma length_le [simp]: "length (le16 w) = 2" "length (le32 v) = 4"
  by (simp_all add: le16_def le32_def)

lemma length_put_at [simp]: "k + length ds \<le> length b \<Longrightarrow> length (put_at k ds b) = length b"
  by (simp add: put_at_def)

lemma put_at_nth:
  assumes "k + length ds \<le> length b" and "j < length b"
  shows "put_at k ds b ! j = (if k \<le> j \<and> j < k + length ds then ds ! (j - k) else b ! j)"
  using assms by (auto simp: put_at_def nth_append)

lemma take_drop_put_at:
  assumes "k + length ds \<le> length b"
  shows "take (length ds) (drop k (put_at k ds b)) = ds"
  using assms by (simp add: put_at_def)

lemma take_drop_put_at_other:
  assumes "k + length ds \<le> length b" and "j + n \<le> k \<or> k + length ds \<le> j" and "j + n \<le> length b"
  shows "take n (drop j (put_at k ds b)) = take n (drop j b)"
  using assms by (intro nth_equalityI) (auto simp: put_at_nth)

lemma get32_le32: "get32 (xs @ le32 w @ ys) (length xs) = w"
proof (rule bit_word_eqI)
  show "bit (get32 (xs @ le32 w @ ys) (length xs)) n = bit w n" if "n < LENGTH(32)" for n
    using that unfolding get32_def le32_def
    by (cases "n < 16"; cases "n < 24") (auto simp: nth_append bit_simps dest: bit_imp_le_length)
qed

lemma get16_le16: "get16 (xs @ le16 w @ ys) (length xs) = w"
  unfolding get16_def le16_def
  by (rule bit_word_eqI) (auto simp: nth_append bit_simps dest: bit_imp_le_length)

lemma get32_put_at: "k + 4 \<le> length b \<Longrightarrow> get32 (put_at k (le32 w) b) k = w"
  using get32_le32 [of "take k b" w "drop (k + 4) b"] by (simp add: put_at_def)

lemma get16_put_at: "k + 2 \<le> length b \<Longrightarrow> get16 (put_at k (le16 w) b) k = w"
  using get16_le16 [of "take k b" w "drop (k + 2) b"] by (simp add: put_at_def)

lemma get32_put_other:
  assumes "k + length ds \<le> length b" and "j + 4 \<le> k \<or> k + length ds \<le> j" and "j + 4 \<le> length b"
  shows "get32 (put_at k ds b) j = get32 b j"
  using assms by (auto simp: get32_def put_at_nth)

section \<open>Strings\<close>

text \<open>\<open>strncmp\<close> of the C library; the end of a list stands for its NUL.\<close>

definition chr_at :: "BYTE list \<Rightarrow> BYTE" where
  "chr_at xs = (case xs of [] \<Rightarrow> 0 | x # _ \<Rightarrow> x)"

fun c_strncmp :: "nat \<Rightarrow> BYTE list \<Rightarrow> BYTE list \<Rightarrow> int" where
  "c_strncmp 0 xs ys = 0"
| "c_strncmp (Suc n) xs ys =
     (if chr_at xs \<noteq> chr_at ys then uint (chr_at xs) - uint (chr_at ys)
      else if chr_at xs = 0 then 0
      else c_strncmp n (tl xs) (tl ys))"

text \<open>The string in the first bytes of an array.\<close>

definition cname :: "nat \<Rightarrow> BYTE list \<Rightarrow> BYTE list" where
  "cname n xs = takeWhile (\<lambda>c. c \<noteq> 0) (take n xs)"

lemma cname_Suc: "cname (Suc n) xs = (if chr_at xs = 0 then [] else chr_at xs # cname n (tl xs))"
  by (cases xs) (simp_all add: cname_def chr_at_def)

lemma c_strncmp_eq: "c_strncmp n xs ys = 0 \<longleftrightarrow> cname n xs = cname n ys"
proof (induction n arbitrary: xs ys)
  case (Suc n)
  have "uint (chr_at xs) \<noteq> uint (chr_at ys)" if "chr_at xs \<noteq> chr_at ys"
    using that by (simp add: word_uint_eq_iff)
  then show ?case using Suc.IH [of "tl xs" "tl ys"] by (auto simp: cname_Suc)
qed (simp add: cname_def)

lemma length_strncpy_array [simp]: "length (strncpy_array n cs) = n"
  by (simp add: strncpy_array_def)

lemma takeWhile_zeros: "takeWhile (\<lambda>c. c \<noteq> 0) (replicate n (0 :: BYTE)) = []"
  by (cases n) simp_all

lemma cname_strncpy [simp]: "cname n (strncpy_array n cs) = cname n cs"
  by (auto simp: cname_def strncpy_array_def takeWhile_append takeWhile_zeros takeWhile_eq_all_conv
      intro: sym)

end
