(* ===== verification/Fuse.thy ===== *)
theory Fuse
  imports Kssfs Hostfile
begin

text \<open>
  The program that mounts an image of the first file system on the host,
  \<^verbatim>\<open>tools/kssfs_fuse.c\<close>. Its state is the image, one buffer for a cluster, of which \<open>hdr\<close> and
  \<open>chdr\<close> are views, and the number of clusters. A file handle is the number of a cluster.

  An operation gives \<open>None\<close> where the C code copies outside the buffer. Paths are the bytes
  before the NUL; they start with a slash. User, group and time come from the host.
\<close>

section \<open>Data\<close>

definition KSSFS_CLSTR_FREE :: LONG where "KSSFS_CLSTR_FREE = 0"

definition KSSFS_CLSTR_COM :: LONG where "KSSFS_CLSTR_COM = 1"

definition KSSFS_CLSTR_DATA :: LONG where "KSSFS_CLSTR_DATA = 2"

record fuse =
  fs_file :: hfile
  fs_buf :: "BYTE list"
  fs_cluster_n :: LONG

text \<open>The fields of \<open>kssfs_clstr_hdr\<close> in the buffer.\<close>

definition ch_type :: "BYTE list \<Rightarrow> LONG" where "ch_type b = get32 b 0"

definition ch_len :: "BYTE list \<Rightarrow> WORD" where "ch_len b = get16 b 4"

definition ch_filename :: "BYTE list \<Rightarrow> BYTE list" where "ch_filename b = take 256 (drop 6 b)"

definition ch_uid :: "BYTE list \<Rightarrow> LONG" where "ch_uid b = get32 b 262"

definition ch_gid :: "BYTE list \<Rightarrow> LONG" where "ch_gid b = get32 b 266"

text \<open>The error numbers of the host that are used.\<close>

definition HOST_ENOENT :: int where "HOST_ENOENT = 2"

definition HOST_ENOSPC :: int where "HOST_ENOSPC = 28"

record stat =
  st_mode :: LONG
  st_uid :: LONG
  st_gid :: LONG
  st_nlink :: nat
  st_size :: nat
  st_time :: int

definition stat_zero :: stat where
  "stat_zero = \<lparr>st_mode = 0, st_uid = 0, st_gid = 0, st_nlink = 0, st_size = 0, st_time = 0\<rparr>"

definition S_IFDIR :: LONG where "S_IFDIR = 0x4000"

definition S_IFREG :: LONG where "S_IFREG = 0x8000"

section \<open>Operations\<close>

definition fuse_read_cluster :: "LONG \<Rightarrow> fuse \<Rightarrow> fuse" where
  "fuse_read_cluster i s =
     (let f = fseek (unat (512 + i * 8192)) (fs_file s);
          (bs, f) = fread (512 * 16) f
      in s\<lparr>fs_file := f, fs_buf := into (fs_buf s) bs\<rparr>)"

definition fuse_write_cluster :: "LONG \<Rightarrow> BYTE list \<Rightarrow> fuse \<Rightarrow> fuse" where
  "fuse_write_cluster i b s =
     (let f = fseek (unat (512 + i * 8192)) (fs_file s)
      in s\<lparr>fs_file := fwrite (take (512 * 16) b) f\<rparr>)"

definition kssfs_checkdisk :: "fuse \<Rightarrow> LONG \<times> fuse" where
  "kssfs_checkdisk s =
     (let f = fseek 0 (fs_file s);
          (bs, f) = fread 512 f;
          s = s\<lparr>fs_file := f, fs_buf := into (fs_buf s) bs\<rparr>
      in if get32 (fs_buf s) 0 \<noteq> KSSFS_SIGNATURE then (1, s)
         else (0, s\<lparr>fs_cluster_n := get32 (fs_buf s) 4\<rparr>))"

text \<open>
  The loop that most operations start with: read one cluster after the other until one satisfies
  the condition.
\<close>

fun scan :: "(BYTE list \<Rightarrow> bool) \<Rightarrow> nat \<Rightarrow> LONG \<Rightarrow> fuse \<Rightarrow> LONG option \<times> fuse" where
  "scan P 0 i s = (None, s)"
| "scan P (Suc k) i s =
     (let s = fuse_read_cluster i s
      in if P (fs_buf s) then (Some i, s) else scan P k (i + 1) s)"

definition scan_clusters :: "(BYTE list \<Rightarrow> bool) \<Rightarrow> fuse \<Rightarrow> LONG option \<times> fuse" where
  "scan_clusters P s = scan P (unat (fs_cluster_n s)) 0 s"

definition kssfs_getattr :: "LONG \<Rightarrow> LONG \<Rightarrow> int \<Rightarrow> BYTE list \<Rightarrow> fuse \<Rightarrow> int \<times> stat \<times> fuse" where
  "kssfs_getattr uid gid now path s =
     (if path = str ''/'' then
        (0, stat_zero\<lparr>st_mode := S_IFDIR OR 493, st_uid := uid, st_gid := gid, st_nlink := 2\<rparr>, s)
      else case scan_clusters (\<lambda>b. c_strncmp 256 (drop 1 path) (ch_filename b) = 0) s of
        (Some i, s) \<Rightarrow>
          (0, stat_zero\<lparr>st_mode := S_IFREG OR 493, st_uid := ch_uid (fs_buf s), st_gid := ch_gid (fs_buf s),
             st_size := unat (ch_len (fs_buf s)), st_time := now\<rparr>, s)
      | (None, s) \<Rightarrow> (- HOST_ENOENT, stat_zero, s))"

definition kssfs_fgetattr :: "LONG \<Rightarrow> LONG \<Rightarrow> int \<Rightarrow> BYTE list \<Rightarrow> fuse \<Rightarrow> int \<times> stat \<times> fuse" where
  "kssfs_fgetattr uid gid now path s = kssfs_getattr uid gid now path s"

text \<open>Releasing a file flushes the image, whose contents the model always has.\<close>

definition kssfs_release :: "BYTE list \<Rightarrow> fuse \<Rightarrow> int \<times> fuse" where
  "kssfs_release path s = (0, s)"

text \<open>The names that are given to the callback \<open>filler\<close>, in their order.\<close>

fun readdir_loop :: "nat \<Rightarrow> LONG \<Rightarrow> fuse \<Rightarrow> (BYTE list list \<times> fuse) option" where
  "readdir_loop 0 i s = Some ([], s)"
| "readdir_loop (Suc k) i s = do {
     let s = fuse_read_cluster i s;
     if ch_type (fs_buf s) \<noteq> 0 then do {
       name \<leftarrow> array_str (drop 6 (fs_buf s));
       (names, s) \<leftarrow> readdir_loop k (i + 1) s;
       Some (name # names, s)
     }
     else readdir_loop k (i + 1) s
   }"

definition kssfs_readdir :: "BYTE list \<Rightarrow> fuse \<Rightarrow> (int \<times> BYTE list list \<times> fuse) option" where
  "kssfs_readdir path s =
     (if path \<noteq> str ''/'' then Some (- HOST_ENOENT, [], s)
      else do {
        (names, s) \<leftarrow> readdir_loop (unat (fs_cluster_n s)) 0 s;
        Some (0, str ''.'' # str ''..'' # names, s)
      })"

text \<open>The size of a transfer that is returned; the arithmetic is unsigned, of 64 bits.\<close>

definition transfer_size :: "QUAD \<Rightarrow> QUAD \<Rightarrow> LONG" where
  "transfer_size sz offset =
     (if offset + sz > 7680 then ucast (sz - ((offset + sz) - 7680)) else ucast sz)"

definition kssfs_read :: "QUAD \<Rightarrow> QUAD \<Rightarrow> QUAD \<Rightarrow> fuse \<Rightarrow> (int \<times> BYTE list \<times> fuse) option" where
  "kssfs_read sz offset fh s =
     (let s = fuse_read_cluster (ucast fh) s;
          readsiz = transfer_size sz offset
      in if unat offset + unat sz \<le> 7680
         then Some (sint readsiz, take (unat sz) (drop (512 + unat offset) (fs_buf s)), s)
         else None)"

definition kssfs_write :: "BYTE list \<Rightarrow> QUAD \<Rightarrow> QUAD \<Rightarrow> QUAD \<Rightarrow> fuse \<Rightarrow> (int \<times> fuse) option" where
  "kssfs_write fbuf sz offset fh s =
     (let s = fuse_read_cluster (ucast fh) s;
          writesiz = transfer_size sz offset
      in if unat offset + unat sz \<le> 7680 then
           (let s = s\<lparr>fs_buf := put_at (512 + unat offset) (take (unat sz) fbuf) (fs_buf s)\<rparr>;
                s = s\<lparr>fs_buf := put_at 4 (le16 (ucast (offset + ucast writesiz))) (fs_buf s)\<rparr>;
                s = fuse_write_cluster (ucast fh) (fs_buf s) s
            in Some (sint writesiz, s))
         else None)"

definition kssfs_unlink :: "BYTE list \<Rightarrow> fuse \<Rightarrow> int \<times> fuse" where
  "kssfs_unlink path s =
     (case scan_clusters (\<lambda>b. ch_type b \<noteq> KSSFS_CLSTR_FREE \<and> c_strncmp 256 path (ch_filename b) = 0) s of
        (Some i, s) \<Rightarrow>
          (let s = s\<lparr>fs_buf := replicate 8192 0\<rparr> in (0, fuse_write_cluster i (fs_buf s) s))
      | (None, s) \<Rightarrow> (- HOST_ENOENT, s))"

definition kssfs_create :: "BYTE list \<Rightarrow> fuse \<Rightarrow> int \<times> QUAD option \<times> fuse" where
  "kssfs_create path s =
     (case scan_clusters (\<lambda>b. ch_type b = KSSFS_CLSTR_FREE) s of
        (Some i, s) \<Rightarrow>
          (let s = s\<lparr>fs_buf := put_at 0 (le32 KSSFS_CLSTR_COM) (fs_buf s)\<rparr>;
               s = s\<lparr>fs_buf := put_at 6 (strncpy_array 256 (drop 1 path)) (fs_buf s)\<rparr>;
               s = fuse_write_cluster i (fs_buf s) s
           in (0, Some (ucast i), s))
      | (None, s) \<Rightarrow> (- HOST_ENOSPC, None, s))"

definition kssfs_open :: "BYTE list \<Rightarrow> fuse \<Rightarrow> int \<times> QUAD option \<times> fuse" where
  "kssfs_open path s =
     (case scan_clusters (\<lambda>b. ch_type b \<noteq> 0 \<and> c_strncmp 256 (drop 1 path) (ch_filename b) = 0) s of
        (Some i, s) \<Rightarrow> (0, Some (ucast i), s)
      | (None, s) \<Rightarrow> kssfs_create path s)"

definition kssfs_rename :: "BYTE list \<Rightarrow> BYTE list \<Rightarrow> fuse \<Rightarrow> int \<times> fuse" where
  "kssfs_rename from to s =
     (case scan_clusters (\<lambda>b. ch_type b \<noteq> 0 \<and> c_strncmp 256 (drop 1 from) (ch_filename b) = 0) s of
        (Some i, s) \<Rightarrow> (0, s\<lparr>fs_buf := put_at 6 (strncpy_array 256 (drop 1 to)) (fs_buf s)\<rparr>)
      | (None, s) \<Rightarrow> (- HOST_ENOENT, s))"

definition kssfs_truncate :: "BYTE list \<Rightarrow> QUAD \<Rightarrow> fuse \<Rightarrow> int \<times> fuse" where
  "kssfs_truncate path offset s = (0, s)"

section \<open>The image as a list of clusters\<close>

definition img :: "fuse \<Rightarrow> BYTE list" where "img s = contents (fs_file s)"

text \<open>
  A mounted image: whole clusters after the header, as many as the header says, and small enough
  for the 32-bit arithmetic of the position.
\<close>

definition fuse_ok :: "fuse \<Rightarrow> bool" where
  "fuse_ok s \<longleftrightarrow> length (fs_buf s) = 8192 \<and> length (img s) = 512 + 8192 * unat (fs_cluster_n s) \<and>
     length (img s) \<le> 2 ^ 32 \<and> get32 (img s) 0 = KSSFS_SIGNATURE \<and> get32 (img s) 4 = fs_cluster_n s"

definition clusters :: "fuse \<Rightarrow> BYTE list list" where
  "clusters s = map (\<lambda>i. take 8192 (drop (512 + 8192 * i) (img s))) [0..<unat (fs_cluster_n s)]"

lemma length_clusters [simp]: "length (clusters s) = unat (fs_cluster_n s)"
  by (simp add: clusters_def)

lemma cluster_pos:
  assumes "fuse_ok s" and "i < unat (fs_cluster_n s)"
  shows "unat (512 + of_nat i * 8192 :: LONG) = 512 + 8192 * i" and "unat (of_nat i :: LONG) = i"
    and "512 + 8192 * i + 8192 \<le> length (img s)"
proof -
  have l: "512 + 8192 * i + 8192 \<le> length (img s)" "length (img s) \<le> 2 ^ 32"
    using assms by (simp_all add: fuse_ok_def)
  then show "512 + 8192 * i + 8192 \<le> length (img s)" by blast
  have "512 + of_nat i * 8192 = (of_nat (512 + 8192 * i) :: LONG)" by simp
  moreover have "unat (of_nat (512 + 8192 * i) :: LONG) = 512 + 8192 * i" using l by (intro unat_of_nat_small) simp
  ultimately show "unat (512 + of_nat i * 8192 :: LONG) = 512 + 8192 * i" by metis
  show "unat (of_nat i :: LONG) = i" using l by (intro unat_of_nat_small) simp
qed

lemma length_cluster: "fuse_ok s \<Longrightarrow> c \<in> set (clusters s) \<Longrightarrow> length c = 8192"
  using cluster_pos(3) [of s] by (fastforce simp: clusters_def)

text \<open>Two states with the same image, of which the operations see the same.\<close>

definition same_image :: "fuse \<Rightarrow> fuse \<Rightarrow> bool" where
  "same_image s t \<longleftrightarrow> img t = img s \<and> fs_cluster_n t = fs_cluster_n s"

lemma same_image_refl [simp]: "same_image s s"
  by (simp add: same_image_def)

lemma same_image_trans: "same_image s t \<Longrightarrow> same_image t u \<Longrightarrow> same_image s u"
  by (simp add: same_image_def)

lemma same_image_ok: "same_image s t \<Longrightarrow> length (fs_buf t) = 8192 \<Longrightarrow> fuse_ok s \<Longrightarrow> fuse_ok t"
  by (simp add: same_image_def fuse_ok_def)

lemma same_image_clusters: "same_image s t \<Longrightarrow> clusters t = clusters s"
  by (simp add: same_image_def clusters_def)

lemma read_cluster:
  assumes "fuse_ok s" and "i < unat (fs_cluster_n s)"
  shows "fs_buf (fuse_read_cluster (of_nat i) s) = clusters s ! i"
    and "same_image s (fuse_read_cluster (of_nat i) s)" and "fuse_ok (fuse_read_cluster (of_nat i) s)"
proof -
  note pos = cluster_pos [OF assms]
  show "fs_buf (fuse_read_cluster (of_nat i) s) = clusters s ! i"
    using assms pos by (simp add: fuse_read_cluster_def fread_def fseek_def into_def clusters_def img_def
        fuse_ok_def Let_def)
  moreover show same: "same_image s (fuse_read_cluster (of_nat i) s)"
    by (simp add: fuse_read_cluster_def fread_def fseek_def same_image_def img_def Let_def)
  ultimately show "fuse_ok (fuse_read_cluster (of_nat i) s)"
    using same_image_ok [OF same _ assms(1)] length_cluster [OF assms(1)] assms(2) by simp
qed

lemma write_cluster:
  assumes "fuse_ok s" and "i < unat (fs_cluster_n s)" and "length b = 8192"
  defines "t \<equiv> fuse_write_cluster (of_nat i) b s"
  shows "clusters t = (clusters s)[i := b]" and "fuse_ok t" and "fs_cluster_n t = fs_cluster_n s"
    and "take 512 (img t) = take 512 (img s)" and "fs_buf t = fs_buf s"
proof -
  note pos = cluster_pos [OF assms(1,2)]
  have n: "fs_cluster_n t = fs_cluster_n s" "fs_buf t = fs_buf s"
    by (simp_all add: t_def fuse_write_cluster_def)
  then show "fs_cluster_n t = fs_cluster_n s" "fs_buf t = fs_buf s" by simp_all
  have im: "img t = put_at (512 + 8192 * i) b (img s)"
    using pos assms(3) by (simp add: t_def fuse_write_cluster_def img_def fseek_def fwrite_inside put_at_def Let_def)
  have len: "length (img t) = length (img s)" unfolding im using pos(3) assms(3) by simp
  show head: "take 512 (img t) = take 512 (img s)"
    unfolding im using take_drop_put_at_other [of "512 + 8192 * i" b "img s" 0 512] pos(3) assms(3) by simp
  have "get32 (img t) 0 = get32 (img s) 0" "get32 (img t) 4 = get32 (img s) 4"
    unfolding im using pos(3) assms(3) by (simp_all add: get32_put_other)
  with n len assms(1) show "fuse_ok t" by (simp add: fuse_ok_def)
  have "take 8192 (drop (512 + 8192 * j) (img t)) = (if j = i then b else clusters s ! j)"
    if j: "j < unat (fs_cluster_n s)" for j
  proof (cases "j = i")
    case True
    then show ?thesis unfolding im using take_drop_put_at [of "512 + 8192 * i" b "img s"] pos(3) assms(3) by simp
  next
    case False
    then have "512 + 8192 * j + 8192 \<le> 512 + 8192 * i \<or> 512 + 8192 * i + 8192 \<le> 512 + 8192 * j" by linarith
    then show ?thesis
      unfolding im using take_drop_put_at_other [of "512 + 8192 * i" b "img s" "512 + 8192 * j" 8192] False
        pos(3) assms(3) cluster_pos(3) [OF assms(1) j] j by (simp add: clusters_def)
  qed
  then show "clusters t = (clusters s)[i := b]"
    using n by (intro nth_equalityI) (simp_all add: clusters_def [of t] nth_list_update)
qed

text \<open>The loop finds the first cluster that satisfies the condition.\<close>

lemma scan_finds:
  assumes "fuse_ok s" and "i + k \<le> unat (fs_cluster_n s)"
  shows "\<exists>t. same_image s t \<and> fuse_ok t \<and>
    (case find (\<lambda>j. P (clusters s ! j)) [i..<i + k] of
       None \<Rightarrow> scan P k (of_nat i) s = (None, t)
     | Some j \<Rightarrow> scan P k (of_nat i) s = (Some (of_nat j), t) \<and> fs_buf t = clusters s ! j)"
  using assms
proof (induction k arbitrary: i s)
  case 0
  then show ?case by auto
next
  case (Suc k)
  then have i: "i < unat (fs_cluster_n s)" by simp
  define u where "u = fuse_read_cluster (of_nat i) s"
  note u = read_cluster [OF Suc.prems(1) i, folded u_def]
  have upt: "[i..<i + Suc k] = i # [Suc i..<Suc i + k]" by (simp add: upt_conv_Cons)
  show ?case
  proof (cases "P (clusters s ! i)")
    case True
    then show ?thesis using u unfolding upt by (auto simp: u_def [symmetric] Let_def)
  next
    case False
    have "Suc i + k \<le> unat (fs_cluster_n u)" using Suc.prems(2) u(2) by (simp add: same_image_def)
    from Suc.IH [OF u(3) this] False u show ?thesis
      unfolding upt same_image_clusters [OF u(2)]
      by (auto simp: u_def [symmetric] Let_def add.commute split: option.splits intro: same_image_trans)
  qed
qed

definition first_cluster :: "(BYTE list \<Rightarrow> bool) \<Rightarrow> BYTE list list \<Rightarrow> nat option" where
  "first_cluster P cs = find (\<lambda>j. P (cs ! j)) [0..<length cs]"

lemma first_cluster_Some: "first_cluster P cs = Some j \<Longrightarrow> j < length cs \<and> P (cs ! j)"
  by (auto simp: first_cluster_def find_Some_iff)

lemma scan_clustersE [consumes 1, case_names none found]:
  assumes "fuse_ok s"
  obtains (none) t where "first_cluster P (clusters s) = None" "scan_clusters P s = (None, t)" "same_image s t" "fuse_ok t"
  | (found) j t where "first_cluster P (clusters s) = Some j" "scan_clusters P s = (Some (of_nat j), t)"
      "same_image s t" "fuse_ok t" "fs_buf t = clusters s ! j" "j < unat (fs_cluster_n s)"
  using scan_finds [OF assms, of 0 "unat (fs_cluster_n s)" P] first_cluster_Some [of P "clusters s"]
  unfolding scan_clusters_def first_cluster_def by (fastforce split: option.splits)

section \<open>Opening files\<close>

text \<open>The abstract operation on the list of clusters: find the name, or take the first free cluster.\<close>

definition named :: "BYTE list \<Rightarrow> BYTE list \<Rightarrow> bool" where
  "named name c \<longleftrightarrow> ch_type c \<noteq> 0 \<and> cname 256 name = cname 256 (ch_filename c)"

definition new_file :: "BYTE list \<Rightarrow> BYTE list \<Rightarrow> BYTE list" where
  "new_file name c = put_at 6 (strncpy_array 256 name) (put_at 0 (le32 KSSFS_CLSTR_COM) c)"

definition spec_open :: "BYTE list \<Rightarrow> BYTE list list \<Rightarrow> nat option \<times> BYTE list list" where
  "spec_open name cs =
     (case first_cluster (named name) cs of
        Some j \<Rightarrow> (Some j, cs)
      | None \<Rightarrow>
          (case first_cluster (\<lambda>c. ch_type c = 0) cs of
             Some j \<Rightarrow> (Some j, cs[j := new_file name (cs ! j)])
           | None \<Rightarrow> (None, cs)))"

lemma new_file_props:
  assumes "length c = 8192"
  shows "length (new_file name c) = 8192" and "named name (new_file name c)"
    and "drop 262 (new_file name c) = drop 262 c"
proof -
  let ?c = "put_at 0 (le32 KSSFS_CLSTR_COM) c"
  have c: "length ?c = 8192" using assms by simp
  then show len: "length (new_file name c) = 8192" by (simp add: new_file_def)
  have "ch_type (new_file name c) = KSSFS_CLSTR_COM"
    using assms c by (simp add: ch_type_def new_file_def get32_put_other get32_put_at)
  moreover have "ch_filename (new_file name c) = strncpy_array 256 name"
    using take_drop_put_at [of 6 "strncpy_array 256 name" ?c] c by (simp add: ch_filename_def new_file_def)
  ultimately show "named name (new_file name c)" by (simp add: named_def KSSFS_CLSTR_COM_def)
  show "drop 262 (new_file name c) = drop 262 c"
    using assms c len by (intro nth_equalityI) (simp_all add: new_file_def put_at_nth)
qed

lemma spec_open_again:
  assumes "spec_open name cs = (Some j, ds)" and "\<forall>c \<in> set cs. length c = 8192"
  shows "spec_open name ds = (Some j, ds)" and "j < length ds"
proof -
  have "first_cluster (named name) ds = Some j \<and> j < length ds"
  proof (cases "first_cluster (named name) cs")
    case (Some k)
    then show ?thesis using assms(1) first_cluster_Some [OF Some] by (simp add: spec_open_def)
  next
    case None
    then have no: "\<not> named name (cs ! k)" if "k < length cs" for k
      using that by (auto simp: first_cluster_def find_None_iff)
    obtain f: "first_cluster (\<lambda>c. ch_type c = 0) cs = Some j" and ds: "ds = cs[j := new_file name (cs ! j)]"
      using assms(1) None by (auto simp: spec_open_def split: option.splits)
    have j: "j < length cs" using first_cluster_Some [OF f] by simp
    then have "named name (ds ! j)" using new_file_props(2) assms(2) ds by simp
    moreover have "\<not> named name (ds ! k)" if "k < j" for k using no [of k] that j ds by simp
    ultimately show ?thesis
      using j ds by (auto simp: first_cluster_def find_Some_iff intro!: exI [of _ j])
  qed
  then show "spec_open name ds = (Some j, ds)" "j < length ds" by (simp_all add: spec_open_def)
qed

lemma ucast_cluster: "fuse_ok s \<Longrightarrow> j < unat (fs_cluster_n s) \<Longrightarrow> (ucast (of_nat j :: LONG) :: QUAD) = of_nat j"
  using cluster_pos(2) [of s j] by (metis of_nat_unat)

lemma kssfs_open_spec:
  assumes "fuse_ok s"
  shows "\<exists>t. fuse_ok t \<and> fs_cluster_n t = fs_cluster_n s \<and> clusters t = snd (spec_open (drop 1 path) (clusters s)) \<and>
    kssfs_open path s = (case fst (spec_open (drop 1 path) (clusters s)) of
      Some j \<Rightarrow> (0, Some (of_nat j), t) | None \<Rightarrow> (- HOST_ENOSPC, None, t))"
proof -
  have op: "kssfs_open path s = (case scan_clusters (named (drop 1 path)) s of
      (Some i, s) \<Rightarrow> (0, Some (ucast i), s) | (None, s) \<Rightarrow> kssfs_create path s)"
    unfolding kssfs_open_def named_def [abs_def] c_strncmp_eq ..
  show ?thesis
    using assms
  proof (cases rule: scan_clustersE [where P = "named (drop 1 path)"])
    case (found j t)
    then show ?thesis
      using ucast_cluster [OF assms] same_image_clusters [OF found(3)]
      by (intro exI [of _ t]) (simp add: op spec_open_def same_image_def)
  next
    case (none t)
    then have cs: "clusters t = clusters s" "fs_cluster_n t = fs_cluster_n s"
      by (simp_all add: same_image_clusters) (simp add: same_image_def)
    have op: "kssfs_open path s = kssfs_create path t" using none(2) by (simp add: op)
    show ?thesis
      using none(4)
    proof (cases rule: scan_clustersE [where P = "\<lambda>b. ch_type b = KSSFS_CLSTR_FREE"])
      case (found j u)
      let ?b = "new_file (drop 1 path) (fs_buf u)"
      have j: "j < unat (fs_cluster_n u)" "fs_cluster_n u = fs_cluster_n s"
        using found(3,6) cs by (simp_all add: same_image_def)
      have b: "length ?b = 8192" using new_file_props(1) found(4) by (simp add: fuse_ok_def)
      define v where "v = u\<lparr>fs_buf := ?b\<rparr>"
      have v: "fuse_ok v" "clusters v = clusters s" "fs_cluster_n v = fs_cluster_n u"
        using found(3,4) b cs same_image_clusters [OF found(3)]
        by (simp_all add: v_def fuse_ok_def clusters_def img_def)
      note w = write_cluster [OF v(1) j(1) [folded v(3)] b]
      have "kssfs_create path t = (0, Some (of_nat j), fuse_write_cluster (of_nat j) ?b v)"
        using found(2) ucast_cluster [OF found(4) j(1)]
        by (simp add: kssfs_create_def Let_def v_def new_file_def)
      moreover have "spec_open (drop 1 path) (clusters s) = (Some j, (clusters s)[j := ?b])"
        using none(1) found(1,5) cs by (simp add: spec_open_def KSSFS_CLSTR_FREE_def)
      ultimately show ?thesis using op w v j by auto
    next
      case (none u)
      then have "spec_open (drop 1 path) (clusters s) = (None, clusters s)"
        using \<open>first_cluster (named (drop 1 path)) (clusters s) = None\<close> cs
        by (simp add: spec_open_def KSSFS_CLSTR_FREE_def)
      then show ?thesis
        using none(2,4) op cs same_image_clusters [OF none(3)] none(3)
        by (intro exI [of _ u]) (simp add: kssfs_create_def same_image_def)
    qed
  qed
qed

text \<open>
  C15: Opening a file refines the abstract operation on the list of clusters: the file with that
  name if there is one, otherwise a new file in the first free cluster, otherwise the error that
  no space is left. All other clusters keep their contents.
\<close>

theorem fuse_open_refines:
  assumes "fuse_ok s"
  shows "\<exists>t. fuse_ok t \<and> clusters t = snd (spec_open (drop 1 path) (clusters s)) \<and>
    kssfs_open path s = (case fst (spec_open (drop 1 path) (clusters s)) of
      Some j \<Rightarrow> (0, Some (of_nat j), t) | None \<Rightarrow> (- HOST_ENOSPC, None, t))"
  using kssfs_open_spec [OF assms, of path] by blast

text \<open>An image with two clusters, the second of them free, for the examples.\<close>

definition fuse0 :: fuse where
  "fuse0 = \<lparr>fs_file = \<lparr>contents = put_at 0 (le32 KSSFS_SIGNATURE @ le32 2) (put_at 512 [2] (put_at 518 [98] (replicate 16896 0))),
     fpos = 0\<rparr>, fs_buf = replicate 8192 0, fs_cluster_n = 2\<rparr>"

lemma fuse0_img: "img fuse0 = le32 KSSFS_SIGNATURE @ le32 2 @ replicate 504 0 @ ([2] @ replicate 5 0 @ [98] @ replicate 8185 0) @ replicate 8192 0"
proof -
  have "replicate 16896 (0 :: BYTE) = replicate (518 + (1 + 16377)) 0" "replicate 518 (0 :: BYTE) = replicate (512 + (1 + 5)) 0"
    by simp_all
  then show ?thesis
    unfolding replicate_add by (simp add: img_def fuse0_def put_at_def replicate_add [symmetric])
qed

lemma fuse0_ok: "fuse_ok fuse0"
proof -
  have "get32 (img fuse0) 0 = KSSFS_SIGNATURE" "get32 (img fuse0) 4 = 2"
    unfolding fuse0_img
    using get32_le32 [of "[]" KSSFS_SIGNATURE] get32_le32 [of "le32 KSSFS_SIGNATURE" 2] by simp_all
  moreover have "length (img fuse0) = 16896" unfolding fuse0_img by simp
  ultimately show ?thesis by (simp add: fuse_ok_def) (simp add: fuse0_def)
qed

lemma fuse0_clusters:
  "clusters fuse0 = [[2] @ replicate 5 0 @ [98] @ replicate 8185 0, replicate 8192 0]"
proof -
  have "unat (fs_cluster_n fuse0) = 2" by (simp add: fuse0_def)
  moreover have "[0..<2] = [0, 1]" by (simp add: numeral_2_eq_2)
  ultimately show ?thesis unfolding clusters_def fuse0_img by simp
qed

lemma fuse0_first:
  "ch_type ([2] @ replicate 5 0 @ [98] @ replicate 8185 0) = 2" "ch_type (replicate 8192 0) = 0"
  "cname 256 (ch_filename ([2] @ replicate 5 0 @ [98] @ replicate 8185 0)) = [98]"
  by (simp_all add: ch_type_def get32_def nth_append ch_filename_def cname_def)

lemma fuse0_open: "fst (spec_open (str ''a'') (clusters fuse0)) = Some 1"
proof -
  have "str ''a'' = [97]" by simp
  then have "\<not> named (str ''a'') (clusters fuse0 ! i)" if "i < 2" for i
    using that fuse0_first unfolding fuse0_clusters
    by (auto simp: less_2_cases_iff named_def cname_def)
  then have "first_cluster (named (str ''a'')) (clusters fuse0) = None"
    by (simp add: first_cluster_def find_None_iff fuse0_def)
  moreover have "first_cluster (\<lambda>c. ch_type c = 0) (clusters fuse0) = Some 1"
    using fuse0_first unfolding fuse0_clusters by (simp add: first_cluster_def numeral_2_eq_2)
  ultimately show ?thesis by (simp add: spec_open_def)
qed

theorem fuse_open_refines_witness:
  "\<exists>t. kssfs_open (str ''/a'') fuse0 = (0, Some 1, t) \<and> fuse_ok t"
  using fuse_open_refines [OF fuse0_ok, of "str ''/a''"] fuse0_open by auto

text \<open>
  Opening a file again gives the same handle and changes nothing, also when the first open
  has created the file; that handle names a cluster with the name of the file.
\<close>

theorem fuse_open_again:
  assumes "fuse_ok s" and "kssfs_open path s = (0, Some fh, t)"
  shows "\<exists>u. kssfs_open path t = (0, Some fh, u) \<and> clusters u = clusters t \<and>
    unat fh < length (clusters t) \<and> named (drop 1 path) (clusters t ! unat fh)"
proof -
  let ?n = "drop 1 path"
  obtain t' where t': "fuse_ok t'" "clusters t' = snd (spec_open ?n (clusters s))"
      "kssfs_open path s = (case fst (spec_open ?n (clusters s)) of
        Some j \<Rightarrow> (0, Some (of_nat j), t') | None \<Rightarrow> (- HOST_ENOSPC, None, t'))"
    using kssfs_open_spec [OF assms(1), of path] by blast
  obtain j where j: "fst (spec_open ?n (clusters s)) = Some j" "fh = of_nat j" "t = t'"
    using assms(2) t'(3) by (auto simp: HOST_ENOSPC_def split: option.splits)
  then have sp: "spec_open ?n (clusters s) = (Some j, clusters t)"
    using t'(2) by (metis prod.collapse)
  note again = spec_open_again [OF sp] 
  have len: "\<forall>c \<in> set (clusters s). length c = 8192" using length_cluster [OF assms(1)] by blast
  have "first_cluster (named ?n) (clusters t) = Some j \<or> (\<exists>k. first_cluster (\<lambda>c. ch_type c = 0) (clusters t) = Some k \<and>
      clusters t = (clusters t)[k := new_file ?n (clusters t ! k)] \<and> k = j)"
    using again(1) [OF len] by (auto simp: spec_open_def split: option.splits)
  then have nm: "named ?n (clusters t ! j)"
    using first_cluster_Some [of "named ?n" "clusters t" j] again(2) [OF len] new_file_props(2) length_cluster [OF t'(1)] j(3)
    by (metis nth_list_update_eq nth_mem)
  have "j < unat (fs_cluster_n t)" using again(2) [OF len] by simp
  then have "unat (of_nat j :: QUAD) = j"
    using unat_bounds(3) [of "fs_cluster_n t"] by (intro unat_of_nat_small) simp
  moreover obtain u where "clusters u = clusters t" "kssfs_open path t = (0, Some fh, u)"
    using kssfs_open_spec [of t path] t'(1) j again(1) [OF len] by auto
  ultimately show ?thesis using again(2) [OF len] nm j(2) by auto
qed

theorem fuse_open_again_witness:
  "\<exists>t u. kssfs_open (str ''/a'') fuse0 = (0, Some 1, t) \<and> kssfs_open (str ''/a'') t = (0, Some 1, u)"
proof -
  obtain t where t: "kssfs_open (str ''/a'') fuse0 = (0, Some 1, t)"
    using kssfs_open_spec [OF fuse0_ok, of "str ''/a''"] fuse0_open by auto
  with fuse_open_again [OF fuse0_ok t] show ?thesis by blast
qed

section \<open>Reading and writing\<close>

lemma transfer_whole:
  assumes "unat offset + unat sz \<le> 7680"
  shows "transfer_size sz offset = ucast sz" and "sint (ucast sz :: LONG) = int (unat sz)"
    and "unat (ucast (offset + ucast (ucast sz :: LONG)) :: WORD) = unat offset + unat sz"
proof -
  have "unat (offset + sz) = unat offset + unat sz" using assms by (intro unat_add_lem [THEN iffD1]) simp
  then show "transfer_size sz offset = ucast sz" using assms by (simp add: transfer_size_def word_less_nat_alt)
  have u: "unat (ucast sz :: LONG) = unat sz" using assms by (simp add: unat_ucast_long)
  have "(ucast (ucast sz :: LONG) :: QUAD) = sz" using u by (metis of_nat_unat word_of_nat_unat)
  then show "unat (ucast (offset + ucast (ucast sz :: LONG)) :: WORD) = unat offset + unat sz"
    using \<open>unat (offset + sz) = _\<close> assms by (simp add: unat_ucast_word)
  show "sint (ucast sz :: LONG) = int (unat sz)"
    using sint_small [of "unat sz"] assms by simp
qed

text \<open>A write inside the data of a cluster replaces the bytes and sets the length.\<close>

definition written :: "BYTE list \<Rightarrow> nat \<Rightarrow> BYTE list \<Rightarrow> BYTE list" where
  "written ds k c = put_at 4 (le16 (of_nat (k + length ds))) (put_at (512 + k) ds c)"

lemma kssfs_write_spec:
  assumes s: "fuse_ok s" "unat fh < unat (fs_cluster_n s)" and len: "length ds = unat sz" "unat offset + unat sz \<le> 7680"
  shows "\<exists>t. kssfs_write ds sz offset fh s = Some (int (unat sz), t) \<and> fuse_ok t \<and> fs_cluster_n t = fs_cluster_n s \<and>
    clusters t = (clusters s)[unat fh := written ds (unat offset) (clusters s ! unat fh)]"
proof -
  define u where "u = fuse_read_cluster (ucast fh) s"
  note u = read_cluster [OF s, unfolded of_nat_unat, folded u_def]
  define b where "b = written ds (unat offset) (clusters s ! unat fh)"
  have c: "length (clusters s ! unat fh) = 8192" using length_cluster [OF s(1)] s(2) by simp
  then have b: "length b = 8192" using len by (simp add: b_def written_def)
  define v where "v = u\<lparr>fs_buf := b\<rparr>"
  have v: "fuse_ok v" "clusters v = clusters s" "fs_cluster_n v = fs_cluster_n s"
    using u b same_image_clusters [OF u(2)] by (simp_all add: v_def fuse_ok_def clusters_def img_def same_image_def)
  note tr = transfer_whole [OF len(2)]
  have "ucast (offset + ucast (ucast sz :: LONG)) = (of_nat (unat offset + length ds) :: WORD)"
    using tr(3) len(1) by (metis word_of_nat_unat)
  then have "b = put_at 4 (le16 (ucast (offset + ucast (ucast sz :: LONG))))
      (put_at (512 + unat offset) (take (unat sz) ds) (fs_buf u))"
    using u(1) len(1) by (simp add: b_def written_def)
  then have "kssfs_write ds sz offset fh s = Some (int (unat sz), fuse_write_cluster (ucast fh) b v)"
    using len tr(1,2) by (simp add: kssfs_write_def u_def [symmetric] v_def Let_def)
  with write_cluster [OF v(1) _ b, of "unat fh"] v s(2) show ?thesis by (simp add: b_def)
qed

lemma kssfs_read_spec:
  assumes s: "fuse_ok s" "unat fh < unat (fs_cluster_n s)" and len: "unat offset + unat sz \<le> 7680"
  shows "\<exists>t. kssfs_read sz offset fh s = Some (int (unat sz), take (unat sz) (drop (512 + unat offset) (clusters s ! unat fh)), t) \<and>
    same_image s t \<and> fuse_ok t"
  using read_cluster [OF s, unfolded of_nat_unat] transfer_whole [OF len] len by (simp add: kssfs_read_def Let_def)

text \<open>
  C14: Bytes that are written to a file, inside the 7680 bytes of its cluster, are what a read at
  the same position returns; both report the full size. The length of the file becomes the end of
  the write, and no other file changes. A transfer past the end of the cluster is not cut off: it
  leaves the buffer.
\<close>

theorem fuse_write_read:
  assumes "fuse_ok s" and "unat fh < unat (fs_cluster_n s)" and "length ds = unat sz"
  shows "if unat offset + unat sz \<le> 7680
    then \<exists>t u. kssfs_write ds sz offset fh s = Some (int (unat sz), t) \<and>
      kssfs_read sz offset fh t = Some (int (unat sz), ds, u) \<and>
      unat (ch_len (clusters t ! unat fh)) = unat offset + unat sz \<and> fuse_ok t \<and>
      (\<forall>i < length (clusters s). i \<noteq> unat fh \<longrightarrow> clusters t ! i = clusters s ! i)
    else kssfs_write ds sz offset fh s = None \<and> kssfs_read sz offset fh s = None"
proof (cases "unat offset + unat sz \<le> 7680")
  case True
  obtain t where t: "kssfs_write ds sz offset fh s = Some (int (unat sz), t)" "fuse_ok t" "fs_cluster_n t = fs_cluster_n s"
      "clusters t = (clusters s)[unat fh := written ds (unat offset) (clusters s ! unat fh)]"
    using kssfs_write_spec [OF assms True] by blast
  let ?c = "clusters s ! unat fh" and ?k = "unat offset"
  have c: "length ?c = 8192" using length_cluster [OF assms(1)] assms(2) by simp
  have w: "clusters t ! unat fh = written ds ?k ?c" using t(4) assms(2) by simp
  have "take (length ds) (drop (512 + ?k) (written ds ?k ?c)) = ds"
    unfolding written_def using c True assms(3)
    by (subst take_drop_put_at_other) (use take_drop_put_at [of "512 + ?k" ds ?c] in simp_all)
  moreover have "ch_len (written ds ?k ?c) = of_nat (?k + length ds)"
    unfolding written_def ch_len_def using c True assms(3) by (intro get16_put_at) simp
  moreover have "unat (of_nat (?k + length ds) :: WORD) = ?k + length ds"
    using True assms(3) by (intro unat_of_nat_small) simp
  moreover obtain u where "kssfs_read sz offset fh t = Some (int (unat sz),
      take (unat sz) (drop (512 + ?k) (clusters t ! unat fh)), u)"
    using kssfs_read_spec [OF t(2) _ True] assms(2) t(3) by auto
  ultimately show ?thesis using True t(1,2,4) assms(3) w by (auto simp: nth_list_update simp del: of_nat_add)
next
  case False
  then show ?thesis by (simp add: kssfs_write_def kssfs_read_def Let_def)
qed

theorem fuse_write_read_witness:
  "\<exists>t u. kssfs_write (str ''hi'') 2 10 1 fuse0 = Some (2, t) \<and> kssfs_read 2 10 1 t = Some (2, str ''hi'', u)"
  using fuse_write_read [OF fuse0_ok, of 1 "str ''hi''" 2 10] by (auto simp: fuse0_def)

section \<open>Deleting and renaming\<close>

lemma first_cluster_none: "\<forall>c \<in> set cs. \<not> P c \<Longrightarrow> first_cluster P cs = None"
  by (auto simp: first_cluster_def find_None_iff)

text \<open>
  C16: No file is ever deleted or renamed. \<open>kssfs_unlink\<close> compares the names with the path
  including its slash, so with names that do not start with a slash it reports that there is no
  such file; \<open>kssfs_rename\<close> changes the name in the buffer only, and reports success exactly when
  the old name exists.
\<close>

theorem fuse_unlink_rename_ignored:
  assumes "fuse_ok s" and "hd path = 47" and "path \<noteq> []"
    and "\<forall>c \<in> set (clusters s). hd (ch_filename c) \<noteq> 47"
  shows "\<exists>t u r. kssfs_unlink path s = (- HOST_ENOENT, t) \<and> same_image s t \<and>
    kssfs_rename path to s = (r, u) \<and> same_image s u \<and>
    (r = 0 \<longleftrightarrow> (\<exists>c \<in> set (clusters s). named (drop 1 path) c))"
proof -
  have no: "\<not> (ch_type c \<noteq> KSSFS_CLSTR_FREE \<and> c_strncmp 256 path (ch_filename c) = 0)" if "c \<in> set (clusters s)" for c
  proof -
    obtain p where p: "path = 47 # p" using assms(2,3) by (cases path) auto
    have "ch_filename c \<noteq> []" using length_cluster [OF assms(1) that] by (auto simp: ch_filename_def)
    then obtain x xs where x: "ch_filename c = x # xs" by (cases "ch_filename c") auto
    then have "x \<noteq> 47" using assms(4) that by auto
    moreover have "cname 256 xs = (if chr_at xs = 0 then [] else chr_at xs # cname 255 (tl xs))" for xs
      using cname_Suc [of 255 xs] by simp
    ultimately show ?thesis using p x by (simp add: c_strncmp_eq chr_at_def)
  qed
  have un: "\<exists>t. kssfs_unlink path s = (- HOST_ENOENT, t) \<and> same_image s t"
    using assms(1) first_cluster_none [OF ballI [OF no]]
    by (cases rule: scan_clustersE [where P = "\<lambda>b. ch_type b \<noteq> KSSFS_CLSTR_FREE \<and> c_strncmp 256 path (ch_filename b) = 0"])
      (auto simp: kssfs_unlink_def)
  have re: "kssfs_rename path to s = (case scan_clusters (named (drop 1 path)) s of
      (Some i, s) \<Rightarrow> (0, s\<lparr>fs_buf := put_at 6 (strncpy_array 256 (drop 1 to)) (fs_buf s)\<rparr>)
    | (None, s) \<Rightarrow> (- HOST_ENOENT, s))"
    unfolding kssfs_rename_def named_def [abs_def] c_strncmp_eq ..
  have "\<exists>u r. kssfs_rename path to s = (r, u) \<and> same_image s u \<and> (r = 0 \<longleftrightarrow> (\<exists>c \<in> set (clusters s). named (drop 1 path) c))"
    using assms(1)
  proof (cases rule: scan_clustersE [where P = "named (drop 1 path)"])
    case (none t)
    then have "\<forall>c \<in> set (clusters s). \<not> named (drop 1 path) c"
      by (auto simp: first_cluster_def find_None_iff in_set_conv_nth)
    with none show ?thesis by (simp add: re HOST_ENOENT_def)
  next
    case (found j t)
    then have "named (drop 1 path) (clusters s ! j)" "clusters s ! j \<in> set (clusters s)"
      using first_cluster_Some [OF found(1)] by simp_all
    with found show ?thesis by (auto simp: re same_image_def img_def)
  qed
  with un show ?thesis by blast
qed

theorem fuse_unlink_rename_ignored_witness:
  "\<exists>t. kssfs_unlink (str ''/b'') fuse0 = (- HOST_ENOENT, t) \<and> same_image fuse0 t"
proof -
  have "hd (ch_filename c) \<noteq> 47" if "c \<in> set (clusters fuse0)" for c
    using that unfolding fuse0_clusters by (auto simp: ch_filename_def)
  then show ?thesis using fuse_unlink_rename_ignored [OF fuse0_ok, of "str ''/b''" "[]"] by auto
qed

section \<open>The mounted image\<close>

text \<open>The requests that are served while an image is mounted; handles come from earlier opens.\<close>

inductive fuse_step :: "fuse \<Rightarrow> fuse \<Rightarrow> bool" where
  getattr: "kssfs_getattr uid gid now path s = (r, st, t) \<Longrightarrow> fuse_step s t"
| readdir: "kssfs_readdir path s = Some (r, names, t) \<Longrightarrow> fuse_step s t"
| opens: "kssfs_open path s = (r, fh, t) \<Longrightarrow> fuse_step s t"
| creates: "kssfs_create path s = (r, fh, t) \<Longrightarrow> fuse_step s t"
| reads: "unat fh < unat (fs_cluster_n s) \<Longrightarrow> kssfs_read sz offset fh s = Some (r, ds, t) \<Longrightarrow> fuse_step s t"
| writes: "unat fh < unat (fs_cluster_n s) \<Longrightarrow> length ds = unat sz \<Longrightarrow>
    kssfs_write ds sz offset fh s = Some (r, t) \<Longrightarrow> fuse_step s t"
| unlinks: "kssfs_unlink path s = (r, t) \<Longrightarrow> fuse_step s t"
| renames: "kssfs_rename path to s = (r, t) \<Longrightarrow> fuse_step s t"
| fgetattr: "kssfs_fgetattr uid gid now path s = (r, st, t) \<Longrightarrow> fuse_step s t"
| releases: "kssfs_release path s = (r, t) \<Longrightarrow> fuse_step s t"
| truncates: "kssfs_truncate path offset s = (r, t) \<Longrightarrow> fuse_step s t"

text \<open>What every request keeps.\<close>

definition fuse_kept :: "fuse \<Rightarrow> fuse \<Rightarrow> bool" where
  "fuse_kept s t \<longleftrightarrow> fuse_ok t \<and> fs_cluster_n t = fs_cluster_n s"

lemma same_kept: "same_image s t \<Longrightarrow> fuse_ok t \<Longrightarrow> fuse_kept s t"
  by (simp add: fuse_kept_def same_image_def)

lemma fuse_ok_buf: "fuse_ok s \<Longrightarrow> length b = 8192 \<Longrightarrow> fuse_ok (s\<lparr>fs_buf := b\<rparr>)"
  by (simp add: fuse_ok_def img_def)

lemma put_kept:
  assumes "fuse_ok s" and "j < unat (fs_cluster_n s)" and "length b = 8192"
  shows "fuse_kept s (fuse_write_cluster (of_nat j) b (s\<lparr>fs_buf := b\<rparr>))"
  using write_cluster [OF fuse_ok_buf [OF assms(1,3)] _ assms(3), of j] assms(2) by (simp add: fuse_kept_def)

lemma create_kept: "fuse_ok s \<Longrightarrow> kssfs_create path s = (r, fh, t) \<Longrightarrow> fuse_kept s t"
proof (induct rule: scan_clustersE [where P = "\<lambda>b. ch_type b = KSSFS_CLSTR_FREE"])
  case (found j u)
  have "length (fs_buf u) = 8192" using found(4) by (simp add: fuse_ok_def)
  then have "fuse_kept u t"
    using found(2,3,6,7) put_kept [OF found(4), of j "new_file (drop 1 path) (fs_buf u)"]
      new_file_props(1) [of "fs_buf u" "drop 1 path"]
    by (auto simp: kssfs_create_def Let_def new_file_def same_image_def)
  then show ?case using found(3) by (simp add: fuse_kept_def same_image_def)
qed (auto simp: kssfs_create_def intro: same_kept)

lemma readdir_kept: "fuse_ok s \<Longrightarrow> i + k \<le> unat (fs_cluster_n s) \<Longrightarrow> readdir_loop k (of_nat i) s = Some (names, t) \<Longrightarrow>
    same_image s t \<and> fuse_ok t"
proof (induction k arbitrary: i s names)
  case (Suc k)
  define u where "u = fuse_read_cluster (of_nat i) s"
  have u: "same_image s u" "fuse_ok u" using read_cluster [OF Suc.prems(1), of i] Suc.prems(2) by (simp_all add: u_def)
  obtain ns where "readdir_loop k (of_nat (Suc i)) u = Some (ns, t)"
    using Suc.prems(3) by (auto simp: u_def [symmetric] Let_def bind_eq_Some_conv add.commute split: if_splits)
  then show ?case using Suc.IH [OF u(2), of "Suc i"] Suc.prems(2) u(1) by (auto simp: same_image_def)
qed simp

lemma fuse_step_kept:
  assumes "fuse_step s t" and ok: "fuse_ok s"
  shows "fuse_kept s t"
proof -
  have attr: "fuse_kept s t" if "kssfs_getattr uid gid now path s = (r, st, t)" for uid gid now path r st
    using ok that
    by (cases rule: scan_clustersE [where P = "\<lambda>b. c_strncmp 256 (drop 1 path) (ch_filename b) = 0"])
      (use ok in \<open>auto simp: kssfs_getattr_def fuse_kept_def same_image_def split: if_splits\<close>)
  from assms(1) show ?thesis
  proof cases
    case (getattr uid gid now path r st)
    then show ?thesis by (rule attr)
  next
    case (fgetattr uid gid now path r st)
    then show ?thesis by (intro attr) (simp add: kssfs_fgetattr_def)
  next
    case (readdir path r names)
    show ?thesis
    proof (cases "path = str ''/''")
      case True
      then obtain ns where "readdir_loop (unat (fs_cluster_n s)) 0 s = Some (ns, t)"
        using readdir by (auto simp: kssfs_readdir_def bind_eq_Some_conv)
      then show ?thesis using readdir_kept [OF ok, of 0 "unat (fs_cluster_n s)" ns t] by (auto intro: same_kept)
    next
      case False
      then show ?thesis using readdir ok by (simp add: kssfs_readdir_def fuse_kept_def)
    qed
  next
    case (opens path r fh)
    then show ?thesis using kssfs_open_spec [OF ok, of path] by (auto simp: fuse_kept_def split: option.splits)
  next
    case (creates path r fh)
    then show ?thesis using create_kept [OF ok] by blast
  next
    case (reads fh sz offset r ds)
    then show ?thesis
      using kssfs_read_spec [OF ok reads(1), of offset sz]
      by (cases "unat offset + unat sz \<le> 7680") (auto intro: same_kept simp: kssfs_read_def Let_def)
  next
    case (writes fh ds sz offset r)
    then show ?thesis
      using kssfs_write_spec [OF ok writes(1,2), of offset]
      by (cases "unat offset + unat sz \<le> 7680") (auto simp: fuse_kept_def kssfs_write_def Let_def)
  next
    case (unlinks path r)
    show ?thesis
      using ok unlinks
    proof (cases rule: scan_clustersE [where P = "\<lambda>b. ch_type b \<noteq> KSSFS_CLSTR_FREE \<and> c_strncmp 256 path (ch_filename b) = 0"])
      case (found j u)
      then have "fuse_kept u t"
        using unlinks put_kept [OF found(4), of j "replicate 8192 0"] by (auto simp: kssfs_unlink_def same_image_def Let_def)
      then show ?thesis using found(3) by (simp add: fuse_kept_def same_image_def)
    qed (auto simp: kssfs_unlink_def intro: same_kept)
  next
    case (renames path r to)
    show ?thesis
      using ok renames
      by (cases rule: scan_clustersE [where P = "\<lambda>b. ch_type b \<noteq> 0 \<and> c_strncmp 256 (drop 1 path) (ch_filename b) = 0"])
        (auto simp: kssfs_rename_def fuse_kept_def same_image_def fuse_ok_def img_def)
  qed (use ok in \<open>auto simp: kssfs_truncate_def kssfs_release_def fuse_kept_def\<close>)
qed

lemma checkdisk_ok:
  assumes "fuse_ok s"
  shows "\<exists>t. kssfs_checkdisk s = (0, t) \<and> same_image s t"
proof -
  have "length (img s) \<ge> 512" using assms by (simp add: fuse_ok_def)
  then have "get32 (into (fs_buf s) (take 512 (img s))) k = get32 (img s) k" if "k \<in> {0, 4}" for k
    using that by (auto simp: get32_def into_def nth_append)
  then show ?thesis
    using assms by (simp add: kssfs_checkdisk_def fseek_def fread_def fuse_ok_def img_def same_image_def Let_def)
qed



end
