(* ===== verification/Mkfs.thy ===== *)
theory Mkfs
  imports Fuse
begin

text \<open>
  The program that makes an image of the first file system, \<^verbatim>\<open>tools/format.c\<close>, and the one that
  lists an image, \<^verbatim>\<open>tools/fsinspect.c\<close>. The files to be stored are given by what \<open>fopen\<close>, \<open>fread\<close>
  and \<open>stat\<close> report of them. The local arrays of the C code are not initialised: what they hold is
  the argument \<open>junk\<close>.
\<close>

section \<open>Making an image\<close>

record host_file =
  hf_name :: "BYTE list"
  hf_data :: "BYTE list option"   \<comment> \<open>\<open>None\<close>: the file cannot be opened\<close>
  hf_exec :: bool
  hf_uid :: LONG
  hf_gid :: LONG

definition mkfs_header :: "BYTE list" where
  "mkfs_header =
     (let hdr = replicate 512 0;
          hdr = put_at 0 (le32 KSSFS_SIGNATURE) hdr;
          hdr = put_at 4 (le32 256) hdr
      in hdr)"

definition mkfs_chdr :: "host_file \<Rightarrow> BYTE list \<Rightarrow> BYTE list" where
  "mkfs_chdr x data =
     (let chdr = replicate 512 0;
          chdr = put_at 0 (le32 (if hf_exec x then KSSFS_CLSTR_COM else KSSFS_CLSTR_DATA)) chdr;
          chdr = put_at 4 (le16 (of_nat (length data))) chdr;
          chdr = put_at 6 (strncpy_array 256 (hf_name x)) chdr;
          chdr = put_at 262 (le32 (hf_uid x)) chdr;
          chdr = put_at 266 (le32 (hf_gid x)) chdr;
          chdr = put_at 270 (le32 0) chdr
      in chdr)"

definition mkfs_file :: "BYTE list \<Rightarrow> host_file \<Rightarrow> hfile \<Rightarrow> hfile" where
  "mkfs_file junk x f =
     (case hf_data x of
        None \<Rightarrow> f
      | Some data \<Rightarrow>
          (let buf = put_at 0 (replicate 512 0) junk;
               buf = into buf (take (512 * 15) data)
           in if length data > 7680 then f
              else
                (let f = fwrite (mkfs_chdr x data) f;
                     f = fwrite buf f
                 in f)))"

definition mkfs_main :: "LONG \<Rightarrow> (nat \<Rightarrow> BYTE list) \<Rightarrow> host_file list \<Rightarrow> hfile option \<Rightarrow> hfile option" where
  "mkfs_main file_n junk files target = do {
     f \<leftarrow> target;
     let f = fwrite mkfs_header f;
     f \<leftarrow> for_each (\<lambda>i f. if i < length files then Some (mkfs_file (junk i) (files ! i) f) else None)
            [0..<unat file_n] f;
     for_each (\<lambda>i f. Some (fwrite (replicate 8192 0) f)) [0..<unat (256 - file_n)] f
   }"

section \<open>Listing an image\<close>

text \<open>What is printed of each cluster: the name and the length.\<close>

fun fsinspect_loop :: "nat \<Rightarrow> BYTE list \<Rightarrow> hfile \<Rightarrow> (BYTE list \<times> WORD) list option" where
  "fsinspect_loop 0 buf f = Some []"
| "fsinspect_loop (Suc k) buf f = do {
     let (bs, f) = fread (512 * 16) f;
     let buf = into buf bs;
     name \<leftarrow> array_str (drop 6 buf);
     rest \<leftarrow> fsinspect_loop k buf f;
     Some ((name, ch_len buf) # rest)
   }"

definition fsinspect :: "BYTE list \<Rightarrow> hfile option \<Rightarrow> (LONG \<times> bool \<times> LONG \<times> (BYTE list \<times> WORD) list) option" where
  "fsinspect junk target = do {
     f \<leftarrow> target;
     let (bs, f) = fread 512 f;
     let buf = into junk bs;
     let cluster_n = get32 buf 4;
     files \<leftarrow> fsinspect_loop (unat cluster_n) buf f;
     Some (get32 buf 0, get32 buf 0 = KSSFS_SIGNATURE, cluster_n, files)
   }"

section \<open>The image that is made\<close>

text \<open>A file that is stored, and its cluster.\<close>

definition storable :: "host_file \<Rightarrow> bool" where
  "storable x \<longleftrightarrow> (case hf_data x of None \<Rightarrow> False | Some data \<Rightarrow> length data \<le> 7680)"

definition file_cluster :: "BYTE list \<Rightarrow> host_file \<Rightarrow> BYTE list" where
  "file_cluster junk x = mkfs_chdr x (the (hf_data x)) @ into (put_at 0 (replicate 512 0) junk) (the (hf_data x))"

definition at_end :: "hfile \<Rightarrow> bool" where
  "at_end f \<longleftrightarrow> fpos f = length (contents f)"

lemma fwrite_at_end: "at_end f \<Longrightarrow> contents (fwrite bs f) = contents f @ bs \<and> at_end (fwrite bs f)"
  by (simp add: at_end_def fwrite_end)

lemma length_mkfs_chdr [simp]: "length (mkfs_chdr x data) = 512"
  by (simp add: mkfs_chdr_def Let_def)

lemma mkfs_file_writes:
  assumes "at_end f"
  shows "contents (mkfs_file junk x f) = contents f @ (if storable x then file_cluster junk x else []) \<and>
    at_end (mkfs_file junk x f)"
proof (cases "hf_data x")
  case (Some data)
  have "take 7680 data = data" if "length data \<le> 7680" using that by simp
  with Some assms show ?thesis
    using fwrite_at_end [OF assms, of "mkfs_chdr x data"]
      fwrite_at_end [of "fwrite (mkfs_chdr x data) f" "into (put_at 0 (replicate 512 0) junk) data"]
    by (auto simp: mkfs_file_def storable_def file_cluster_def Let_def)
qed (use assms in \<open>simp_all add: mkfs_file_def storable_def\<close>)

lemma mkfs_files_writes:
  assumes "at_end f" and "n \<le> length files"
  shows "\<exists>g. for_each (\<lambda>i f. if i < length files then Some (mkfs_file (junk i) (files ! i) f) else None) [0..<n] f = Some g \<and>
    at_end g \<and> contents g = contents f @ concat (map (\<lambda>i. file_cluster (junk i) (files ! i))
      (filter (\<lambda>i. storable (files ! i)) [0..<n]))"
  using assms(2)
proof (induction n)
  case (Suc n)
  then obtain g where g: "for_each (\<lambda>i f. if i < length files then Some (mkfs_file (junk i) (files ! i) f) else None) [0..<n] f = Some g"
      "at_end g" "contents g = contents f @ concat (map (\<lambda>i. file_cluster (junk i) (files ! i))
        (filter (\<lambda>i. storable (files ! i)) [0..<n]))"
    by auto
  with Suc.prems mkfs_file_writes [OF g(2), of "junk n" "files ! n"] show ?case by (simp add: for_each_append)
qed (use assms(1) in simp)

lemma mkfs_free_writes:
  assumes "at_end f"
  shows "\<exists>g. for_each (\<lambda>i f. Some (fwrite (replicate 8192 0) f)) [0..<n] f = Some g \<and> at_end g \<and>
    contents g = contents f @ replicate (8192 * n) 0"
proof (induction n)
  case (Suc n)
  then show ?case
    using fwrite_at_end [of _ "replicate 8192 0"] by (auto simp: for_each_append replicate_add [symmetric] add.commute)
qed (use assms in simp)

lemma length_file_cluster:
  assumes "storable x" and "length junk = 7680"
  shows "length (file_cluster junk x) = 8192"
  using assms by (auto simp: file_cluster_def storable_def into_def split: option.splits)

lemma length_mkfs_header [simp]: "length mkfs_header = 512"
  by (simp add: mkfs_header_def)

lemma mkfs_header_fields: "get32 mkfs_header 0 = KSSFS_SIGNATURE" "get32 mkfs_header 4 = 256"
  by (simp_all add: mkfs_header_def Let_def get32_put_at get32_put_other)

text \<open>The image, from the files that are stored.\<close>

definition mkfs_image :: "LONG \<Rightarrow> (nat \<Rightarrow> BYTE list) \<Rightarrow> host_file list \<Rightarrow> BYTE list" where
  "mkfs_image file_n junk files = mkfs_header @ concat (map (\<lambda>i. file_cluster (junk i) (files ! i))
     (filter (\<lambda>i. storable (files ! i)) [0..<unat file_n])) @ replicate (8192 * unat (256 - file_n)) 0"

lemma mkfs_main_image:
  assumes "unat file_n \<le> length files" and "target = \<lparr>contents = [], fpos = 0\<rparr>"
  shows "\<exists>f. mkfs_main file_n junk files (Some target) = Some f \<and> contents f = mkfs_image file_n junk files"
proof -
  have t: "at_end (fwrite mkfs_header target)" "contents (fwrite mkfs_header target) = mkfs_header"
    using fwrite_at_end [of target mkfs_header] assms(2) by (simp_all add: at_end_def)
  obtain g where g: "for_each (\<lambda>i f. if i < length files then Some (mkfs_file (junk i) (files ! i) f) else None)
        [0..<unat file_n] (fwrite mkfs_header target) = Some g" "at_end g"
      "contents g = mkfs_header @ concat (map (\<lambda>i. file_cluster (junk i) (files ! i))
        (filter (\<lambda>i. storable (files ! i)) [0..<unat file_n]))"
    using mkfs_files_writes [OF t(1) assms(1), of junk] t(2) by auto
  obtain f where "for_each (\<lambda>i f. Some (fwrite (replicate 8192 0) f)) [0..<unat (256 - file_n)] g = Some f"
      "contents f = contents g @ replicate (8192 * unat (256 - file_n)) 0"
    using mkfs_free_writes [OF g(2)] by blast
  with g show ?thesis by (auto simp: mkfs_main_def mkfs_image_def)
qed

lemma length_concat_clusters:
  "(\<forall>i \<in> set is. length (c i) = 8192) \<Longrightarrow> length (concat (map c is)) = 8192 * length is"
  by (induction "is") simp_all

lemma nth_concat_clusters:
  assumes "\<forall>i \<in> set is. length (c i) = 8192" and "j < length is" and "k < 8192"
  shows "concat (map c is) ! (8192 * j + k) = c (is ! j) ! k"
  using assms
proof (induction "is" arbitrary: j)
  case (Cons i "is")
  then show ?case by (cases j) (auto simp: nth_append algebra_simps)
qed simp

definition fresh_file :: hfile where "fresh_file = \<lparr>contents = [], fpos = 0\<rparr>"


definition init_file :: host_file where
  "init_file = \<lparr>hf_name = str ''init'', hf_data = Some (str ''KOM0''), hf_exec = True, hf_uid = 0, hf_gid = 0\<rparr>"


section \<open>The kernel reads the image\<close>

text \<open>A disk with an image at a sector.\<close>

definition holds_image :: "disk \<Rightarrow> LONG \<Rightarrow> BYTE list \<Rightarrow> bool" where
  "holds_image disk lba im \<longleftrightarrow>
     (\<forall>k i. i < 512 \<longrightarrow> 512 * k + i < length im \<longrightarrow> disk (lba + of_nat k) i = im ! (512 * k + i))"

lemma holds_imageD:
  "holds_image disk lba im \<Longrightarrow> i < 512 \<Longrightarrow> 512 * k + i < length im \<Longrightarrow> disk (lba + of_nat k) i = im ! (512 * k + i)"
  by (simp add: holds_image_def)

lemma holds_cluster:
  assumes "holds_image disk lba im" and "512 + 8192 * i + k < length im" and "k < 8192"
  shows "kss_byte disk lba i k = im ! (512 + 8192 * i + k)"
proof -
  have "512 * (1 + 16 * i + k div 512) + k mod 512 = 512 + 8192 * i + k"
    using mult_div_mod_eq [of 512 k] by (simp add: algebra_simps)
  moreover have "lba + 1 + of_nat i * 16 + of_nat (k div 512) = lba + of_nat (1 + 16 * i + k div 512)"
    by (simp add: algebra_simps)
  ultimately show ?thesis
    using assms unfolding holds_image_def kss_byte_def cluster_byte_def KSSFS_CLSTR_LBA_def
    by (metis mod_less_divisor zero_less_numeral)
qed

lemma nul_padded_name:
  assumes "0 \<notin> set cs"
  shows "nul_padded ((!) (strncpy_array 256 cs)) 256"
  unfolding nul_padded_def
proof (intro allI impI)
  fix i j
  assume "i \<le> j" "j < (256 :: nat)" "strncpy_array 256 cs ! i = 0"
  moreover have "strncpy_array 256 cs ! k = (if k < length cs then cs ! k else 0)" if "k < 256" for k
    using that by (simp add: strncpy_array_def nth_append)
  ultimately show "strncpy_array 256 cs ! j = 0"
    using assms by (auto simp: in_set_conv_nth split: if_splits)
qed

text \<open>The fields of a cluster that is stored.\<close>

lemma file_cluster_fields:
  assumes "storable x" and "hf_data x = Some data"
  shows "k < 256 \<Longrightarrow> file_cluster junk x ! (6 + k) = strncpy_array 256 (hf_name x) ! k"
    and "unat (file_cluster junk x ! 4) + 256 * unat (file_cluster junk x ! 5) = length data"
    and "k < length data \<Longrightarrow> file_cluster junk x ! (512 + k) = data ! k"
proof -
  have len: "length data \<le> 7680" using assms by (simp add: storable_def)
  have c: "file_cluster junk x = mkfs_chdr x data @ into (put_at 0 (replicate 512 0) junk) data"
    using assms(2) by (simp add: file_cluster_def)
  show "file_cluster junk x ! (512 + k) = data ! k" if "k < length data"
    using that by (simp add: c nth_append into_def)
  show "file_cluster junk x ! (6 + k) = strncpy_array 256 (hf_name x) ! k" if "k < 256"
    using that by (simp add: c nth_append mkfs_chdr_def put_at_nth Let_def)
  have l: "unat (of_nat (length data) :: WORD) = length data" using len by (intro unat_of_nat_small) simp
  have "file_cluster junk x ! 4 = le16 (of_nat (length data)) ! 0" "file_cluster junk x ! 5 = le16 (of_nat (length data)) ! 1"
    by (simp_all add: c nth_append mkfs_chdr_def put_at_nth Let_def)
  then have "unat (file_cluster junk x ! 4) = length data mod 256" "unat (file_cluster junk x ! 5) = length data div 256 mod 256"
    using l by (simp_all add: le16_def unat_ucast_byte unat_div_distrib drop_bit_eq_div)
  then show "unat (file_cluster junk x ! 4) + 256 * unat (file_cluster junk x ! 5) = length data"
    using len by (simp add: mod_less)
qed

lemma image_nth:
  assumes n: "unat file_n \<le> 256" and st: "\<forall>x \<in> set (take (unat file_n) files). storable x"
    and l: "unat file_n \<le> length files" "\<forall>i. length (junk i) = 7680" and i: "i < 256" "k < 8192"
  shows "512 + 8192 * i + k < length (mkfs_image file_n junk files)"
    and "mkfs_image file_n junk files ! (512 + 8192 * i + k) =
      (if i < unat file_n then file_cluster (junk i) (files ! i) ! k else 0)"
proof -
  let ?n = "unat file_n" and ?c = "\<lambda>i. file_cluster (junk i) (files ! i)"
  have all: "storable (files ! i)" if "i < ?n" for i using st that l(1) nth_mem [of i "take ?n files"] by simp
  then have "filter (\<lambda>i. storable (files ! i)) [0..<?n] = [0..<?n]" by (intro filter_True) simp
  moreover have free: "unat (256 - file_n) = 256 - ?n" using n by (simp add: unat_sub word_le_nat_alt)
  ultimately have im: "mkfs_image file_n junk files = mkfs_header @ concat (map ?c [0..<?n]) @ replicate (8192 * (256 - ?n)) 0"
    by (simp add: mkfs_image_def)
  have c: "\<forall>i \<in> set [0..<?n]. length (?c i) = 8192" using all l(2) by (auto intro: length_file_cluster)
  have len: "length (concat (map ?c [0..<?n])) = 8192 * ?n" using length_concat_clusters [OF c] by simp
  show "512 + 8192 * i + k < length (mkfs_image file_n junk files)" using im len i n by simp
  show "mkfs_image file_n junk files ! (512 + 8192 * i + k) = (if i < ?n then ?c i ! k else 0)"
  proof (cases "i < ?n")
    case True
    then have "8192 * i + k < 8192 * ?n" using i(2) by linarith
    then show ?thesis using im len True nth_concat_clusters [OF c, of i k] i(2) by (simp add: nth_append)
  next
    case False
    then have "8192 * ?n \<le> 8192 * i + k" by linarith
    then show ?thesis using im len False i by (simp add: nth_append not_less)
  qed
qed


text \<open>A disk with a given image, for the example.\<close>

definition disk_of :: "BYTE list \<Rightarrow> LONG \<Rightarrow> disk" where
  "disk_of im lba k i = im ! (512 * unat (k - lba) + i)"

lemma disk_of_holds: "length im < 2 ^ 32 \<Longrightarrow> holds_image (disk_of im lba) lba im"
  by (auto simp: holds_image_def disk_of_def unat_of_nat_small)

definition kss2 :: kssfs where
  "kss2 = kss0\<lparr>kssfs_lba := 100, kssfs_cluster_n := 256, kssfs_clstr_index := 0xffffffff,
     mem := (\<lambda>a. if unat (a - 0x400000) < 256 then strncpy_array 256 (str ''init'') ! unat (a - 0x400000) else 0)\<rparr>"

lemma kss2_simps [simp]:
  "kssfs_lba kss2 = 100" "kssfs_cluster_n kss2 = 256" "kssfs_clstr_index kss2 = 0xffffffff"
  "kssfs_buf_at kss2 = 0x300000"
  "mem kss2 = (\<lambda>a. if unat (a - 0x400000) < 256 then strncpy_array 256 (str ''init'') ! unat (a - 0x400000) else 0)"
  by (simp_all add: kss2_def kss0_def network.defs)


end
