(* ===== verification/Kfs2.thy ===== *)
theory Kfs2
  imports Kssfs "HOL-Library.Signed_Division"
begin

text \<open>
  The second file system, \<^verbatim>\<open>fs/kfs2.c\<close>: as the first, but a file is a chain of clusters and
  is read through one of sixteen handles. The buffer \<open>kfs2_buf\<close> is in memory at
  \<open>kfs2_buf_at\<close>.
\<close>

section \<open>Data\<close>

definition KFS2_SIGNATURE :: LONG where "KFS2_SIGNATURE = 0x37019627"
definition KFS2_MAX_FILES :: nat where "KFS2_MAX_FILES = 16"
definition KFS2_TYPE_FILE :: LONG where "KFS2_TYPE_FILE = 1"
definition ENOENT :: LONG where "ENOENT = 2"
definition EMFILE :: LONG where "EMFILE = 24"

record kfs2_file =
  fl_flags :: LONG
  startclstr :: LONG

definition kfs2_file_zero :: kfs2_file where
  "kfs2_file_zero = \<lparr>fl_flags = 0, startclstr = 0\<rparr>"

record kfs2 = kssfs +
  kfs2_lba :: LONG
  kfs2_buf_at :: LONG
  kfs2_cluster_index :: LONG
  kfs2_cluster_n :: LONG
  kfs2_err :: LONG
  kfs2_handles :: "kfs2_file list"

definition KFS2_CLSTR_LBA :: "LONG \<Rightarrow> LONG \<Rightarrow> LONG" where
  "KFS2_CLSTR_LBA lba n = lba + 1 + n * 16"

text \<open>The position of a byte of a file, an \<open>int\<close>: the number of its cluster and the offset there.\<close>

definition KFS2_BYTE_CLSTR :: "LONG \<Rightarrow> LONG" where
  "KFS2_BYTE_CLSTR n = of_int (sint n sdiv 7680)"

definition KFS2_BYTE_CLSTR_OFF :: "LONG \<Rightarrow> LONG" where
  "KFS2_BYTE_CLSTR_OFF n = KFS2_BYTE_CLSTR n * 7680 - n"

definition kfs2_hdr_signature :: "'a kfs2_scheme \<Rightarrow> LONG" where
  "kfs2_hdr_signature s = load32 (mem s) (kfs2_buf_at s)"

definition kfs2_hdr_cluster_n :: "'a kfs2_scheme \<Rightarrow> LONG" where
  "kfs2_hdr_cluster_n s = load32 (mem s) (kfs2_buf_at s + 4)"

definition kfs2_type :: "'a kfs2_scheme \<Rightarrow> LONG" where
  "kfs2_type s = load32 (mem s) (kfs2_buf_at s)"

definition kfs2_name :: "'a kfs2_scheme \<Rightarrow> LONG" where
  "kfs2_name s = kfs2_buf_at s + 8"

definition kfs2_next :: "'a kfs2_scheme \<Rightarrow> LONG" where
  "kfs2_next s = load32 (mem s) (kfs2_buf_at s + 276)"

section \<open>Operations\<close>

definition kfs2_init :: "('a kfs2_scheme) sector_op \<Rightarrow> LONG \<Rightarrow> 'a kfs2_scheme \<Rightarrow>
    (LONG \<times> 'a kfs2_scheme) option" where
  "kfs2_init rd lba s =
     (if kfs2_lba s \<noteq> 0 then Some (0, s)
      else do {
        let s = s\<lparr>kfs2_lba := lba\<rparr>;
        s \<leftarrow> puts (str ''[kfs2] init: reading fs header'' @ [10]) s;
        let (e, s) = rd (kfs2_lba s) (kfs2_buf_at s) 1 0 s;
        if e \<noteq> 0 then do {
          s \<leftarrow> puts (str ''[kfs2] init: read error while reading kssfs_header'' @ [10]) s;
          Some (0, s\<lparr>kfs2_lba := 0\<rparr>)
        }
        else if kfs2_hdr_signature s \<noteq> KFS2_SIGNATURE then do {
          s \<leftarrow> puts (str ''[kfs2] init: signature is incorrect'' @ [10]) s;
          Some (0, s\<lparr>kfs2_lba := 0\<rparr>)
        }
        else do {
          let s = s\<lparr>kfs2_cluster_n := kfs2_hdr_cluster_n s\<rparr>;
          s \<leftarrow> puts (str ''[kfs2] init: header is correct'' @ [10]) s;
          let s = s\<lparr>mem := kmemset (kfs2_buf_at s) 0 8192 (mem s)\<rparr>;
          let s = s\<lparr>kfs2_handles := replicate KFS2_MAX_FILES kfs2_file_zero\<rparr>;
          let s = s\<lparr>kfs2_cluster_index := 0xffffffff\<rparr>;
          s \<leftarrow> puts (str ''[kfs2] init: OK'' @ [10]) s;
          Some (1, s)
        }
      })"

definition kfs2_read_cluster :: "('a kfs2_scheme) sector_op \<Rightarrow> LONG \<Rightarrow> 'a kfs2_scheme \<Rightarrow>
    'a kfs2_scheme" where
  "kfs2_read_cluster rd n s =
     (if kfs2_lba s = 0 then s
      else if n > kfs2_cluster_n s then s
      else if n = kfs2_cluster_index s then s
      else
        (let startc = KFS2_CLSTR_LBA (kfs2_lba s) n;
             s = cluster_loop rd startc (kfs2_buf_at s) 16 s
         in s\<lparr>kfs2_cluster_index := n\<rparr>))"

text \<open>
  Reading bytes. \<open>kfs2_walk\<close> is the inner loop, that follows the chain for as many clusters as
  \<open>clstr_n\<close> says and leaves that counter at 0; \<open>kfs2_bytes\<close> is the loop over the positions,
  with \<open>k\<close> of them left. The counter is compared before it is first set: its initial value is
  the argument \<open>clstr_n\<close>.
\<close>

fun kfs2_walk :: "('a kfs2_scheme) sector_op \<Rightarrow> nat \<Rightarrow> LONG \<Rightarrow> 'a kfs2_scheme \<Rightarrow> LONG \<times> 'a kfs2_scheme" where
  "kfs2_walk rd 0 clstr s = (clstr, kfs2_read_cluster rd clstr s)"
| "kfs2_walk rd (Suc clstr_n) clstr s =
     (let s = kfs2_read_cluster rd clstr s in kfs2_walk rd clstr_n (kfs2_next s) s)"

fun kfs2_bytes :: "('a kfs2_scheme) sector_op \<Rightarrow> LONG \<Rightarrow> LONG \<Rightarrow> nat \<Rightarrow> LONG \<Rightarrow> LONG \<Rightarrow> LONG \<Rightarrow> LONG \<Rightarrow>
    'a kfs2_scheme \<Rightarrow> LONG \<times> 'a kfs2_scheme" where
  "kfs2_bytes rd start dest 0 i dest_p clstr clstr_n s = (dest_p, s)"
| "kfs2_bytes rd start dest (Suc k) i dest_p clstr clstr_n s =
     (let t = KFS2_BYTE_CLSTR i;
          (clstr, clstr_n) = (if t \<noteq> clstr_n then (start, t) else (clstr, clstr_n));
          (clstr, s) = kfs2_walk rd (unat clstr_n) clstr s;
          b = mem s (kfs2_buf_at s + (512 + KFS2_BYTE_CLSTR_OFF i));
          s = s\<lparr>mem := (mem s)(dest + dest_p := b)\<rparr>
      in kfs2_bytes rd start dest k (i + 1) (dest_p + 1) clstr 0 s)"

definition kfs2_read_byte :: "('a kfs2_scheme) sector_op \<Rightarrow> LONG \<Rightarrow> LONG \<Rightarrow> LONG \<Rightarrow> LONG \<Rightarrow> LONG \<Rightarrow>
    'a kfs2_scheme \<Rightarrow> (LONG \<times> 'a kfs2_scheme) option" where
  "kfs2_read_byte rd clstr_n file dest n off s = do {
     f \<leftarrow> at (kfs2_handles s) (unat file);
     if fl_flags f AND 1 = 0 then Some (0, s\<lparr>kfs2_err := ENOENT\<rparr>)
     else Some (kfs2_bytes rd (startclstr f) dest (if off < off + n then unat n else 0) off 0 0 clstr_n s)
   }"

definition kfs2_take_handle :: "LONG \<Rightarrow> 'a kfs2_scheme \<Rightarrow> LONG \<times> 'a kfs2_scheme" where
  "kfs2_take_handle i s =
     (case first_free (\<lambda>h. fl_flags h AND 1 = 0) (kfs2_handles s) of
        Some j \<Rightarrow> (of_nat j, s\<lparr>kfs2_handles := (kfs2_handles s)[j := \<lparr>fl_flags = 1, startclstr = i\<rparr>]\<rparr>)
      | None \<Rightarrow> (- 1, s\<lparr>kfs2_err := EMFILE\<rparr>))"

fun kfs2_search :: "('a kfs2_scheme) sector_op \<Rightarrow> LONG \<Rightarrow> nat \<Rightarrow> LONG \<Rightarrow> 'a kfs2_scheme \<Rightarrow>
    LONG \<times> 'a kfs2_scheme" where
  "kfs2_search rd filename 0 i s = (- 1, s\<lparr>kfs2_err := ENOENT\<rparr>)"
| "kfs2_search rd filename (Suc k) i s =
     (let s = kfs2_read_cluster rd i s
      in if kfs2_type s = KFS2_TYPE_FILE \<and> strncmp (mem s) filename (kfs2_name s) 256 = 0
         then kfs2_take_handle i s
         else kfs2_search rd filename k (i + 1) s)"

definition kfs2_open_file :: "('a kfs2_scheme) sector_op \<Rightarrow> LONG \<Rightarrow> 'a kfs2_scheme \<Rightarrow>
    LONG \<times> 'a kfs2_scheme" where
  "kfs2_open_file rd filename s = kfs2_search rd filename (unat (kfs2_cluster_n s)) 0 s"

definition kfs2_close_file :: "LONG \<Rightarrow> 'a kfs2_scheme \<Rightarrow> 'a kfs2_scheme option" where
  "kfs2_close_file handle s =
     (if unat handle \<ge> KFS2_MAX_FILES then Some (s\<lparr>kfs2_err := ENOENT\<rparr>)
      else do {
        h \<leftarrow> at (kfs2_handles s) (unat handle);
        if fl_flags h AND 1 \<noteq> 0
        then Some (s\<lparr>kfs2_handles := (kfs2_handles s)[unat handle := kfs2_file_zero]\<rparr>)
        else Some s
      })"

section \<open>The file system on the disk\<close>

definition kfs2_byte :: "disk \<Rightarrow> LONG \<Rightarrow> LONG \<Rightarrow> nat \<Rightarrow> BYTE" where
  "kfs2_byte disk lba c k = cluster_byte disk (KFS2_CLSTR_LBA lba c) k"

definition kfs2_long :: "disk \<Rightarrow> LONG \<Rightarrow> LONG \<Rightarrow> nat \<Rightarrow> LONG" where
  "kfs2_long disk lba c k = load32 (\<lambda>a. kfs2_byte disk lba c (unat a)) (of_nat k)"

definition kfs2_holds :: "disk \<Rightarrow> LONG \<Rightarrow> 'a kfs2_scheme \<Rightarrow> bool" where
  "kfs2_holds disk c s \<longleftrightarrow>
     (\<forall>a. unat (a - kfs2_buf_at s) < 8192 \<longrightarrow>
        mem s a = kfs2_byte disk (kfs2_lba s) c (unat (a - kfs2_buf_at s)))"

definition kfs2_ok :: "disk \<Rightarrow> 'a kfs2_scheme \<Rightarrow> bool" where
  "kfs2_ok disk s \<longleftrightarrow> kfs2_lba s \<noteq> 0 \<and> kfs2_cluster_n s < 0xffffffff \<and>
     length (kfs2_handles s) = KFS2_MAX_FILES \<and>
     (kfs2_cluster_index s \<le> kfs2_cluster_n s \<longrightarrow> kfs2_holds disk (kfs2_cluster_index s) s)"

text \<open>What reading keeps: the file system's variables, and the memory outside the buffer.\<close>

definition kfs2_same :: "'a kfs2_scheme \<Rightarrow> 'a kfs2_scheme \<Rightarrow> bool" where
  "kfs2_same s t \<longleftrightarrow> kfs2_lba t = kfs2_lba s \<and> kfs2_cluster_n t = kfs2_cluster_n s \<and>
     kfs2_buf_at t = kfs2_buf_at s \<and> kfs2_handles t = kfs2_handles s \<and> kfs2_err t = kfs2_err s \<and>
     (\<forall>a. 8192 \<le> unat (a - kfs2_buf_at s) \<longrightarrow> mem t a = mem s a)"

lemma kfs2_same_refl [simp]: "kfs2_same s s"
  by (simp add: kfs2_same_def)

lemma kfs2_same_trans: "kfs2_same s t \<Longrightarrow> kfs2_same t u \<Longrightarrow> kfs2_same s u"
  by (simp add: kfs2_same_def)

lemma kfs2_read_holds:
  assumes rd: "reads_disk rd disk" and ok: "kfs2_ok disk s" and n: "n \<le> kfs2_cluster_n s"
  defines "t \<equiv> kfs2_read_cluster rd n s"
  shows "kfs2_ok disk t" "kfs2_holds disk n t" "kfs2_same s t"
proof -
  define u where "u = cluster_loop rd (KFS2_CLSTR_LBA (kfs2_lba s) n) (kfs2_buf_at s) 16 s"
  note u = cluster_reads(1) [OF rd, of "KFS2_CLSTR_LBA (kfs2_lba s) n" "kfs2_buf_at s" s, folded u_def]
  note m = cluster_reads(2) [OF rd, of "KFS2_CLSTR_LBA (kfs2_lba s) n" "kfs2_buf_at s" s, folded u_def]
  have fs: "kfs2_lba u = kfs2_lba s" "kfs2_cluster_n u = kfs2_cluster_n s"
      "kfs2_buf_at u = kfs2_buf_at s" "kfs2_handles u = kfs2_handles s" "kfs2_err u = kfs2_err s"
    by (subst u, simp)+
  have t: "t = (if n = kfs2_cluster_index s then s else u\<lparr>kfs2_cluster_index := n\<rparr>)"
    using ok n by (auto simp: t_def kfs2_read_cluster_def kfs2_ok_def u_def Let_def)
  have hold: "kfs2_holds disk n t"
    using ok n t fs m by (auto simp: kfs2_holds_def kfs2_ok_def kfs2_byte_def)
  then show "kfs2_holds disk n t" .
  show same: "kfs2_same s t" using fs t m by (auto simp: kfs2_same_def)
  then show "kfs2_ok disk t" using ok t hold by (auto simp: kfs2_ok_def kfs2_same_def)
qed

lemma kfs2_held:
  "kfs2_holds disk c s \<Longrightarrow> k < 8192 \<Longrightarrow>
     mem s (kfs2_buf_at s + of_nat k) = kfs2_byte disk (kfs2_lba s) c k"
  by (simp add: kfs2_holds_def unat_of_nat_small)

lemma kfs2_held_long:
  assumes "kfs2_holds disk c s" and "k + 3 < 8192"
  shows "load32 (mem s) (kfs2_buf_at s + of_nat k) = kfs2_long disk (kfs2_lba s) c k"
proof -
  have "unat (of_nat k + of_nat j :: LONG) = k + j \<and>
      mem s (kfs2_buf_at s + of_nat k + of_nat j) = kfs2_byte disk (kfs2_lba s) c (k + j)" if "j < 4" for j
    using kfs2_held [OF assms(1), of "k + j"] that assms(2) unat_of_nat_small [of "k + j", where 'a = 32]
    by (simp add: add.assoc)
  from this [of 0] this [of 1] this [of 2] this [of 3] show ?thesis
    by (simp add: load32_def kfs2_long_def)
qed

section \<open>Reading bytes\<close>

text \<open>The cluster that a chain has at a position.\<close>

fun kfs2_nth :: "disk \<Rightarrow> LONG \<Rightarrow> LONG \<Rightarrow> nat \<Rightarrow> LONG" where
  "kfs2_nth disk lba c 0 = c"
| "kfs2_nth disk lba c (Suc j) = kfs2_nth disk lba (kfs2_long disk lba c 276) j"

lemma kfs2_walk_holds:
  assumes "reads_disk rd disk" and "kfs2_ok disk s"
    and "\<And>i. i \<le> j \<Longrightarrow> kfs2_nth disk (kfs2_lba s) c i \<le> kfs2_cluster_n s"
  shows "\<exists>t. kfs2_walk rd j c s = (kfs2_nth disk (kfs2_lba s) c j, t) \<and> kfs2_ok disk t \<and>
    kfs2_holds disk (kfs2_nth disk (kfs2_lba s) c j) t \<and> kfs2_same s t"
  using assms(2,3)
proof (induction j arbitrary: c s)
  case 0
  then show ?case using kfs2_read_holds [OF assms(1), of s c] by simp
next
  case (Suc j)
  define u where "u = kfs2_read_cluster rd c s"
  have u: "kfs2_ok disk u" "kfs2_holds disk c u" "kfs2_same s u"
    using kfs2_read_holds [OF assms(1) Suc.prems(1), of c] Suc.prems(2) [of 0] by (simp_all add: u_def)
  then have fs: "kfs2_lba u = kfs2_lba s" "kfs2_cluster_n u = kfs2_cluster_n s"
    by (simp_all add: kfs2_same_def)
  have nxt: "kfs2_next u = kfs2_long disk (kfs2_lba s) c 276"
    using kfs2_held_long [OF u(2), of 276] fs by (simp add: kfs2_next_def)
  have "\<exists>t. kfs2_walk rd j (kfs2_next u) u = (kfs2_nth disk (kfs2_lba u) (kfs2_next u) j, t) \<and>
      kfs2_ok disk t \<and> kfs2_holds disk (kfs2_nth disk (kfs2_lba u) (kfs2_next u) j) t \<and> kfs2_same u t"
    using u(1) Suc.prems(2) [of "Suc i" for i] by (intro Suc.IH) (simp_all add: fs nxt)
  then show ?case
    using kfs2_same_trans [OF u(3)] by (auto simp: fs nxt u_def [symmetric] Let_def)
qed

lemma byte_clstr:
  assumes "i < 2 ^ 31"
  shows "KFS2_BYTE_CLSTR (of_nat i) = of_nat (i div 7680)"
proof -
  have "int i sdiv 7680 = int (i div 7680)" by (cases "i = 0") (simp_all add: signed_divide_int_def zdiv_int)
  then show ?thesis using assms by (simp add: KFS2_BYTE_CLSTR_def sint_small)
qed

lemma byte_clstr_off:
  assumes "i < 2 ^ 31"
  shows "KFS2_BYTE_CLSTR_OFF (of_nat i) = - of_nat (i mod 7680)"
proof -
  have "(of_nat i :: LONG) = of_nat (i div 7680 * 7680 + i mod 7680)" by simp
  then show ?thesis
    unfolding KFS2_BYTE_CLSTR_OFF_def byte_clstr [OF assms] by (simp only: of_nat_add of_nat_mult) simp
qed

text \<open>
  The byte that is read for a position: at its offset before the data of its cluster, in the
  header of the cluster or, beyond the 512 bytes of that, in the memory before the buffer.
\<close>

definition kfs2_got :: "disk \<Rightarrow> 'a kfs2_scheme \<Rightarrow> LONG \<Rightarrow> nat \<Rightarrow> BYTE" where
  "kfs2_got disk s c i =
     (if i mod 7680 \<le> 512 then kfs2_byte disk (kfs2_lba s) (kfs2_nth disk (kfs2_lba s) c (i div 7680)) (512 - i mod 7680)
      else mem s (kfs2_buf_at s + 512 - of_nat (i mod 7680)))"

text \<open>Memory apart from the buffer and from the bytes before it.\<close>

definition far :: "LONG \<Rightarrow> nat \<Rightarrow> LONG \<Rightarrow> bool" where
  "far p n buf \<longleftrightarrow> (\<forall>k < n. 15360 \<le> unat (p + of_nat k - (buf - 7168)))"

lemma unat_before:
  assumes "unat (a - buf) < 8192"
  shows "unat (a - (buf - 7168) :: LONG) = unat (a - buf) + 7168"
proof -
  have "a - (buf - 7168) = of_nat (unat (a - buf) + 7168)" by (simp add: word_of_nat_unat)
  moreover have "unat (of_nat (unat (a - buf) + 7168) :: LONG) = unat (a - buf) + 7168"
    using assms by (intro unat_of_nat_small) simp
  ultimately show ?thesis by metis
qed

lemma farD:
  assumes "far p n buf" and "k < n"
  shows "8192 \<le> unat (p + of_nat k - buf)"
proof (rule ccontr)
  assume "\<not> 8192 \<le> unat (p + of_nat k - buf)"
  then have "unat (p + of_nat k - (buf - 7168)) < 15360" using unat_before [of "p + of_nat k" buf] by simp
  then show False using assms by (auto simp: far_def not_le [symmetric])
qed

lemma far_before:
  assumes "far p n buf" and "k < n" and "512 < r" and "r < 7680"
  shows "buf + 512 - of_nat r \<noteq> p + of_nat k" and "8192 \<le> unat (buf + 512 - of_nat r - buf)"
proof -
  have r: "unat (of_nat r :: LONG) = r" using assms(4) by (intro unat_of_nat_small) simp
  have "buf + 512 - of_nat r - (buf - 7168) = of_nat (7680 - r)" using assms(4) by (simp add: of_nat_diff)
  moreover have "unat (of_nat (7680 - r) :: LONG) = 7680 - r" by (intro unat_of_nat_small) simp
  ultimately have "unat (buf + 512 - of_nat r - (buf - 7168)) < 15360" by simp
  then show "buf + 512 - of_nat r \<noteq> p + of_nat k"
    using assms(1,2) unfolding far_def by (metis leD)
  have "buf + 512 - of_nat r - buf = 512 - (of_nat r :: LONG)" by simp
  then show "8192 \<le> unat (buf + 512 - of_nat r - buf)"
    using assms(3,4) r by (simp add: unat_sub_if')
qed

text \<open>One position: the walk to its cluster and the byte that is then read.\<close>

lemma kfs2_one_byte:
  assumes rd: "reads_disk rd disk" and ok: "kfs2_ok disk s" and i: "i < 2 ^ 31"
    and chain: "\<And>j. j \<le> i div 7680 \<Longrightarrow> kfs2_nth disk (kfs2_lba s) start j \<le> kfs2_cluster_n s"
    and far: "far dest n (kfs2_buf_at s)" "0 < n"
  shows "\<exists>t. kfs2_walk rd (unat (of_nat (i div 7680) :: LONG)) start s =
      (kfs2_nth disk (kfs2_lba s) start (i div 7680), t) \<and> kfs2_ok disk t \<and> kfs2_same s t \<and>
    mem t (kfs2_buf_at t + (512 + KFS2_BYTE_CLSTR_OFF (of_nat i))) = kfs2_got disk s start i"
proof -
  let ?c = "kfs2_nth disk (kfs2_lba s) start (i div 7680)" and ?r = "i mod 7680"
  have "unat (of_nat (i div 7680) :: LONG) = i div 7680" using i by (intro unat_of_nat_small) simp
  then obtain t where t: "kfs2_walk rd (unat (of_nat (i div 7680) :: LONG)) start s = (?c, t)"
      "kfs2_ok disk t" "kfs2_holds disk ?c t" "kfs2_same s t"
    using kfs2_walk_holds [OF rd ok, of "i div 7680" start] chain by auto
  then have fs: "kfs2_lba t = kfs2_lba s" "kfs2_buf_at t = kfs2_buf_at s" by (simp_all add: kfs2_same_def)
  have addr: "kfs2_buf_at t + (512 + KFS2_BYTE_CLSTR_OFF (of_nat i)) = kfs2_buf_at s + 512 - of_nat ?r"
    using fs by (simp add: byte_clstr_off [OF i])
  have "mem t (kfs2_buf_at s + 512 - of_nat ?r) = kfs2_got disk s start i"
  proof (cases "?r \<le> 512")
    case True
    then have "kfs2_buf_at s + 512 - of_nat ?r = kfs2_buf_at t + of_nat (512 - ?r)"
      using fs by (simp add: of_nat_diff)
    then show ?thesis using kfs2_held [OF t(3), of "512 - ?r"] True fs by (simp add: kfs2_got_def add_diff_eq)
  next
    case False
    then have "8192 \<le> unat (kfs2_buf_at s + 512 - of_nat ?r - kfs2_buf_at s)"
      using far by (intro far_before(2)) auto
    then show ?thesis using t(4) False by (simp add: kfs2_got_def kfs2_same_def)
  qed
  then have "mem t (kfs2_buf_at t + (512 + KFS2_BYTE_CLSTR_OFF (of_nat i))) = kfs2_got disk s start i"
    unfolding addr .
  with t show ?thesis by blast
qed

lemma kfs2_got_cong:
  assumes "kfs2_lba t = kfs2_lba s" and "kfs2_buf_at t = kfs2_buf_at s"
    and "\<And>r. 512 < r \<Longrightarrow> r < 7680 \<Longrightarrow> mem t (kfs2_buf_at s + 512 - of_nat r) = mem s (kfs2_buf_at s + 512 - of_nat r)"
  shows "kfs2_got disk t c i = kfs2_got disk s c i"
  using assms by (simp add: kfs2_got_def)

text \<open>What a store outside the buffer keeps.\<close>

lemma kfs2_ok_store:
  assumes "kfs2_ok disk s" and "8192 \<le> unat (a - kfs2_buf_at s)"
  shows "kfs2_ok disk (s\<lparr>mem := (mem s)(a := b)\<rparr>)"
  using assms by (auto simp: kfs2_ok_def kfs2_holds_def)

lemma kfs2_bytes_got:
  assumes rd: "reads_disk rd disk" and ok: "kfs2_ok disk s" and i: "i + k < 2 ^ 31"
    and chain: "\<And>j. j \<le> (i + k) div 7680 \<Longrightarrow> kfs2_nth disk (kfs2_lba s) start j \<le> kfs2_cluster_n s"
    and far: "far dest (p + k) (kfs2_buf_at s)" and p: "p + k < 2 ^ 31"
    and first: "clstr_n \<noteq> of_nat (i div 7680) \<or> clstr_n = 0 \<and> clstr = start"
  shows "\<exists>t. kfs2_bytes rd start dest k (of_nat i) (of_nat p) clstr clstr_n s = (of_nat (p + k), t) \<and>
    kfs2_ok disk t \<and> kfs2_handles t = kfs2_handles s \<and>
    (\<forall>q < k. mem t (dest + of_nat (p + q)) = kfs2_got disk s start (i + q)) \<and>
    (\<forall>a. 8192 \<le> unat (a - kfs2_buf_at s) \<longrightarrow> (\<forall>q < k. a \<noteq> dest + of_nat (p + q)) \<longrightarrow> mem t a = mem s a)"
  using ok i chain far p first
proof (induction k arbitrary: i p clstr clstr_n s)
  case 0
  then show ?case by simp
next
  case (Suc k)
  have i31: "i < 2 ^ 31" using Suc.prems(2) by simp
  have ch: "kfs2_nth disk (kfs2_lba s) start j \<le> kfs2_cluster_n s" if "j \<le> i div 7680" for j
    using that Suc.prems(3) [of j] by (meson div_le_mono le_add1 le_trans)
  obtain u where u: "kfs2_walk rd (unat (of_nat (i div 7680) :: LONG)) start s =
        (kfs2_nth disk (kfs2_lba s) start (i div 7680), u)" "kfs2_ok disk u" "kfs2_same s u"
      "mem u (kfs2_buf_at u + (512 + KFS2_BYTE_CLSTR_OFF (of_nat i))) = kfs2_got disk s start i"
    using kfs2_one_byte [OF rd Suc.prems(1) i31 ch Suc.prems(4)] by auto
  define v where "v = u\<lparr>mem := (mem u)(dest + of_nat p := kfs2_got disk s start i)\<rparr>"
  let ?c = "kfs2_nth disk (kfs2_lba s) start (i div 7680)"
  have fs: "kfs2_lba v = kfs2_lba s" "kfs2_buf_at v = kfs2_buf_at s" "kfs2_cluster_n v = kfs2_cluster_n s"
      "kfs2_handles v = kfs2_handles s" "kfs2_buf_at u = kfs2_buf_at s"
    using u(3) by (simp_all add: v_def kfs2_same_def)
  have out: "8192 \<le> unat (dest + of_nat p - kfs2_buf_at s)" using farD [OF Suc.prems(4), of p] by simp
  have okv: "kfs2_ok disk v" unfolding v_def using u(2) out fs(5) by (intro kfs2_ok_store) simp_all
  have mv: "mem v a = (if a = dest + of_nat p then kfs2_got disk s start i else mem s a)"
    if "8192 \<le> unat (a - kfs2_buf_at s)" for a
    using that u(3) by (simp add: v_def kfs2_same_def)
  have got: "kfs2_got disk v start j = kfs2_got disk s start j" for j
  proof (rule kfs2_got_cong)
    fix r :: nat
    assume "512 < r" "r < 7680"
    with far_before [OF Suc.prems(4), of p r]
    show "mem v (kfs2_buf_at s + 512 - of_nat r) = mem s (kfs2_buf_at s + 512 - of_nat r)"
      by (subst mv) auto
  qed (simp_all add: fs)
  have step: "kfs2_bytes rd start dest (Suc k) (of_nat i) (of_nat p) clstr clstr_n s =
      kfs2_bytes rd start dest k (of_nat (Suc i)) (of_nat (Suc p)) ?c 0 v"
    using Suc.prems(6) u(1,4) byte_clstr [OF i31] by (auto simp: v_def Let_def add.commute)
  have "(0 :: LONG) \<noteq> of_nat (Suc i div 7680) \<or> (0 :: LONG) = 0 \<and> ?c = start"
  proof (cases "Suc i div 7680 = 0")
    case True
    then show ?thesis by (simp add: div_eq_0_iff)
  next
    case False
    moreover have "unat (of_nat (Suc i div 7680) :: LONG) = Suc i div 7680"
      using i31 by (intro unat_of_nat_small) simp
    ultimately show ?thesis by (metis unat_0)
  qed
  then obtain t where t: "kfs2_bytes rd start dest k (of_nat (Suc i)) (of_nat (Suc p)) ?c 0 v =
        (of_nat (Suc p + k), t)" "kfs2_ok disk t" "kfs2_handles t = kfs2_handles v"
      "\<forall>q < k. mem t (dest + of_nat (Suc p + q)) = kfs2_got disk v start (Suc i + q)"
      "\<forall>a. 8192 \<le> unat (a - kfs2_buf_at v) \<longrightarrow> (\<forall>q < k. a \<noteq> dest + of_nat (Suc p + q)) \<longrightarrow> mem t a = mem v a"
    using Suc.IH [OF okv, of "Suc i" "Suc p" 0 ?c] Suc.prems(2-5) fs by auto
  have neq: "dest + of_nat p \<noteq> dest + of_nat (Suc p + q)" if "q < k" for q
  proof
    assume "dest + of_nat p = dest + (of_nat (Suc p + q) :: LONG)"
    then have "unat (of_nat p :: LONG) = unat (of_nat (Suc p + q) :: LONG)"
      by (metis add_left_imp_eq)
    moreover have "unat (of_nat p :: LONG) = p" "unat (of_nat (Suc p + q) :: LONG) = Suc p + q"
      using Suc.prems(5) that by (intro unat_of_nat_small, simp)+
    ultimately show False by simp
  qed
  have "mem t (dest + of_nat (p + q)) = kfs2_got disk s start (i + q)" if "q < Suc k" for q
  proof (cases q)
    case 0
    then show ?thesis using t(5) out neq mv [OF out] fs(2) by simp
  next
    case (Suc r)
    then show ?thesis using t(4) got that by simp
  qed
  moreover have "mem t a = mem s a"
    if "8192 \<le> unat (a - kfs2_buf_at s)" "\<forall>q < Suc k. a \<noteq> dest + of_nat (p + q)" for a
  proof -
    have "a \<noteq> dest + of_nat p" "\<forall>q < k. a \<noteq> dest + of_nat (Suc p + q)"
      using that(2) by (force dest: spec [of _ 0] spec [of _ "Suc q" for q])+
    then show ?thesis using t(5) mv [OF that(1)] that(1) fs(2) by simp
  qed
  ultimately show ?case unfolding step using t(1,2,3) fs(4) by auto
qed

text \<open>A disk with one file of two clusters, mounted and opened, for the examples.\<close>

definition kfs2_disk :: disk where
  "kfs2_disk lba i =
     (if lba = 101 \<and> i = 0 then 1
      else if lba = 101 \<and> 8 \<le> i \<and> i < 12 then str ''init'' ! (i - 8)
      else if lba = 101 \<and> i = 276 then 1
      else if lba = 101 \<and> i = 511 then 7
      else 0)"

definition kfs0 :: kfs2 where
  "kfs0 = kssfs.extend kss1 \<lparr>kfs2_lba = 100, kfs2_buf_at = 0x310000, kfs2_cluster_index = 0xffffffff,
     kfs2_cluster_n = 2, kfs2_err = 0,
     kfs2_handles = replicate 16 kfs2_file_zero\<rparr>"

lemma kfs0_simps [simp]:
  "kfs2_lba kfs0 = 100" "kfs2_cluster_n kfs0 = 2" "kfs2_cluster_index kfs0 = 0xffffffff"
  "kfs2_buf_at kfs0 = 0x310000" "kfs2_handles kfs0 = replicate 16 kfs2_file_zero"
  "mem kfs0 = (\<lambda>a. if unat (a - 0x400000) < 4 then str ''init'' ! unat (a - 0x400000) else 0)"
  by (simp_all add: kfs0_def kssfs.defs kss1_def kss0_def network.defs)

text \<open>
  C10: On a mounted file system and an open handle, with a driver that reads the disk,
  \<open>kfs2_read_byte\<close> returns the number of bytes asked for. Each byte comes from the cluster of
  the chain that holds its position, but at the offset counted backwards from the start of the
  data: positions up to 512 give bytes of the header of the cluster, later ones bytes of the
  memory before the buffer. The range must be below 2 GiB, its chain on the disk, the
  destination apart from that memory, and the uninitialised cluster counter must not happen to
  be the number of the first cluster.
\<close>

theorem kfs2_read_byte_backwards:
  assumes "reads_disk rd disk" and "kfs2_ok disk s" and "unat off + unat n < 2 ^ 31"
    and "unat file < 16" and "fl_flags (kfs2_handles s ! unat file) AND 1 \<noteq> 0"
    and "\<And>j. j \<le> (unat off + unat n) div 7680 \<Longrightarrow>
      kfs2_nth disk (kfs2_lba s) (startclstr (kfs2_handles s ! unat file)) j \<le> kfs2_cluster_n s"
    and "far dest (unat n) (kfs2_buf_at s)" and "clstr_n \<noteq> of_nat (unat off div 7680)"
  shows "\<exists>t. kfs2_read_byte rd clstr_n file dest n off s = Some (n, t) \<and> kfs2_ok disk t \<and>
    (\<forall>q < unat n. mem t (dest + of_nat q) =
       kfs2_got disk s (startclstr (kfs2_handles s ! unat file)) (unat off + q))"
proof -
  let ?k = "if off < off + n then unat n else 0"
  have "unat (off + n) = unat off + unat n" using assms(3) by (simp add: unat_word_ariths)
  then have k: "?k = unat n" by (auto simp: word_less_nat_alt)
  have "unat file < length (kfs2_handles s)" using assms(2,4) by (simp add: kfs2_ok_def KFS2_MAX_FILES_def)
  then show ?thesis
    using kfs2_bytes_got [OF assms(1,2,3,6), of dest 0 clstr_n 0]
      assms(3,5,7,8)
    unfolding kfs2_read_byte_def k by (auto simp: at_def word_of_nat_unat)
qed

theorem kfs2_read_byte_backwards_witness:
  "\<exists>t. kfs2_read_byte (disk_read kfs2_disk) 1 0 0x500000 2 0
      (kfs0\<lparr>kfs2_handles := (replicate 16 kfs2_file_zero)[0 := \<lparr>fl_flags = 1, startclstr = 0\<rparr>]\<rparr>) = Some (2, t) \<and>
    mem t (0x500000 + 1) = 7"
proof -
  define s where "s = kfs0\<lparr>kfs2_handles := (replicate 16 kfs2_file_zero)[0 := \<lparr>fl_flags = 1, startclstr = 0\<rparr>]\<rparr>"
  have h: "kfs2_handles s ! 0 = \<lparr>fl_flags = 1, startclstr = 0\<rparr>" by (simp add: s_def)
  have "kfs2_ok kfs2_disk s" by (simp add: s_def kfs2_ok_def KFS2_MAX_FILES_def)
  moreover have "far 0x500000 2 (kfs2_buf_at s)" by (auto simp: s_def far_def less_2_cases_iff)
  moreover have "kfs2_cluster_n s = 2" "kfs2_lba s = 100" by (simp_all add: s_def)
  moreover have "kfs2_byte kfs2_disk 100 0 511 = 7" by code_simp
  then have "kfs2_got kfs2_disk s 0 1 = 7" by (simp add: kfs2_got_def s_def)
  ultimately show ?thesis
    using kfs2_read_byte_backwards [OF disk_read_reads, of kfs2_disk s 0 2 0 "0x500000" 1]
    by (auto simp: h s_def [symmetric] dest: spec [of _ 1])
qed

section \<open>Opening and closing\<close>

definition kfs2_is :: "disk \<Rightarrow> LONG \<Rightarrow> (nat \<Rightarrow> BYTE) \<Rightarrow> nat \<Rightarrow> bool" where
  "kfs2_is disk lba name i \<longleftrightarrow> kfs2_long disk lba (of_nat i) 0 = KFS2_TYPE_FILE \<and>
     bytes_cmp name (\<lambda>k. kfs2_byte disk lba (of_nat i) (8 + k)) 256 = 0"

text \<open>A mounted file system and a name in memory, apart from the buffer.\<close>

definition kfs2_names :: "disk \<Rightarrow> LONG \<Rightarrow> (nat \<Rightarrow> BYTE) \<Rightarrow> 'a kfs2_scheme \<Rightarrow> bool" where
  "kfs2_names disk filename name s \<longleftrightarrow> kfs2_ok disk s \<and> apart filename 256 (kfs2_buf_at s) \<and>
     (\<forall>k < 256. mem s (filename + of_nat k) = name k)"

lemma kfs2_names_read:
  assumes "reads_disk rd disk" and "kfs2_names disk filename name s" and "n \<le> kfs2_cluster_n s"
  shows "kfs2_names disk filename name (kfs2_read_cluster rd n s)"
  using assms kfs2_read_holds [OF assms(1) _ assms(3)]
  by (auto simp: kfs2_names_def kfs2_same_def apart_def)

lemma kfs2_search_finds:
  assumes rd: "reads_disk rd disk" and s: "kfs2_names disk filename name s"
    and n: "i + n \<le> unat (kfs2_cluster_n s)"
  shows "\<exists>t. kfs2_names disk filename name t \<and> kfs2_same s t \<and>
    kfs2_search rd filename n (of_nat i) s =
      (case find (kfs2_is disk (kfs2_lba s) name) [i..<i + n] of
         None \<Rightarrow> (- 1, t\<lparr>kfs2_err := ENOENT\<rparr>)
       | Some j \<Rightarrow> kfs2_take_handle (of_nat j) t)"
  using s n
proof (induction n arbitrary: i s)
  case 0
  then show ?case by auto
next
  case (Suc n)
  let ?P = "kfs2_is disk (kfs2_lba s) name"
  define t where "t = kfs2_read_cluster rd (of_nat i) s"
  have i: "unat (of_nat i :: LONG) = i"
    using Suc.prems(2) unat_bounds(3) [of "kfs2_cluster_n s"] by (simp add: unat_of_nat_small)
  then have le: "of_nat i \<le> kfs2_cluster_n s" using Suc.prems(2) by (simp add: word_le_nat_alt)
  have t: "kfs2_names disk filename name t" "kfs2_holds disk (of_nat i) t" "kfs2_same s t"
    using kfs2_names_read [OF rd Suc.prems(1) le] kfs2_read_holds [OF rd _ le] Suc.prems(1)
    by (simp_all add: t_def kfs2_names_def)
  then have fs: "kfs2_lba t = kfs2_lba s" "kfs2_cluster_n t = kfs2_cluster_n s" by (simp_all add: kfs2_same_def)
  have nm: "mem t (kfs2_name t + of_nat k) = kfs2_byte disk (kfs2_lba s) (of_nat i) (8 + k)" if "k < 256" for k
    using kfs2_held [OF t(2), of "8 + k"] that fs by (simp add: kfs2_name_def add.assoc)
  have "strncmp (mem t) filename (kfs2_name t) 256 =
      bytes_cmp name (\<lambda>k. kfs2_byte disk (kfs2_lba s) (of_nat i) (8 + k)) 256"
    using strncmp_bytes [of 256 "mem t" filename name "kfs2_name t"
        "\<lambda>k. kfs2_byte disk (kfs2_lba s) (of_nat i) (8 + k)"] nm t(1) by (simp add: kfs2_names_def)
  moreover have "kfs2_type t = kfs2_long disk (kfs2_lba s) (of_nat i) 0"
    using kfs2_held_long [OF t(2), of 0] fs by (simp add: kfs2_type_def)
  ultimately have P: "kfs2_type t = KFS2_TYPE_FILE \<and> strncmp (mem t) filename (kfs2_name t) 256 = 0 \<longleftrightarrow> ?P i"
    by (simp add: kfs2_is_def)
  have upt: "[i..<i + Suc n] = i # [Suc i..<Suc i + n]" by (simp add: upt_conv_Cons)
  show ?case
  proof (cases "?P i")
    case True
    with P have "kfs2_search rd filename (Suc n) (of_nat i) s = kfs2_take_handle (of_nat i) t"
      by (simp add: t_def [symmetric] Let_def)
    with True t show ?thesis unfolding upt by (intro exI [of _ t]) simp
  next
    case False
    with P have step: "kfs2_search rd filename (Suc n) (of_nat i) s =
        kfs2_search rd filename n (of_nat (Suc i)) t"
      by (auto simp: t_def [symmetric] Let_def add.commute)
    have "Suc i + n \<le> unat (kfs2_cluster_n t)" using Suc.prems(2) fs by simp
    from Suc.IH [OF t(1) this] obtain u where "kfs2_names disk filename name u" "kfs2_same t u"
      "kfs2_search rd filename n (of_nat (Suc i)) t =
        (case find ?P [Suc i..<Suc i + n] of None \<Rightarrow> (- 1, u\<lparr>kfs2_err := ENOENT\<rparr>)
         | Some j \<Rightarrow> kfs2_take_handle (of_nat j) u)"
      unfolding fs by blast
    then show ?thesis
      unfolding step upt using False kfs2_same_trans [OF t(3)] by (intro exI [of _ u]) simp
  qed
qed

lemma kfs2_names_handles:
  "kfs2_names disk f name s \<Longrightarrow> length hs = KFS2_MAX_FILES \<Longrightarrow> kfs2_names disk f name (s\<lparr>kfs2_handles := hs\<rparr>)"
  "kfs2_names disk f name s \<Longrightarrow> kfs2_names disk f name (s\<lparr>kfs2_err := e\<rparr>)"
  by (auto simp: kfs2_names_def kfs2_ok_def kfs2_holds_def)

text \<open>The first file with a name, if there is one.\<close>

definition kfs2_lookup :: "disk \<Rightarrow> (nat \<Rightarrow> BYTE) \<Rightarrow> 'a kfs2_scheme \<Rightarrow> nat option" where
  "kfs2_lookup disk name s = find (kfs2_is disk (kfs2_lba s) name) [0..<unat (kfs2_cluster_n s)]"

abbreviation handle_free :: "kfs2_file \<Rightarrow> bool" where
  "handle_free h \<equiv> fl_flags h AND 1 = 0"

lemma kfs2_open_eq:
  assumes "reads_disk rd disk" and "kfs2_names disk filename name s"
  shows "\<exists>t. kfs2_names disk filename name t \<and> kfs2_same s t \<and>
    kfs2_open_file rd filename s =
      (case kfs2_lookup disk name s of
         None \<Rightarrow> (- 1, t\<lparr>kfs2_err := ENOENT\<rparr>)
       | Some j \<Rightarrow> kfs2_take_handle (of_nat j) t)"
  using kfs2_search_finds [OF assms, of 0 "unat (kfs2_cluster_n s)"]
  by (simp add: kfs2_open_file_def kfs2_lookup_def)


section \<open>The handles\<close>

definition kfs2_alloc :: "('a kfs2_scheme) sector_op \<Rightarrow> LONG \<Rightarrow> 'a kfs2_scheme \<Rightarrow>
    (bool \<times> 'a kfs2_scheme) option" where
  "kfs2_alloc rd filename s = (case kfs2_open_file rd filename s of (h, t) \<Rightarrow> Some (h \<noteq> - 1, t))"

definition kfs2_present :: "('a kfs2_scheme) sector_op \<Rightarrow> disk \<Rightarrow> LONG \<Rightarrow> (nat \<Rightarrow> BYTE) \<Rightarrow> 'a kfs2_scheme \<Rightarrow> bool" where
  "kfs2_present rd disk filename name s \<longleftrightarrow> reads_disk rd disk \<and> kfs2_names disk filename name s \<and>
     kfs2_lookup disk name s \<noteq> None"

interpretation kfs2_slots: slot_table "kfs2_present rd disk filename name" kfs2_handles handle_free
  "kfs2_alloc rd filename"
proof (unfold_locales, rule first_free_law)
  fix s :: "'a kfs2_scheme"
  assume s: "kfs2_present rd disk filename name s"
  then obtain c u where u: "kfs2_lookup disk name s = Some c" "kfs2_names disk filename name u" "kfs2_same s u"
      "kfs2_open_file rd filename s = kfs2_take_handle (of_nat c) u"
    using kfs2_open_eq [of rd disk filename name s] by (auto simp: kfs2_present_def)
  then have hs: "kfs2_handles u = kfs2_handles s" "length (kfs2_handles s) = KFS2_MAX_FILES"
      "kfs2_lookup disk name u = Some c"
    by (auto simp: kfs2_same_def kfs2_names_def kfs2_ok_def kfs2_lookup_def)
  have rd: "reads_disk rd disk" using s by (simp add: kfs2_present_def)
  {
    fix i
    assume i: "first_free handle_free (kfs2_handles s) = Some i"
    then have "i < 16" using first_free_Some [OF i] hs by (simp add: KFS2_MAX_FILES_def)
    then have "unat (of_nat i :: LONG) = i" by (intro unat_of_nat_small) simp
    then have ne: "(of_nat i :: LONG) \<noteq> - 1"
      using \<open>i < 16\<close> unat_minus_1_long by (auto simp: word_unat_eq_iff)
    let ?h = "\<lparr>fl_flags = 1, startclstr = of_nat c\<rparr>"
    show "\<exists>x t. kfs2_alloc rd filename s = Some (True, t) \<and> kfs2_present rd disk filename name t \<and>
        \<not> handle_free x \<and> kfs2_handles t = (kfs2_handles s)[i := x]"
      using u(2,4) i hs rd ne
      by (intro exI [of _ ?h] exI [of _ "u\<lparr>kfs2_handles := (kfs2_handles s)[i := ?h]\<rparr>"])
        (simp add: kfs2_alloc_def kfs2_take_handle_def kfs2_present_def kfs2_names_handles kfs2_lookup_def)
  }
  assume "first_free handle_free (kfs2_handles s) = None"
  then show "\<exists>t. kfs2_alloc rd filename s = Some (False, t) \<and> kfs2_present rd disk filename name t \<and>
      kfs2_handles t = kfs2_handles s"
    using u(2,4) hs rd
    by (intro exI [of _ "u\<lparr>kfs2_err := EMFILE\<rparr>"])
      (simp add: kfs2_alloc_def kfs2_take_handle_def kfs2_present_def kfs2_names_handles kfs2_lookup_def)
qed

text \<open>
  However often a file that exists is opened, the opens succeed for as many handles as are
  free and then fail, and no handle in use changes.
\<close>

theorem kfs2_open_capacity:
  assumes "reads_disk rd disk" and "kfs2_names disk filename name s" and "kfs2_lookup disk name s \<noteq> None"
  shows "\<exists>t. alloc_n (kfs2_alloc rd filename) n s =
      Some (map (\<lambda>i. i < free_slots handle_free (kfs2_handles s)) [0..<n], t) \<and>
    (\<forall>j < 16. \<not> handle_free (kfs2_handles s ! j) \<longrightarrow> kfs2_handles t ! j = kfs2_handles s ! j)"
proof -
  have "length (kfs2_handles s) = 16"
    using assms(2) by (simp add: kfs2_names_def kfs2_ok_def KFS2_MAX_FILES_def)
  then show ?thesis
    using kfs2_slots.alloc_n_results [of rd disk filename name s n] assms by (auto simp: kfs2_present_def)
qed

lemma kfs0_names: "kfs2_names kfs2_disk 0x400000 (\<lambda>k. mem kfs0 (0x400000 + of_nat k)) kfs0"
  using apart_above [of "0x400000" "0x310000" "0xF0000" 256]
  by (simp add: kfs2_names_def kfs2_ok_def KFS2_MAX_FILES_def)

lemma kfs0_lookup: "kfs2_lookup kfs2_disk (\<lambda>k. mem kfs0 (0x400000 + of_nat k)) kfs0 = Some 0"
  unfolding kfs2_lookup_def kfs0_simps by code_simp


theorem kfs2_open_capacity_witness:
  "\<exists>t. alloc_n (kfs2_alloc (disk_read kfs2_disk) 0x400000) 17 kfs0 =
     Some (replicate 16 True @ [False], t)"
proof -
  have "free_slots handle_free (kfs2_handles kfs0) = 16"
    by (simp add: free_slots_def kfs2_file_zero_def)
  moreover have "map (\<lambda>i. i < 16) [0..<17] = replicate 16 True @ [False]" by code_simp
  ultimately show ?thesis
    using kfs2_open_capacity [OF disk_read_reads kfs0_names, of 17] kfs0_lookup by fastforce
qed

end
