(* ===== verification/Mkfs2.thy ===== *)
theory Mkfs2
  imports Kfs2 Hostfile
begin

text \<open>
  The program that makes an image of the second file system, \<^verbatim>\<open>tools/mkfs.kfs2.c\<close>. Reading an
  object beyond its end has no defined result, \<open>None\<close>.
\<close>

definition KFS2_CLSTR_SZ :: LONG where "KFS2_CLSTR_SZ = 8192"
definition KFS2_VERSION :: LONG where "KFS2_VERSION = 1"

text \<open>The size of the structure \<open>kfs2_clstr\<close>, whose array \<open>data\<close> has no elements.\<close>

definition sizeof_kfs2_clstr :: nat where "sizeof_kfs2_clstr = 280"

section \<open>Operations\<close>

definition prepare :: "LONG \<Rightarrow> hfile \<Rightarrow> LONG \<times> hfile" where
  "prepare sz f =
     (let cluster_n = (sz - 512) div KFS2_CLSTR_SZ;
          h = put_at 0 (le32 KFS2_SIGNATURE) (replicate 512 0);
          h = put_at 4 (le32 cluster_n) h;
          h = put_at 8 (le32 KFS2_VERSION) h
      in (cluster_n, fwrite h f))"

text \<open>\<open>fwrite\<close> is told to read \<open>cluster_n\<close> structures where there is one.\<close>

definition fill :: "LONG \<Rightarrow> hfile \<Rightarrow> hfile option" where
  "fill cluster_n f =
     (if unat cluster_n \<le> 1 then Some (fwrite (replicate (unat cluster_n * sizeof_kfs2_clstr) 0) f) else None)"

text \<open>
  What \<open>fopen\<close> opens for writing, with its old contents: a regular file is emptied by it, a block
  device is not, but \<open>fstat\<close> gives the size 0 for it.
\<close>

datatype mkfs_target = Regular "BYTE list" | Device "BYTE list"

definition opened :: "mkfs_target \<Rightarrow> hfile" where
  "opened t = (case t of Regular old \<Rightarrow> \<lparr>contents = [], fpos = 0\<rparr> | Device old \<Rightarrow> \<lparr>contents = old, fpos = 0\<rparr>)"

definition st_size :: "mkfs_target \<Rightarrow> LONG" where
  "st_size t = (case t of Regular old \<Rightarrow> of_nat (length (contents (opened t))) | Device old \<Rightarrow> 0)"

text \<open>The result is the exit status and the file.\<close>

definition mkfs_kfs2 :: "nat \<Rightarrow> mkfs_target option \<Rightarrow> (int \<times> hfile option) option" where
  "mkfs_kfs2 argc target =
     (if argc < 2 then Some (1, None)
      else case target of
          None \<Rightarrow> Some (1, None)
        | Some t \<Rightarrow> do {
            let f = opened t;
            let (cluster_n, f) = prepare (st_size t) f;
            f \<leftarrow> fill cluster_n f;
            Some (0, Some f)
          })"

section \<open>What they write\<close>

lemma cluster_count:
  "unat ((sz - 512) div KFS2_CLSTR_SZ) =
     (if unat sz < 512 then (2 ^ 32 - 512 + unat sz) div 8192 else (unat sz - 512) div 8192)"
proof -
  have "unat (sz - 512) = (if unat sz < 512 then 2 ^ 32 - 512 + unat sz else unat sz - 512)"
    using unat_bounds(3) [of sz] by (simp add: unat_sub_if' word_le_nat_alt)
  then show ?thesis by (simp add: unat_div KFS2_CLSTR_SZ_def)
qed

text \<open>
  C1: What is written at the start of a file for a given size: a header of exactly 512 bytes with the signature
  that the kernel tests, the number of clusters, the version 1 and zeros, and the position after it; what the file held
  behind the header stays. The clusters of 8192 bytes that are announced fit the size, and one more would not,
  if the size is at least 512; for a smaller one the count wraps around to 524287.
\<close>

theorem kfs2_prepare_header:
  assumes "fpos f = 0" and "prepare sz f = (n, g)" and "h = take 512 (contents g)"
  shows "length h = 512 \<and> get32 h 0 = KFS2_SIGNATURE \<and> get32 h 4 = n \<and> get32 h 8 = 1 \<and>
    (\<forall>i. 12 \<le> i \<and> i < 512 \<longrightarrow> h ! i = 0) \<and> fpos g = 512 \<and> drop 512 (contents g) = drop 512 (contents f) \<and>
    (if 512 \<le> sz then 512 + unat n * 8192 \<le> unat sz \<and> unat sz < 512 + (unat n + 1) * 8192
     else n = 524287)"
proof -
  let ?h = "put_at 8 (le32 KFS2_VERSION) (put_at 4 (le32 n) (put_at 0 (le32 KFS2_SIGNATURE) (replicate 512 0)))"
  have len: "length ?h = 512" by simp
  have n: "n = (sz - 512) div KFS2_CLSTR_SZ" and g: "g = fwrite ?h f"
    using assms(2) by (auto simp: prepare_def Let_def)
  have c: "contents g = ?h @ drop 512 (contents f)" "fpos g = 512"
    using len assms(1) unfolding g fwrite_def by simp_all
  have h: "h = ?h" using len by (simp add: assms(3) c)
  have "512 + unat n * 8192 \<le> unat sz \<and> unat sz < 512 + (unat n + 1) * 8192" if "512 \<le> sz"
  proof -
    define k where "k = unat sz - 512"
    have "unat n = k div 8192" and "unat sz = k + 512"
      using that cluster_count [of sz] unfolding n k_def by (simp_all add: word_le_nat_alt)
    moreover have "k div 8192 * 8192 + k mod 8192 = k" "k mod 8192 < 8192" by (rule div_mult_mod_eq) simp
    ultimately show ?thesis by (simp add: algebra_simps)
  qed
  moreover have "n = 524287" if "\<not> 512 \<le> sz"
  proof -
    have "unat sz < 512" using that by (simp add: word_le_nat_alt)
    then have "unat n = 524287" unfolding n cluster_count by (auto intro!: div_nat_eqI)
    then show ?thesis by (metis word_of_nat_unat of_nat_numeral)
  qed
  moreover have "\<forall>i. 12 \<le> i \<and> i < 512 \<longrightarrow> ?h ! i = 0" by (simp add: put_at_nth)
  moreover have "drop 512 (contents g) = drop 512 (contents f)" using len by (simp add: c(1))
  ultimately show ?thesis
    unfolding h using len c(2) by (simp add: get32_put_at get32_put_other KFS2_VERSION_def)
qed

theorem kfs2_prepare_header_witness:
  "\<exists>h. length h = 512 \<and> get32 h 4 = fst (prepare 1000000 \<lparr>contents = [7], fpos = 0\<rparr>) \<and> get32 h 8 = 1 \<and>
     512 + unat (fst (prepare 1000000 \<lparr>contents = [7], fpos = 0\<rparr>)) * 8192 \<le> 1000000"
  using kfs2_prepare_header [OF _ prod.collapse [symmetric] refl, of "\<lparr>contents = [7], fpos = 0\<rparr>" 1000000]
  by auto


end
