(* ===== verification/E1000.thy ===== *)
theory E1000
  imports Kernel Network
begin

text \<open>
  The driver of the Intel Ethernet controllers, \<^verbatim>\<open>dev/e1000.c\<close>. It is compiled into the kernel,
  but its entry in the table of PCI drivers is commented out, so \<open>kmain\<close> never starts it.

  A device is its index in \<open>eth_ifs\<close>; the structure that its \<open>priv\<close> points to is the value of
  \<open>e1000_privs\<close> at that address. The registers of the controller and the descriptors, which are
  volatile and shared with it, are accessed through the hardware of the machine: what a read
  gives is decided by the device, and every access is in the log.
\<close>

section \<open>Registers\<close>

definition REG_CTRL :: WORD where "REG_CTRL = 0x0000"
definition REG_STATUS :: WORD where "REG_STATUS = 0x0008"
definition REG_EEPROM :: WORD where "REG_EEPROM = 0x0014"
definition REG_IMASK :: WORD where "REG_IMASK = 0x00D0"
definition REG_RCTRL :: WORD where "REG_RCTRL = 0x0100"
definition REG_RXDESCLO :: WORD where "REG_RXDESCLO = 0x2800"
definition REG_RXDESCHI :: WORD where "REG_RXDESCHI = 0x2804"
definition REG_RXDESCLEN :: WORD where "REG_RXDESCLEN = 0x2808"
definition REG_RXDESCHEAD :: WORD where "REG_RXDESCHEAD = 0x2810"
definition REG_RXDESCTAIL :: WORD where "REG_RXDESCTAIL = 0x2818"
definition REG_TCTRL :: WORD where "REG_TCTRL = 0x0400"
definition REG_TXDESCLO :: WORD where "REG_TXDESCLO = 0x3800"
definition REG_TXDESCHI :: WORD where "REG_TXDESCHI = 0x3804"
definition REG_TXDESCLEN :: WORD where "REG_TXDESCLEN = 0x3808"
definition REG_TXDESCHEAD :: WORD where "REG_TXDESCHEAD = 0x3810"
definition REG_TXDESCTAIL :: WORD where "REG_TXDESCTAIL = 0x3818"
definition REG_TIPG :: WORD where "REG_TIPG = 0x0410"
definition CMD_ICR :: WORD where "CMD_ICR = 0x00C0"

definition ECTRL_ASDE :: LONG where "ECTRL_ASDE = 0x20"
definition ECTRL_SLU :: LONG where "ECTRL_SLU = 0x40"
definition ECTRL_RST :: LONG where "ECTRL_RST = 0x4000000"

definition RCTL_EN :: LONG where "RCTL_EN = push_bit 1 1"
definition RCTL_SBP :: LONG where "RCTL_SBP = push_bit 2 1"
definition RCTL_UPE :: LONG where "RCTL_UPE = push_bit 3 1"
definition RCTL_MPE :: LONG where "RCTL_MPE = push_bit 4 1"
definition RCTL_LBM_NONE :: LONG where "RCTL_LBM_NONE = 0"
definition RTCL_RDMTS_HALF :: LONG where "RTCL_RDMTS_HALF = 0"
definition RCTL_BAM :: LONG where "RCTL_BAM = push_bit 15 1"
definition RCTL_BSEX :: LONG where "RCTL_BSEX = push_bit 25 1"
definition RCTL_SECRC :: LONG where "RCTL_SECRC = push_bit 26 1"
definition RCTL_BSIZE_8192 :: LONG where "RCTL_BSIZE_8192 = push_bit 16 2 OR push_bit 25 1"

definition CMD_EOP :: BYTE where "CMD_EOP = push_bit 0 1"
definition CMD_IFCS :: BYTE where "CMD_IFCS = push_bit 1 1"
definition CMD_RS :: BYTE where "CMD_RS = push_bit 3 1"
definition CMD_RPS :: BYTE where "CMD_RPS = push_bit 4 1"

definition TCTL_EN :: LONG where "TCTL_EN = push_bit 1 1"
definition TCTL_PSP :: LONG where "TCTL_PSP = push_bit 3 1"
definition TCTL_RTLC :: LONG where "TCTL_RTLC = push_bit 24 1"
definition TSTA_DD :: BYTE where "TSTA_DD = push_bit 0 1"

definition E1000_NUM_RX_DESC :: nat where "E1000_NUM_RX_DESC = 32"
definition E1000_NUM_TX_DESC :: nat where "E1000_NUM_TX_DESC = 8"

section \<open>Data\<close>

record e1000_priv =
  ep_bus :: LONG
  ep_device :: LONG
  ep_function :: LONG
  bar_type :: LONG
  eeprom_exists :: LONG
  rx_descs :: "LONG list"
  tx_descs :: "LONG list"
  rx_cur :: LONG
  tx_cur :: LONG
  ep_memory :: LONG
  ep_iobase :: LONG

definition e1000_priv_zero :: e1000_priv where
  "e1000_priv_zero = \<lparr>ep_bus = 0, ep_device = 0, ep_function = 0, bar_type = 0, eeprom_exists = 0,
     rx_descs = replicate E1000_NUM_RX_DESC 0, tx_descs = replicate E1000_NUM_TX_DESC 0, rx_cur = 0,
     tx_cur = 0, ep_memory = 0, ep_iobase = 0\<rparr>"

definition sizeof_e1000_priv :: LONG where
  "sizeof_e1000_priv = 196"

record e1000 = network +
  e1000_privs :: "LONG \<Rightarrow> e1000_priv option"

text \<open>The offsets of the fields of a descriptor, of 16 bytes.\<close>

definition rx_status :: LONG where "rx_status = 12"
definition tx_length :: LONG where "tx_length = 8"
definition tx_cmd :: LONG where "tx_cmd = 11"
definition tx_status :: LONG where "tx_status = 12"

definition e1000_priv_of :: "nat \<Rightarrow> 'a e1000_scheme \<Rightarrow> e1000_priv option" where
  "e1000_priv_of dev s = do { d \<leftarrow> at (eth_ifs s) dev; e1000_privs s (eth_priv d) }"

definition upd_priv :: "nat \<Rightarrow> (e1000_priv \<Rightarrow> e1000_priv) \<Rightarrow> 'a e1000_scheme \<Rightarrow> 'a e1000_scheme option" where
  "upd_priv dev f s = do {
     d \<leftarrow> at (eth_ifs s) dev;
     p \<leftarrow> e1000_privs s (eth_priv d);
     Some (s\<lparr>e1000_privs := (e1000_privs s)(eth_priv d \<mapsto> f p)\<rparr>)
   }"

definition upd_ethdev :: "nat \<Rightarrow> (ethdev \<Rightarrow> ethdev) \<Rightarrow> 'a ethernet_scheme \<Rightarrow> 'a ethernet_scheme option" where
  "upd_ethdev dev f s = do {
     d \<leftarrow> at (eth_ifs s) dev;
     Some (s\<lparr>eth_ifs := (eth_ifs s)[dev := f d]\<rparr>)
   }"

definition ethdev_ptr :: "nat \<Rightarrow> 'a ethernet_scheme \<Rightarrow> LONG" where
  "ethdev_ptr dev s = eth_ifs_at s + of_nat dev * sizeof_ethdev"

section \<open>Access to the controller\<close>

text \<open>An access of 64 bits is two of 32 bits on this processor, the lower half first.\<close>

definition e1000_mmio_read8 :: "LONG \<Rightarrow> 'a machine_scheme \<Rightarrow> BYTE \<times> 'a machine_scheme" where
  "e1000_mmio_read8 addr s = (case io_read (Mmio8 addr) 0xFF s of (v, s) \<Rightarrow> (ucast v, s))"

definition e1000_mmio_read16 :: "LONG \<Rightarrow> 'a machine_scheme \<Rightarrow> WORD \<times> 'a machine_scheme" where
  "e1000_mmio_read16 addr s = (case io_read (Mmio16 addr) 0xFFFF s of (v, s) \<Rightarrow> (ucast v, s))"

definition e1000_mmio_read32 :: "LONG \<Rightarrow> 'a machine_scheme \<Rightarrow> LONG \<times> 'a machine_scheme" where
  "e1000_mmio_read32 addr s = io_read (Mmio32 addr) (- 1) s"

definition e1000_mmio_read64 :: "LONG \<Rightarrow> 'a machine_scheme \<Rightarrow> QUAD \<times> 'a machine_scheme" where
  "e1000_mmio_read64 addr s =
     (let (lo, s) = e1000_mmio_read32 addr s; (hi, s) = e1000_mmio_read32 (addr + 4) s
      in (push_bit 32 (ucast hi) OR ucast lo, s))"

definition e1000_mmio_write8 :: "LONG \<Rightarrow> BYTE \<Rightarrow> 'a machine_scheme \<Rightarrow> 'a machine_scheme" where
  "e1000_mmio_write8 addr val s = io_write (Mmio8 addr) (ucast val) s"

definition e1000_mmio_write16 :: "LONG \<Rightarrow> WORD \<Rightarrow> 'a machine_scheme \<Rightarrow> 'a machine_scheme" where
  "e1000_mmio_write16 addr val s = io_write (Mmio16 addr) (ucast val) s"

definition e1000_mmio_write32 :: "LONG \<Rightarrow> LONG \<Rightarrow> 'a machine_scheme \<Rightarrow> 'a machine_scheme" where
  "e1000_mmio_write32 addr val s = io_write (Mmio32 addr) val s"

definition e1000_mmio_write64 :: "LONG \<Rightarrow> QUAD \<Rightarrow> 'a machine_scheme \<Rightarrow> 'a machine_scheme" where
  "e1000_mmio_write64 addr val s =
     e1000_mmio_write32 (addr + 4) (ucast (drop_bit 32 val)) (e1000_mmio_write32 addr (ucast val) s)"

definition e1000_writecmd :: "nat \<Rightarrow> WORD \<Rightarrow> LONG \<Rightarrow> 'a e1000_scheme \<Rightarrow> 'a e1000_scheme option" where
  "e1000_writecmd dev addr val s = do {
     p \<leftarrow> e1000_priv_of dev s;
     if bar_type p = 0 then Some (e1000_mmio_write32 (ep_memory p + ucast addr) val s)
     else do {
       let s = outl (ucast (ep_iobase p)) (ucast addr) s;
       let s = outl (ucast (ep_iobase p + 4)) val s;
       Some s
     }
   }"

definition e1000_readcmd :: "nat \<Rightarrow> WORD \<Rightarrow> 'a e1000_scheme \<Rightarrow> (LONG \<times> 'a e1000_scheme) option" where
  "e1000_readcmd dev addr s = do {
     p \<leftarrow> e1000_priv_of dev s;
     if bar_type p = 0 then Some (e1000_mmio_read32 (ep_memory p + ucast addr) s)
     else do {
       let s = outl (ucast (ep_iobase p)) (ucast addr) s;
       Some (inl (ucast (ep_iobase p + 4)) s)
     }
   }"

section \<open>The EEPROM and the address\<close>

fun eeprom_loop :: "nat \<Rightarrow> nat \<Rightarrow> 'a e1000_scheme \<Rightarrow> 'a e1000_scheme option" where
  "eeprom_loop 0 dev s = Some s"
| "eeprom_loop (Suc n) dev s = do {
     p \<leftarrow> e1000_priv_of dev s;
     if eeprom_exists p \<noteq> 0 then Some s
     else do {
       (val, s) \<leftarrow> e1000_readcmd dev REG_EEPROM s;
       s \<leftarrow> upd_priv dev (\<lambda>p. p\<lparr>eeprom_exists := (if val AND 0x10 \<noteq> 0 then 1 else 0)\<rparr>) s;
       eeprom_loop n dev s
     }
   }"

definition e1000_detect_eeprom :: "nat \<Rightarrow> 'a e1000_scheme \<Rightarrow> (LONG \<times> 'a e1000_scheme) option" where
  "e1000_detect_eeprom dev s = do {
     s \<leftarrow> e1000_writecmd dev REG_EEPROM 1 s;
     s \<leftarrow> eeprom_loop 1000 dev s;
     p \<leftarrow> e1000_priv_of dev s;
     Some (eeprom_exists p, s)
   }"

partial_function (option) eeprom_poll :: "nat \<Rightarrow> LONG \<Rightarrow> 'a e1000_scheme \<Rightarrow> (LONG \<times> 'a e1000_scheme) option" where
  "eeprom_poll dev m s = do {
     (tmp, s) \<leftarrow> e1000_readcmd dev REG_EEPROM s;
     if tmp AND m = 0 then eeprom_poll dev m s else Some (tmp, s)
   }"

definition e1000_eeprom_read :: "nat \<Rightarrow> BYTE \<Rightarrow> 'a e1000_scheme \<Rightarrow> (LONG \<times> 'a e1000_scheme) option" where
  "e1000_eeprom_read dev addr s = do {
     p \<leftarrow> e1000_priv_of dev s;
     (tmp, s) \<leftarrow> (if eeprom_exists p \<noteq> 0 then do {
         s \<leftarrow> e1000_writecmd dev REG_EEPROM (1 OR push_bit 8 (ucast addr)) s;
         eeprom_poll dev (push_bit 4 1) s
       }
       else do {
         s \<leftarrow> e1000_writecmd dev REG_EEPROM (1 OR push_bit 2 (ucast addr)) s;
         eeprom_poll dev (push_bit 1 1) s
       });
     let data = (ucast (drop_bit 16 tmp AND 0xFFFF) :: WORD);
     Some (ucast data, s)
   }"

text \<open>One word of the address from the EEPROM, its low byte first.\<close>

definition mac_word :: "nat \<Rightarrow> nat \<Rightarrow> 'a e1000_scheme \<Rightarrow> 'a e1000_scheme option" where
  "mac_word dev i s = do {
     (tmp, s) \<leftarrow> e1000_eeprom_read dev (of_nat i) s;
     upd_ethdev dev (\<lambda>d. d\<lparr>eth_addr := (eth_addr d)[2 * i := ucast (tmp AND 0xff), 2 * i + 1 := ucast (drop_bit 8 tmp)]\<rparr>) s
   }"

definition mac_byte :: "nat \<Rightarrow> LONG \<Rightarrow> nat \<Rightarrow> 'a e1000_scheme \<Rightarrow> 'a e1000_scheme option" where
  "mac_byte dev base i s = do {
     let (b, s) = e1000_mmio_read8 (base + of_nat i) s;
     upd_ethdev dev (\<lambda>d. d\<lparr>eth_addr := (eth_addr d)[i := b]\<rparr>) s
   }"

definition e1000_read_mac :: "nat \<Rightarrow> 'a e1000_scheme \<Rightarrow> (LONG \<times> 'a e1000_scheme) option" where
  "e1000_read_mac dev s = do {
     p \<leftarrow> e1000_priv_of dev s;
     if eeprom_exists p \<noteq> 0 then do {
       s \<leftarrow> for_each (mac_word dev) [0..<3] s;
       Some (1, s)
     }
     else do {
       let base = ep_memory p + 0x5400;
       let (v, s) = e1000_mmio_read32 base s;
       if v \<noteq> 0 then do {
         s \<leftarrow> for_each (mac_byte dev base) [0..<6] s;
         Some (1, s)
       }
       else Some (0, s)
     }
   }"

definition e1000_enable_int_old :: "nat \<Rightarrow> 'a e1000_scheme \<Rightarrow> 'a e1000_scheme option" where
  "e1000_enable_int_old dev s = do {
     s \<leftarrow> e1000_writecmd dev REG_IMASK 0x1f6dc s;
     s \<leftarrow> e1000_writecmd dev REG_IMASK (0xff AND NOT 4) s;
     (v, s) \<leftarrow> e1000_readcmd dev 0xc0 s;
     Some s
   }"

definition e1000_enable_int :: "nat \<Rightarrow> 'a e1000_scheme \<Rightarrow> 'a e1000_scheme option" where
  "e1000_enable_int dev s = do {
     s \<leftarrow> e1000_writecmd dev REG_IMASK 0x1f6dc s;
     (v, s) \<leftarrow> e1000_readcmd dev 0xc0 s;
     Some s
   }"

section \<open>The rings\<close>

definition rx_desc_init :: "nat \<Rightarrow> LONG \<Rightarrow> nat \<Rightarrow> 'a e1000_scheme \<Rightarrow> 'a e1000_scheme option" where
  "rx_desc_init dev ptr i s = do {
     let a = ptr + of_nat i * 16;
     s \<leftarrow> upd_priv dev (\<lambda>p. p\<lparr>rx_descs := (rx_descs p)[i := a]\<rparr>) s;
     let (b, s) = malloc (8192 + 16) s;
     let s = e1000_mmio_write64 a (ucast b) s;
     Some (e1000_mmio_write8 (a + rx_status) 0 s)
   }"

definition e1000_rxinit :: "nat \<Rightarrow> 'a e1000_scheme \<Rightarrow> 'a e1000_scheme option" where
  "e1000_rxinit dev s = do {
     let (ptr, s) = malloc (16 * of_nat E1000_NUM_RX_DESC + 16) s;
     s \<leftarrow> puts (str ''[e1000] rx buffer'' @ [10]) s;
     s \<leftarrow> for_each (rx_desc_init dev ptr) [0..<E1000_NUM_RX_DESC] s;
     s \<leftarrow> e1000_writecmd dev REG_TXDESCLO ptr s;
     s \<leftarrow> e1000_writecmd dev REG_TXDESCHI 0 s;
     s \<leftarrow> e1000_writecmd dev REG_RXDESCLO ptr s;
     s \<leftarrow> e1000_writecmd dev REG_RXDESCHI 0 s;
     s \<leftarrow> e1000_writecmd dev REG_RXDESCLEN (of_nat E1000_NUM_RX_DESC * 16) s;
     s \<leftarrow> e1000_writecmd dev REG_RXDESCHEAD 0 s;
     s \<leftarrow> e1000_writecmd dev REG_RXDESCTAIL (of_nat E1000_NUM_RX_DESC - 1) s;
     s \<leftarrow> upd_priv dev (\<lambda>p. p\<lparr>rx_cur := 0\<rparr>) s;
     e1000_writecmd dev REG_RCTRL (RCTL_EN OR RCTL_SBP OR RCTL_UPE OR RCTL_MPE OR RCTL_LBM_NONE OR
       RTCL_RDMTS_HALF OR RCTL_SECRC OR RCTL_BSIZE_8192 OR RCTL_BSEX) s
   }"

definition tx_desc_init :: "nat \<Rightarrow> LONG \<Rightarrow> nat \<Rightarrow> 'a e1000_scheme \<Rightarrow> 'a e1000_scheme option" where
  "tx_desc_init dev ptr i s = do {
     let a = ptr + of_nat i * 16;
     s \<leftarrow> upd_priv dev (\<lambda>p. p\<lparr>tx_descs := (tx_descs p)[i := a]\<rparr>) s;
     let s = e1000_mmio_write64 a 0 s;
     let s = e1000_mmio_write8 (a + tx_cmd) 0 s;
     Some (e1000_mmio_write8 (a + tx_status) TSTA_DD s)
   }"

definition e1000_txinit :: "nat \<Rightarrow> 'a e1000_scheme \<Rightarrow> 'a e1000_scheme option" where
  "e1000_txinit dev s = do {
     let (ptr, s) = malloc (16 * of_nat E1000_NUM_TX_DESC + 16) s;
     s \<leftarrow> puts (str ''[e1000] tx buffer'' @ [10]) s;
     s \<leftarrow> for_each (tx_desc_init dev ptr) [0..<E1000_NUM_TX_DESC] s;
     s \<leftarrow> e1000_writecmd dev REG_TXDESCHI 0 s;
     s \<leftarrow> e1000_writecmd dev REG_TXDESCLO ptr s;
     s \<leftarrow> e1000_writecmd dev REG_TXDESCLEN (of_nat E1000_NUM_TX_DESC * 16) s;
     s \<leftarrow> e1000_writecmd dev REG_TXDESCHEAD 0 s;
     s \<leftarrow> e1000_writecmd dev REG_TXDESCTAIL 0 s;
     s \<leftarrow> upd_priv dev (\<lambda>p. p\<lparr>tx_cur := 0\<rparr>) s;
     s \<leftarrow> e1000_writecmd dev REG_TCTRL (TCTL_EN OR TCTL_PSP OR push_bit 4 15 OR push_bit 12 64 OR TCTL_RTLC) s;
     s \<leftarrow> e1000_writecmd dev REG_TCTRL 0x3003f0fa s;
     e1000_writecmd dev REG_TIPG 0x60200a s
   }"

section \<open>Frames\<close>

text \<open>Waiting for a frame to be sent: at most a hundred sleeps; the result says whether it was sent.\<close>

fun tx_wait :: "('a e1000_scheme \<Rightarrow> 'a e1000_scheme option) \<Rightarrow> LONG \<Rightarrow> nat \<Rightarrow> 'a e1000_scheme \<Rightarrow>
    (bool \<times> 'a e1000_scheme) option" where
  "tx_wait irqs a 0 s = Some (False, s)"
| "tx_wait irqs a (Suc timeout) s = do {
     let (v, s) = e1000_mmio_read8 (a + tx_status) s;
     if v AND 0xff \<noteq> 0 then Some (True, s)
     else do {
       s \<leftarrow> sleep irqs 1 s;
       tx_wait irqs a timeout s
     }
   }"

definition e1000_write :: "('a e1000_scheme \<Rightarrow> 'a e1000_scheme option) \<Rightarrow> LONG \<Rightarrow> LONG \<Rightarrow> nat \<Rightarrow> 'a e1000_scheme \<Rightarrow>
    (LONG \<times> 'a e1000_scheme) option" where
  "e1000_write irqs buf len dev s = do {
     p \<leftarrow> e1000_priv_of dev s;
     a \<leftarrow> at (tx_descs p) (unat (tx_cur p));
     let s = e1000_mmio_write64 a (ucast buf) s;
     let s = e1000_mmio_write16 (a + tx_length) (ucast (14 + len + 4)) s;
     let s = e1000_mmio_write8 (a + tx_cmd) (CMD_EOP OR CMD_IFCS OR CMD_RS OR CMD_RPS OR 2) s;
     let s = e1000_mmio_write8 (a + tx_status) 0 s;
     let new_cur = (tx_cur p + 1) mod of_nat E1000_NUM_TX_DESC;
     s \<leftarrow> upd_priv dev (\<lambda>p. p\<lparr>tx_cur := new_cur\<rparr>) s;
     s \<leftarrow> e1000_writecmd dev REG_TXDESCTAIL new_cur s;
     (sent, s) \<leftarrow> tx_wait irqs a 100 s;
     Some (if sent then len else 0, s)
   }"

definition e1000_receive :: "nat \<Rightarrow> 'a e1000_scheme \<Rightarrow> 'a e1000_scheme option" where
  "e1000_receive dev = spin (\<lambda>s. do {
     p \<leftarrow> e1000_priv_of dev s;
     a \<leftarrow> at (rx_descs p) (unat (rx_cur p));
     let (v, s) = e1000_mmio_read8 (a + rx_status) s;
     if v AND 1 \<noteq> 0 then do {
       s \<leftarrow> puts (str ''[e1000] packet received'' @ [10]) s;
       let s = e1000_mmio_write8 (a + rx_status) 0 s;
       let old_cur = (ucast (rx_cur p) :: WORD);
       s \<leftarrow> upd_priv dev (\<lambda>p. p\<lparr>rx_cur := (rx_cur p + 1) mod of_nat E1000_NUM_RX_DESC\<rparr>) s;
       s \<leftarrow> e1000_writecmd dev REG_RXDESCTAIL (ucast old_cur) s;
       Some (True, s)
     }
     else Some (False, s)
   })"

section \<open>Status\<close>

definition e1000_check_link :: "nat \<Rightarrow> 'a e1000_scheme \<Rightarrow> (LONG \<times> 'a e1000_scheme) option" where
  "e1000_check_link dev s = do {
     (v, s) \<leftarrow> e1000_readcmd dev REG_STATUS s;
     s \<leftarrow> upd_ethdev dev (\<lambda>d. d\<lparr>link_status := v AND 2\<rparr>) s;
     Some (v AND 2, s)
   }"

definition e1000_is_broadcast :: "nat \<Rightarrow> 'a e1000_scheme \<Rightarrow> (LONG \<times> 'a e1000_scheme) option" where
  "e1000_is_broadcast dev s = do { (v, s) \<leftarrow> e1000_readcmd dev REG_RCTRL s; Some (v AND RCTL_BAM, s) }"

definition e1000_is_multicast :: "nat \<Rightarrow> 'a e1000_scheme \<Rightarrow> (LONG \<times> 'a e1000_scheme) option" where
  "e1000_is_multicast dev s = do { (v, s) \<leftarrow> e1000_readcmd dev REG_RCTRL s; Some (v AND RCTL_MPE, s) }"

definition e1000_is_promisc :: "nat \<Rightarrow> 'a e1000_scheme \<Rightarrow> (LONG \<times> 'a e1000_scheme) option" where
  "e1000_is_promisc dev s = do { (v, s) \<leftarrow> e1000_readcmd dev REG_RCTRL s; Some (v AND RCTL_UPE, s) }"

definition e1000_reset :: "('a e1000_scheme \<Rightarrow> 'a e1000_scheme option) \<Rightarrow> nat \<Rightarrow> 'a e1000_scheme \<Rightarrow>
    'a e1000_scheme option" where
  "e1000_reset irqs dev s = do {
     s \<leftarrow> e1000_writecmd dev REG_IMASK 0xffffffff s;
     s \<leftarrow> e1000_writecmd dev REG_RCTRL 0 s;
     s \<leftarrow> e1000_writecmd dev REG_TCTRL TCTL_PSP s;
     (v, s) \<leftarrow> e1000_readcmd dev REG_STATUS s;
     s \<leftarrow> sleep irqs 10 s;
     (ctl, s) \<leftarrow> e1000_readcmd dev REG_CTRL s;
     s \<leftarrow> e1000_writecmd dev REG_CTRL (ctl OR ECTRL_RST) s;
     s \<leftarrow> sleep irqs 5 s;
     s \<leftarrow> e1000_writecmd dev REG_IMASK 0xffffffff s;
     (v, s) \<leftarrow> e1000_readcmd dev CMD_ICR s;
     Some s
   }"

text \<open>The loop of dots counts a signed integer up to the status as an unsigned one.\<close>

definition e1000_handler :: "nat \<Rightarrow> 'a e1000_scheme \<Rightarrow> 'a e1000_scheme option" where
  "e1000_handler dev s = do {
     (status, s) \<leftarrow> e1000_readcmd dev CMD_ICR s;
     s \<leftarrow> puts (str ''[e1000] ICR: '') s;
     s \<leftarrow> putn16 status s;
     s \<leftarrow> put 10 s;
     if status = 0 then Some s
     else if status AND 0x80 \<noteq> 0 then e1000_receive dev s
     else if status AND 0x04 \<noteq> 0 then do {
       s \<leftarrow> puts (str ''[e1000] link state changed: '') s;
       (v, s) \<leftarrow> e1000_check_link dev s;
       puts (if v \<noteq> 0 then str ''up'' @ [10] else str ''down'' @ [10]) s
     }
     else do {
       s \<leftarrow> puts (str ''[e1000] irq and don'' @ [39] @ str ''t know what to do: '') s;
       s \<leftarrow> put_all (replicate (unat status) 46) s;
       puts [10] s
     }
   }"

section \<open>Initialisation\<close>

text \<open>What the two initialisation functions start with: a device with a cleared private structure.\<close>

definition e1000_new_priv :: "nat \<Rightarrow> 'a e1000_scheme \<Rightarrow> 'a e1000_scheme option" where
  "e1000_new_priv dev s = do {
     s \<leftarrow> upd_ethdev dev (\<lambda>d. d\<lparr>eth_allocated := 1\<rparr>) s;
     let (a, s) = malloc sizeof_e1000_priv s;
     s \<leftarrow> upd_ethdev dev (\<lambda>d. d\<lparr>eth_priv := a\<rparr>) s;
     Some (s\<lparr>e1000_privs := (e1000_privs s)(a \<mapsto> e1000_priv_zero)\<rparr>)
   }"

definition e1000_read_bar :: "LONG \<Rightarrow> LONG \<Rightarrow> LONG \<Rightarrow> nat \<Rightarrow> 'a e1000_scheme \<Rightarrow> 'a e1000_scheme option" where
  "e1000_read_bar bus device function dev s = do {
     s \<leftarrow> upd_priv dev (\<lambda>p. p\<lparr>ep_bus := bus, ep_device := device, ep_function := function\<rparr>) s;
     let (bar0, s) = pci_cfg_read_bar bus device function 0 s;
     upd_priv dev (\<lambda>p. p\<lparr>bar_type := bar0 AND 1, ep_memory := bar0 AND 0xFFFFFFF0, ep_iobase := bar0 AND 0xFFFFFFFC\<rparr>) s
   }"

text \<open>The way out when the address cannot be read.\<close>

definition e1000_no_mac :: "nat \<Rightarrow> 'a e1000_scheme \<Rightarrow> (LONG \<times> 'a e1000_scheme) option" where
  "e1000_no_mac dev s = do {
     s \<leftarrow> puts (str ''[e1000] cannot read MAC addr'' @ [10]) s;
     d \<leftarrow> at (eth_ifs s) dev;
     let s = free (eth_priv d) s;
     Some (1, ethernet_free dev s)
   }"

text \<open>The end of the initialisation, from reading the address on.\<close>

definition e1000_finish :: "nat \<Rightarrow> 'a e1000_scheme \<Rightarrow> (LONG \<times> 'a e1000_scheme) option" where
  "e1000_finish dev s = do {
     (ok, s) \<leftarrow> e1000_read_mac dev s;
     if ok = 0 then e1000_no_mac dev s
     else do {
       s \<leftarrow> puts (str ''mac'' @ [10]) s;
       (v, s) \<leftarrow> e1000_readcmd dev REG_CTRL s;
       s \<leftarrow> e1000_writecmd dev REG_CTRL (v OR ECTRL_SLU) s;
       s \<leftarrow> puts (str ''link'' @ [10]) s;
       s \<leftarrow> e1000_enable_int dev s;
       s \<leftarrow> puts (str ''int en'' @ [10]) s;
       Some (0, s)
     }
   }"

definition e1000_init :: "LONG \<Rightarrow> LONG \<Rightarrow> LONG \<Rightarrow> 'a e1000_scheme \<Rightarrow> (LONG \<times> 'a e1000_scheme) option" where
  "e1000_init bus device function s =
     (case ethernet_allocate s of
        (None, s) \<Rightarrow> do {
          s \<leftarrow> puts (str ''[e1000] cannot allocate ethdev'' @ [10]) s;
          Some (1, s)
        }
      | (Some dev, s) \<Rightarrow> do {
          s \<leftarrow> e1000_new_priv dev s;
          s \<leftarrow> puts (str ''alloc'' @ [10]) s;
          s \<leftarrow> e1000_read_bar bus device function dev s;
          s \<leftarrow> puts (str ''addr'' @ [10]) s;
          let s = pci_cfg_writeb (ucast bus) (ucast device) (ucast function) PCI_CFG_INT IRQ10 s;
          (r, s) \<leftarrow> pci_int_request bus device function (ethdev_ptr dev s) e1000_handler_ptr s;
          s \<leftarrow> puts (str ''int reg'' @ [10]) s;
          e1000_finish dev s
        })"

text \<open>The addresses of the driver functions, which the older initialisation stores in the device.\<close>

record e1000_syms =
  e1000_write_at :: LONG
  e1000_check_link_at :: LONG
  e1000_is_broadcast_at :: LONG
  e1000_is_multicast_at :: LONG
  e1000_is_promisc_at :: LONG

definition e1000_controls :: "nat \<Rightarrow> 'a e1000_scheme \<Rightarrow> 'a e1000_scheme option" where
  "e1000_controls dev s = do {
     (tctl, s) \<leftarrow> e1000_readcmd dev REG_TCTRL s;
     let tctl = tctl AND NOT (push_bit 4 0xff OR push_bit 12 0x3ff);
     let tctl = tctl OR (TCTL_EN OR TCTL_PSP OR push_bit 4 0x0f OR push_bit 12 0x40);
     s \<leftarrow> e1000_writecmd dev REG_TCTRL tctl s;
     (rctl, s) \<leftarrow> e1000_readcmd dev REG_RCTRL s;
     let rctl = (RCTL_EN OR RCTL_BAM OR RCTL_BSIZE_8192 OR RCTL_SECRC);
     s \<leftarrow> e1000_writecmd dev REG_RCTRL rctl s;
     e1000_writecmd dev REG_CTRL (ECTRL_SLU OR ECTRL_ASDE) s
   }"

definition e1000_start_old :: "e1000_syms \<Rightarrow> LONG \<Rightarrow> LONG \<Rightarrow> LONG \<Rightarrow> nat \<Rightarrow> 'a e1000_scheme \<Rightarrow>
    (LONG \<times> 'a e1000_scheme) option" where
  "e1000_start_old A bus device function dev s = do {
     s \<leftarrow> for_each (\<lambda>i. e1000_writecmd dev (0x5200 + of_nat i * 4) 0) [0..<0x80] s;
     let s = pci_cfg_writeb (ucast bus) (ucast device) (ucast function) PCI_CFG_INT IRQ10 s;
     (r, s) \<leftarrow> pci_int_request bus device function (ethdev_ptr dev s) e1000_handler_ptr s;
     s \<leftarrow> e1000_enable_int dev s;
     s \<leftarrow> e1000_rxinit dev s;
     s \<leftarrow> e1000_txinit dev s;
     s \<leftarrow> e1000_controls dev s;
     s \<leftarrow> upd_ethdev dev (\<lambda>d. d\<lparr>eth_write := e1000_write_at A, is_up := e1000_check_link_at A,
            is_broadcast := e1000_is_broadcast_at A, is_multicast := e1000_is_multicast_at A,
            is_promisc := e1000_is_promisc_at A\<rparr>) s;
     Some (0, s)
   }"

definition e1000_init_old :: "e1000_syms \<Rightarrow> LONG \<Rightarrow> LONG \<Rightarrow> LONG \<Rightarrow> 'a e1000_scheme \<Rightarrow>
    (LONG \<times> 'a e1000_scheme) option" where
  "e1000_init_old A bus device function s = do {
     s \<leftarrow> puts (str ''[e1000] Initialization'' @ [10]) s;
     (case ethernet_allocate s of
        (None, s) \<Rightarrow> do {
          s \<leftarrow> puts (str ''[e1000] cannot allocate ethdev'' @ [10]) s;
          Some (1, s)
        }
      | (Some dev, s) \<Rightarrow> do {
          s \<leftarrow> e1000_new_priv dev s;
          s \<leftarrow> e1000_read_bar bus device function dev s;
          s \<leftarrow> upd_priv dev (\<lambda>p. p\<lparr>eeprom_exists := 0\<rparr>) s;
          s \<leftarrow> puts (str ''[e1000] enabling busmastering'' @ [10]) s;
          let (cmd, s) = pci_cfg_readw (ucast bus) (ucast device) (ucast function) 4 s;
          let s = pci_cfg_writew (ucast bus) (ucast device) (ucast function) 4 (cmd OR push_bit 2 1) s;
          s \<leftarrow> puts (str ''[e1000] detecting eeprom: '') s;
          (v, s) \<leftarrow> e1000_detect_eeprom dev s;
          s \<leftarrow> puts (if v \<noteq> 0 then str ''yes'' @ [10] else str ''no'' @ [10]) s;
          s \<leftarrow> puts (str ''[e1000] fetching MAC address'' @ [10]) s;
          (ok, s) \<leftarrow> e1000_read_mac dev s;
          if ok = 0 then e1000_no_mac dev s
          else e1000_start_old A bus device function dev s
        })
   }"

section \<open>What an access changes\<close>

lemma mmio_eq [frames]:
  "e1000_mmio_read8 a s = (ucast (hw s (io_log s) (Mmio8 a)), s\<lparr>io_log := Rd (Mmio8 a) (hw s (io_log s) (Mmio8 a) AND 0xFF) # io_log s\<rparr>)"
  "e1000_mmio_read32 a s = (hw s (io_log s) (Mmio32 a), s\<lparr>io_log := Rd (Mmio32 a) (hw s (io_log s) (Mmio32 a)) # io_log s\<rparr>)"
  "e1000_mmio_write8 a b s = s\<lparr>io_log := Wr (Mmio8 a) (ucast b) # io_log s\<rparr>"
  "e1000_mmio_write16 a w s = s\<lparr>io_log := Wr (Mmio16 a) (ucast w) # io_log s\<rparr>"
  "e1000_mmio_write32 a v s = s\<lparr>io_log := Wr (Mmio32 a) v # io_log s\<rparr>"
  by (simp_all add: e1000_mmio_read8_def e1000_mmio_read32_def e1000_mmio_write8_def e1000_mmio_write16_def
      e1000_mmio_write32_def io_read_def io_write_def Let_def)

lemma mmio_write64_eq [frames]:
  "e1000_mmio_write64 a q s = s\<lparr>io_log := Wr (Mmio32 (a + 4)) (ucast (drop_bit 32 q)) # Wr (Mmio32 a) (ucast q) # io_log s\<rparr>"
  by (simp add: e1000_mmio_write64_def mmio_eq)

text \<open>An access to a register of a device that exists returns and adds to the log.\<close>

lemma e1000_priv_of_log [simp]: "e1000_priv_of dev (s\<lparr>io_log := l\<rparr>) = e1000_priv_of dev s"
  by (simp add: e1000_priv_of_def)

lemma e1000_writecmd_log:
  "e1000_priv_of dev s = Some p \<Longrightarrow> \<exists>l. e1000_writecmd dev r v s = Some (s\<lparr>io_log := l @ io_log s\<rparr>)"
  by (cases "bar_type p = 0")
    (auto simp: e1000_writecmd_def frames Let_def intro: exI [of _ "[_]"] exI [of _ "[_, _]"])

lemma e1000_readcmd_log:
  "e1000_priv_of dev s = Some p \<Longrightarrow> \<exists>v l. e1000_readcmd dev r s = Some (v, s\<lparr>io_log := l @ io_log s\<rparr>)"
  by (cases "bar_type p = 0")
    (auto simp: e1000_readcmd_def frames Let_def intro: exI [of _ "[_]"] exI [of _ "[_, _]"])

lemma upd_priv_eq:
  assumes "e1000_priv_of dev s = Some p"
  shows "\<exists>t. upd_priv dev f s = Some t \<and> e1000_priv_of dev t = Some (f p) \<and>
    t = s\<lparr>e1000_privs := e1000_privs t\<rparr>"
  using assms by (auto simp: e1000_priv_of_def upd_priv_def bind_eq_Some_conv)

section \<open>Sending\<close>

text \<open>While the driver sleeps, the timer leaves the devices alone.\<close>

lemma timer_irq_frame:
  assumes "timer_irq s = Some t" and "timer_on s"
  shows "\<exists>a b c l. t = s\<lparr>ticks := a, ticks2 := b, seconds := c, io_log := l\<rparr>"
proof -
  have len: "unat (int_no (regs_int 32)) < length (int_handlers s)" and n: "unat (int_no (regs_int 32)) = 32"
    using assms(2) by (simp_all add: timer_on_def kernel_ok_def int_ok_def regs_int_def)
  have "t = s\<lparr>ticks := ticks t, ticks2 := ticks2 t, seconds := seconds t, io_log := io_log t\<rparr>"
    using assms unfolding timer_irq_def irq_handler_eq [OF len] n
    by (auto simp: timer_on_def timer_handler_def Let_def split: if_splits)
  then show ?thesis by blast
qed

text \<open>An access that the processor makes to read.\<close>

definition is_read :: "io_event \<Rightarrow> bool" where
  "is_read e = (case e of Rd r v \<Rightarrow> True | Wr r v \<Rightarrow> False)"

lemma is_read_simps [simp]: "is_read (Rd r v)" "\<not> is_read (Wr r v)"
  by (simp_all add: is_read_def)

lemma timer_irq_log:
  assumes "timer_irq s = Some t" and "timer_on s"
  shows "io_log t = rev (eoi 32) @ io_log s"
proof -
  have len: "unat (int_no (regs_int 32)) < length (int_handlers s)" and n: "unat (int_no (regs_int 32)) = 32"
    using assms(2) by (simp_all add: timer_on_def kernel_ok_def int_ok_def regs_int_def)
  show ?thesis
    using assms unfolding timer_irq_def irq_handler_eq [OF len] n
    by (auto simp: timer_on_def timer_handler_def regs_int_def Let_def split: if_splits)
qed

lemma eoi_no_read: "e \<in> set (eoi n) \<Longrightarrow> \<not> is_read e"
  by (auto simp: eoi_def split: if_splits)

text \<open>Since the log was \<open>L\<close> the processor has read nothing.\<close>

definition nic_on :: "ethdev list \<Rightarrow> (LONG \<Rightarrow> e1000_priv option) \<Rightarrow> (io_event list \<Rightarrow> io_req \<Rightarrow> LONG) \<Rightarrow>
    io_event list \<Rightarrow> 'a e1000_scheme \<Rightarrow> bool" where
  "nic_on E P H L s \<longleftrightarrow> timer_on s \<and> eth_ifs s = E \<and> e1000_privs s = P \<and> hw s = H \<and>
     (\<exists>l. io_log s = l @ L \<and> filter is_read l = [])"

interpretation nic: clock timer_irq "nic_on E P H L" for E P H L
proof
  fix s :: "'a e1000_scheme"
  assume s: "nic_on E P H L s"
  then obtain t where t: "timer_irq s = Some t" "timer_on t" "ticks2 t = ticks2 s + 1"
    using pit.tick [of s] by (auto simp: nic_on_def)
  obtain a b c l where "t = s\<lparr>ticks := a, ticks2 := b, seconds := c, io_log := l\<rparr>"
    using timer_irq_frame [OF t(1)] s by (auto simp: nic_on_def)
  then have "eth_ifs t = eth_ifs s" "e1000_privs t = e1000_privs s" "hw t = hw s" by simp_all
  moreover obtain k where "io_log s = k @ L" "filter is_read k = []" using s by (auto simp: nic_on_def)
  then have "io_log t = (rev (eoi 32) @ k) @ L \<and> filter is_read (rev (eoi 32) @ k) = []"
    using timer_irq_log [OF t(1)] s eoi_no_read by (auto simp: nic_on_def filter_empty_conv)
  ultimately show "\<exists>t. timer_irq s = Some t \<and> nic_on E P H L t \<and> ticks2 t = ticks2 s + 1"
    using t s unfolding nic_on_def by blast
qed

text \<open>
  The loop that waits: what it reads in its rounds, in the order of the log, what it returns and
  how long that takes.
\<close>

lemma tx_wait_returns:
  assumes "timer_on s"
  shows "\<exists>sent t L. tx_wait timer_irq a n s = Some (sent, t) \<and> timer_on t \<and> eth_ifs t = eth_ifs s \<and>
    e1000_privs t = e1000_privs s \<and> hw t = hw s \<and> io_log t = L @ io_log s \<and>
    sent = (\<exists>v. v \<noteq> 0 \<and> Rd (Mmio8 (a + tx_status)) v \<in> set L) \<and>
    length (filter is_read L) \<le> n \<and> (\<not> sent \<longrightarrow> length (filter is_read L) = n) \<and>
    (sent \<longrightarrow> 0 < length (filter is_read L)) \<and>
    (ticks2 s \<noteq> 0 \<longrightarrow> unat (ticks2 s) + n < 2 ^ 32 \<longrightarrow>
       ticks2 t = ticks2 s + of_nat (length (filter is_read L) - (if sent then 1 else 0))) \<and>
    ((\<forall>l. (ucast (hw s l (Mmio8 (a + tx_status))) :: BYTE) = 0) \<longrightarrow> \<not> sent) \<and>
    (0 < n \<longrightarrow> (\<forall>l. (ucast (hw s l (Mmio8 (a + tx_status))) :: BYTE) \<noteq> 0) \<longrightarrow> sent \<and> ticks2 t = ticks2 s)"
  (is "\<exists>sent t L. ?post n s sent t L")
  using assms
proof (induction n arbitrary: s)
  case 0
  then show ?case by (intro exI [of _ False] exI [of _ s] exI [of _ "[]"]) simp
next
  case (Suc n)
  let ?x = "hw s (io_log s) (Mmio8 (a + tx_status))"
  let ?v = "ucast ?x :: BYTE" and ?e = "Rd (Mmio8 (a + tx_status)) (?x AND 0xFF)"
  let ?u = "s\<lparr>io_log := ?e # io_log s\<rparr>"
  have ff: "?v AND 0xff = ?v" by (rule bit_word_eqI) (simp add: and_0xFF bit_simps)
  have xv: "?x AND 0xFF = 0 \<longleftrightarrow> ?v = 0" 
  proof -
    have "?x AND 0xFF = ucast ?v" by (rule bit_word_eqI) (auto simp: and_0xFF bit_simps)
    then show ?thesis by (simp add: unsigned_eq_0_iff)
  qed
  show ?case
  proof (cases "?v = 0")
    case True
    have u: "nic_on (eth_ifs s) (e1000_privs s) (hw s) (?e # io_log s) ?u" using Suc.prems by (simp add: nic_on_def timer_on_def)
    obtain w where w: "sleep timer_irq 1 ?u = Some w" "nic_on (eth_ifs s) (e1000_privs s) (hw s) (?e # io_log s) w"
        "ticks2 w = (if ticks2 s \<noteq> 0 \<and> ticks2 s < ticks2 s + 1 then ticks2 s + 1 else ticks2 s)"
      using nic.sleep_returns [OF u, of 1] by auto
    obtain k where k: "io_log w = k @ ?e # io_log s" "filter is_read k = []" and won: "timer_on w"
        "eth_ifs w = eth_ifs s" "e1000_privs w = e1000_privs s" "hw w = hw s"
      using w(2) by (auto simp: nic_on_def)
    obtain sent t L where t: "?post n w sent t L" using Suc.IH [OF won(1)] by (elim exE) (rule that)
    then have tL: "sent \<longrightarrow> 0 < length (filter is_read L)" "ticks2 w \<noteq> 0 \<longrightarrow> unat (ticks2 w) + n < 2 ^ 32 \<longrightarrow>
       ticks2 t = ticks2 w + of_nat (length (filter is_read L) - (if sent then 1 else 0))" by - (elim conjE, assumption)+
    have nr: "Rd r x \<notin> set k" for r x using k(2) by (auto simp: filter_empty_conv)
    have tk: "ticks2 w \<noteq> 0 \<and> unat (ticks2 w) + n < 2 ^ 32 \<and> ticks2 w = ticks2 s + 1"
      if "ticks2 s \<noteq> 0" "unat (ticks2 s) + Suc n < 2 ^ 32"
    proof -
      have "unat (ticks2 s + 1) = unat (ticks2 s) + 1" using that(2) by (simp add: unat_word_ariths)
      then show ?thesis using that w(3) by (auto simp: word_less_nat_alt)
    qed
    show ?thesis
    proof (rule exI [of _ sent], rule exI [of _ t], rule exI [of _ "L @ k @ [?e]"], intro conjI, goal_cases)
      case 11
      show ?case
      proof (intro impI)
        assume "ticks2 s \<noteq> 0" "unat (ticks2 s) + Suc n < 2 ^ 32"
        then have "ticks2 t = ticks2 s + 1 + of_nat (length (filter is_read L) - (if sent then 1 else 0))"
          using tk tL(2) by (metis (no_types, lifting))
        then show "ticks2 t = ticks2 s + of_nat (length (filter is_read (L @ k @ [?e])) - (if sent then 1 else 0))"
          using tL(1) k(2) by (cases sent) (simp_all add: of_nat_diff Suc_leI)
      qed
    qed (use t True won w(1) k nr xv in \<open>auto simp: mmio_eq Let_def\<close>)
  next
    case False
    then show ?thesis
      using Suc.prems ff xv
      by (intro exI [of _ True] exI [of _ ?u] exI [of _ "[?e]"]) (auto simp: mmio_eq Let_def timer_on_def)
  qed
qed

text \<open>The accesses that hand a descriptor over: its fields, then the register of the tail.\<close>

definition tx_handover :: "e1000_priv \<Rightarrow> LONG \<Rightarrow> LONG \<Rightarrow> io_event list" where
  "tx_handover p buf len =
     (let a = tx_descs p ! unat (tx_cur p); c = (tx_cur p + 1) mod 8
      in [Wr (Mmio32 a) buf, Wr (Mmio32 (a + 4)) 0, Wr (Mmio16 (a + 8)) (take_bit 16 (18 + len)),
          Wr (Mmio8 (a + 11)) 0x1B, Wr (Mmio8 (a + 12)) 0] @
         (if bar_type p = 0 then [Wr (Mmio32 (ep_memory p + 0x3818)) c]
          else [Wr (Port32 (ucast (ep_iobase p))) 0x3818, Wr (Port32 (ucast (ep_iobase p + 4))) c]))"

lemma tx_handover_words:
  "ucast (ucast (18 + len) :: WORD) = take_bit 16 (18 + len)"
  "ucast (drop_bit 32 (ucast buf :: QUAD)) = (0 :: LONG)" "ucast (ucast buf :: QUAD) = buf"
  "ucast (CMD_EOP OR CMD_IFCS OR CMD_RS OR CMD_RPS OR 2) = (0x1B :: LONG)" for buf len :: LONG
proof -
  show "ucast (ucast (18 + len) :: WORD) = take_bit 16 (18 + len)"
    by (rule bit_word_eqI) (auto simp: bit_simps)
  show "ucast (drop_bit 32 (ucast buf :: QUAD)) = (0 :: LONG)"
    by (rule bit_word_eqI) (auto simp: bit_simps dest: bit_imp_le_length)
qed (auto intro: bit_word_eqI simp: bit_simps CMD_EOP_def CMD_IFCS_def CMD_RS_def CMD_RPS_def)


definition e1000_0 :: e1000 where
  "e1000_0 = network.extend (net0\<lparr>hw := \<lambda>_ _. 0, eth_ifs := (replicate 16 ethdev_zero)[0 := ethdev_zero\<lparr>eth_allocated := 1, eth_priv := 0x1000\<rparr>],
       int_handlers := (replicate 256 None)[32 := Some timer_handler_ptr]\<rparr>)
     \<lparr>e1000_privs = [0x1000 \<mapsto> e1000_priv_zero\<lparr>tx_descs := map (\<lambda>i. 0x2000 + 16 * of_nat i) [0..<8], tx_cur := 7\<rparr>]\<rparr>"

lemma e1000_0_ok: "kernel_ok e1000_0" "int_handlers e1000_0 ! 32 = Some timer_handler_ptr" "hw e1000_0 = (\<lambda>_ _. 0)"
    "e1000_priv_of 0 e1000_0 = Some (e1000_priv_zero\<lparr>tx_descs := map (\<lambda>i. 0x2000 + 16 * of_nat i) [0..<8], tx_cur := 7\<rparr>)"
  by (simp_all add: e1000_0_def network.defs net0_def ethernet.defs eth0_def ide.defs ide0_def pci.defs
    pci0_def kbd.defs kbd0_def int0_def interrupts.defs kernel_ok_defs pci_int_entry_zero_def e1000_priv_of_def at_def
    del: upt_rec_numeral)


section \<open>Starting a device\<close>

text \<open>What the initialisation depends on and changes, apart from the console, the log and the allocator.\<close>

type_synonym nic_state = "(io_event list \<Rightarrow> io_req \<Rightarrow> LONG) \<times> ethdev list \<times> (LONG \<Rightarrow> e1000_priv option) \<times> pci_int_entry list \<times> LONG"

definition nicv :: "nic_state \<Rightarrow> 'a e1000_scheme \<Rightarrow> bool" where
  "nicv N s \<longleftrightarrow> tty_ready s \<and> N = (hw s, eth_ifs s, e1000_privs s, pci_int_entries s, eth_ifs_at s)"

lemma nicvD: "nicv (H, E, P, I, A) s \<Longrightarrow> eth_ifs s = E \<and> pci_int_entries s = I"
  by (simp add: nicv_def)

lemma nicv_tty: "tty_step s t \<Longrightarrow> nicv N s \<Longrightarrow> nicv N t"
  by (auto simp: nicv_def tty_step_def elim!: printedE)

lemma nicv_puts:
  assumes "nicv N s" and "\<And>t. nicv N t \<Longrightarrow> Q t"
  shows "returns (puts cs s) Q"
proof (rule puts_wp [OF tty_step_refl])
  show "tty_ready s" using assms(1) by (simp add: nicv_def)
  show "Q t" if "tty_step s t" for t using nicv_tty [OF that assms(1)] by (rule assms(2))
qed

lemma nicv_simps [simp]:
  "nicv N (s\<lparr>io_log := l\<rparr>) = nicv N s" "nicv N (s\<lparr>mmgmt_counter := c\<rparr>) = nicv N s"
  by (simp_all add: nicv_def tty_ready_def)

lemma nicv_ethdev:
  assumes "nicv (H, E, P, I, A) s" and "i < length E" and "\<And>t. nicv (H, E[i := f (E ! i)], P, I, A) t \<Longrightarrow> Q t"
  shows "returns (upd_ethdev i f s) Q"
  using assms by (simp add: upd_ethdev_def at_def nicv_def tty_ready_def)

lemma nicv_priv:
  assumes "nicv (H, E, P, I, A) s" and "i < length E" and "P (eth_priv (E ! i)) = Some p"
    and "\<And>t. nicv (H, E, P(eth_priv (E ! i) \<mapsto> f p), I, A) t \<Longrightarrow> Q t"
  shows "returns (upd_priv i f s) Q"
  using assms by (simp add: upd_priv_def at_def nicv_def tty_ready_def)

lemma nicv_priv_of: "nicv (H, E, P, I, A) s \<Longrightarrow> i < length E \<Longrightarrow> e1000_priv_of i s = P (eth_priv (E ! i))"
  by (simp add: e1000_priv_of_def at_def nicv_def)

lemma nicv_cmd:
  assumes "nicv (H, E, P, I, A) s" and "i < length E" and "P (eth_priv (E ! i)) = Some p"
  shows "(\<And>t. nicv (H, E, P, I, A) t \<Longrightarrow> Q t) \<Longrightarrow> returns (e1000_writecmd i r v s) Q"
    and "(\<And>v t. nicv (H, E, P, I, A) t \<Longrightarrow> Q' (v, t)) \<Longrightarrow> returns (e1000_readcmd i r s) Q'"
  using e1000_writecmd_log [of i s p r v] e1000_readcmd_log [of i s p r] assms
  by (auto simp: nicv_priv_of)

lemma nicv_request:
  assumes "nicv (H, E, P, I, A) s" and "first_free (\<lambda>ie. ie_dev ie = 0) I = Some k"
    and "\<And>r t. nicv (H, E, P, I[k := (I ! k)\<lparr>ie_bus := b, ie_device := d, ie_function := f, ie_dev := x,
      ie_handler := Some h\<rparr>], A) t \<Longrightarrow> Q (r, t)"
  shows "returns (pci_int_request b d f x h s) Q"
  using assms by (simp add: pci_int_request_def nicv_def tty_ready_def Let_def)

lemma malloc_nicv: "\<exists>a t. malloc n s = (a, t) \<and> nicv N t = nicv N s"
  by (auto simp: malloc_eq mmgmt_alloc_def malloc_def Let_def)

lemma mac_bytes_nicv:
  assumes "nicv (H, E, P, I, A) s" and "i < length E" and "length (eth_addr (E ! i)) = 6" and "n \<le> 6"
    and "\<And>l j. j < 6 \<Longrightarrow> ucast (H l (Mmio8 (base + of_nat j))) = (mac ! j :: BYTE)" and "length mac = 6"
  shows "returns (for_each (mac_byte i base) [0..<n] s)
    (nicv (H, E[i := (E ! i)\<lparr>eth_addr := take n mac @ drop n (eth_addr (E ! i))\<rparr>], P, I, A))"
  using assms(4)
proof (induction n)
  case 0
  then show ?case using assms(1) by simp
next
  case (Suc n)
  let ?e = "\<lambda>n. take n mac @ drop n (eth_addr (E ! i))"
  have upd: "(?e n)[n := mac ! n] = ?e (Suc n)"
    using Suc.prems assms(3,6) by (intro nth_equalityI) (auto simp: nth_list_update nth_append nth_take)
  have "returns (mac_byte i base n t) (nicv (H, E[i := (E ! i)\<lparr>eth_addr := ?e (Suc n)\<rparr>], P, I, A))"
    if t: "nicv (H, E[i := (E ! i)\<lparr>eth_addr := ?e n\<rparr>], P, I, A) t" for t
  proof -
    have "hw t = H" using t by (simp add: nicv_def)
    then have b: "ucast (hw t (io_log t) (Mmio8 (base + of_nat n))) = mac ! n" using assms(5) Suc.prems by simp
    show ?thesis
      unfolding mac_byte_def mmio_eq Let_def prod.case b
      by (rule nicv_ethdev [where H = H and E = "E[i := (E ! i)\<lparr>eth_addr := ?e n\<rparr>]" and P = P and I = I and A = A])
        (use t assms(2) upd in simp_all)
  qed
  moreover have "returns (for_each (mac_byte i base) [0..<n] s) (nicv (H, E[i := (E ! i)\<lparr>eth_addr := ?e n\<rparr>], P, I, A))"
    using Suc by simp
  ultimately show ?case by (simp add: for_each_append) (erule returns_mono, blast)
qed

lemma new_priv_nicv:
  fixes s :: "'a e1000_scheme"
  assumes "nicv (H, E, P, I, A) s" and "i < length E"
    and "\<And>a t. nicv (H, E[i := (E ! i)\<lparr>eth_allocated := 1, eth_priv := a\<rparr>], P(a \<mapsto> e1000_priv_zero), I, A) t \<Longrightarrow> Q t"
  shows "returns (e1000_new_priv i s) Q"
  unfolding e1000_new_priv_def returns_bind
proof (rule nicv_ethdev [OF assms(1,2)])
  fix t :: "'a e1000_scheme"
  assume t: "nicv (H, E[i := (E ! i)\<lparr>eth_allocated := 1\<rparr>], P, I, A) t"
  obtain a u where u: "malloc sizeof_e1000_priv t = (a, u)" "nicv (H, E[i := (E ! i)\<lparr>eth_allocated := 1\<rparr>], P, I, A) u"
    using malloc_nicv [of sizeof_e1000_priv t] t by metis
  have "returns (upd_ethdev i (\<lambda>d. d\<lparr>eth_priv := a\<rparr>) u)
      (nicv (H, E[i := (E ! i)\<lparr>eth_allocated := 1, eth_priv := a\<rparr>], P, I, A))"
    by (rule nicv_ethdev [OF u(2)]) (use assms(2) in simp_all)
  then show "returns (let (a, s) = malloc sizeof_e1000_priv t in do {
      s \<leftarrow> upd_ethdev i (\<lambda>d. d\<lparr>eth_priv := a\<rparr>) s;
      Some (s\<lparr>e1000_privs := (e1000_privs s)(a \<mapsto> e1000_priv_zero)\<rparr>) }) Q"
    using assms(3) by (auto simp: u(1) returns_def nicv_def tty_ready_def)
qed

text \<open>The private structure of a new device whose first base address is \<open>bar\<close>.\<close>

definition new_nic :: "LONG \<Rightarrow> LONG \<Rightarrow> LONG \<Rightarrow> LONG \<Rightarrow> e1000_priv" where
  "new_nic b d f bar = e1000_priv_zero\<lparr>ep_bus := b, ep_device := d, ep_function := f, bar_type := bar AND 1,
     ep_memory := bar AND 0xFFFFFFF0, ep_iobase := bar AND 0xFFFFFFFC\<rparr>"

text \<open>The address of the first base address register of a device, in the form of the bus.\<close>

definition bar0_at :: "LONG \<Rightarrow> LONG \<Rightarrow> LONG \<Rightarrow> LONG" where
  "bar0_at b d f = push_bit 16 b OR push_bit 11 d OR push_bit 8 f OR 0x10 OR 0x80000000"

lemma ucast_byte: "w < 256 \<Longrightarrow> ucast (ucast w :: BYTE) = w" for w :: LONG
  by (simp add: word_unat_eq_iff unsigned_ucast_eq unsigned_take_bit_eq take_bit_nat_eq_self word_less_nat_alt)

lemma bar0_at_eq:
  assumes "b < 256" "d < 256" "f < 256"
  shows "pci_cfg_addr (ucast b) (ucast d) (ucast f) 0x10 = bar0_at b d f"
  using assms by (simp add: pci_cfg_addr_def bar0_at_def ucast_byte)

lemma read_bar_nicv:
  fixes s :: "'a e1000_scheme"
  assumes "nicv (H, E, P, I, A) s" and "i < length E" and "P (eth_priv (E ! i)) = Some e1000_priv_zero"
    and "\<And>l. H (Wr (Port32 0xCF8) (bar0_at b d f) # l) (Port32 0xCFC) = bar" and "b < 256" "d < 256" "f < 256"
    and "\<And>t. nicv (H, E, P(eth_priv (E ! i) \<mapsto> new_nic b d f bar), I, A) t \<Longrightarrow> Q t"
  shows "returns (e1000_read_bar b d f i s) Q"
  unfolding e1000_read_bar_def returns_bind
proof (rule nicv_priv [OF assms(1-3)])
  let ?p = "e1000_priv_zero\<lparr>ep_bus := b, ep_device := d, ep_function := f\<rparr>"
  fix t :: "'a e1000_scheme"
  assume t: "nicv (H, E, P(eth_priv (E ! i) \<mapsto> ?p), I, A) t"
  then have "hw t = H" by (simp add: nicv_def)
  then obtain l where r: "pci_cfg_read_bar b d f 0 t = (bar, t\<lparr>io_log := l\<rparr>)"
    using assms(4) bar0_at_eq [OF assms(5-7)]
    by (auto simp: pci_cfg_read_bar_def pci_cfg_readl_def PCI_CFG_BR0_def frames Let_def)
  show "returns (let (bar0, s) = pci_cfg_read_bar b d f 0 t in
      upd_priv i (\<lambda>p. p\<lparr>bar_type := bar0 AND 1, ep_memory := bar0 AND 0xFFFFFFF0, ep_iobase := bar0 AND 0xFFFFFFFC\<rparr>) s) Q"
    unfolding r Let_def prod.case
    by (rule nicv_priv [where H = H and E = E and P = "P(eth_priv (E ! i) \<mapsto> ?p)" and I = I and A = A and p = ?p])
      (use t assms(2,8) in \<open>simp_all add: new_nic_def\<close>)
qed

text \<open>Without an EEPROM the address is read from the memory of the controller, if its first word is not 0.\<close>

lemma read_mac_nicv:
  assumes s: "nicv (H, E, P, I, A) s" "i < length E" "P (eth_priv (E ! i)) = Some p" "eeprom_exists p = 0"
    and mac: "length (eth_addr (E ! i)) = 6" "length mac = 6"
      "\<And>l j. j < 6 \<Longrightarrow> ucast (H l (Mmio8 (ep_memory p + 0x5400 + of_nat j))) = (mac ! j :: BYTE)"
    and v: "\<And>l. H l (Mmio32 (ep_memory p + 0x5400)) = v"
    and Q: "\<And>t. v \<noteq> 0 \<Longrightarrow> nicv (H, E[i := (E ! i)\<lparr>eth_addr := mac\<rparr>], P, I, A) t \<Longrightarrow> Q (1, t)"
      "\<And>t. v = 0 \<Longrightarrow> nicv (H, E, P, I, A) t \<Longrightarrow> Q (0, t)"
  shows "returns (e1000_read_mac i s) Q"
proof -
  have p: "e1000_priv_of i s = Some p" using s by (simp add: nicv_priv_of)
  have h: "hw s = H" using s(1) by (simp add: nicv_def)
  have d: "take 6 mac @ drop 6 (eth_addr (E ! i)) = mac" using mac(1,2) by simp
  have "returns (for_each (mac_byte i (ep_memory p + 0x5400)) [0..<6] (s\<lparr>io_log := l\<rparr>)) (\<lambda>t. Q (1, t))" if "v \<noteq> 0" for l
    by (rule returns_mono [OF mac_bytes_nicv [where mac = mac and n = 6 and E = E and i = i, unfolded d]]) (use s(1,2) mac Q(1) that in simp_all)
  then show ?thesis
    using p s(1,4) h v Q(2) by (simp add: e1000_read_mac_def mmio_eq Let_def del: upt_rec_numeral)
qed

lemma no_mac_nicv:
  assumes "nicv (H, E, P, I, A) s" and "i < length E"
    and "\<And>t. nicv (H, E[i := ethdev_zero], P, I, A) t \<Longrightarrow> Q (1, t)"
  shows "returns (e1000_no_mac i s) Q"
  unfolding e1000_no_mac_def returns_bind
  by (rule nicv_puts [OF assms(1)])
    (use assms(2,3) in \<open>simp add: at_def nicv_def tty_ready_def free_def mmgmt_free_def ethernet_free_def Let_def\<close>)

lemma enable_int_nicv:
  assumes "nicv (H, E, P, I, A) s" and "i < length E" and "P (eth_priv (E ! i)) = Some p"
    and "\<And>t. nicv (H, E, P, I, A) t \<Longrightarrow> Q t"
  shows "returns (e1000_enable_int i s) Q"
  unfolding e1000_enable_int_def returns_bind
  by (rule nicv_cmd(1) [OF assms(1-3)], rule nicv_cmd(2) [where E = E and P = P and p = p])
    (use assms(2-4) in auto)

lemma finish_nicv:
  fixes s :: "'a e1000_scheme"
  assumes s: "nicv (H, E, P, I, A) s" "i < length E" "P (eth_priv (E ! i)) = Some p" "eeprom_exists p = 0"
    and mac: "length (eth_addr (E ! i)) = 6" "length mac = 6"
      "\<And>l j. j < 6 \<Longrightarrow> ucast (H l (Mmio8 (ep_memory p + 0x5400 + of_nat j))) = (mac ! j :: BYTE)"
    and v: "\<And>l. H l (Mmio32 (ep_memory p + 0x5400)) = v"
    and Q: "\<And>t. v \<noteq> 0 \<Longrightarrow> nicv (H, E[i := (E ! i)\<lparr>eth_addr := mac\<rparr>], P, I, A) t \<Longrightarrow> Q (0, t)"
      "\<And>t. v = 0 \<Longrightarrow> nicv (H, E[i := ethdev_zero], P, I, A) t \<Longrightarrow> Q (1, t)"
  shows "returns (e1000_finish i s) Q"
  unfolding e1000_finish_def returns_bind
proof (rule read_mac_nicv [where mac = mac and v = v, OF s mac(1,2)], goal_cases)
  case (1 l j)
  then show ?case by (rule mac(3))
next
  case (2 l)
  show ?case by (rule v)
next
  case (3 t)
  let ?E = "E[i := (E ! i)\<lparr>eth_addr := mac\<rparr>]"
  have p: "i < length ?E" "P (eth_priv (?E ! i)) = Some p" using s(2,3) by simp_all
  have "returns (do {
       s \<leftarrow> puts (str ''mac'' @ [10]) t;
       (v, s) \<leftarrow> e1000_readcmd i REG_CTRL s;
       s \<leftarrow> e1000_writecmd i REG_CTRL (v OR ECTRL_SLU) s;
       s \<leftarrow> puts (str ''link'' @ [10]) s;
       s \<leftarrow> e1000_enable_int i s;
       s \<leftarrow> puts (str ''int en'' @ [10]) s;
       Some (0 :: LONG, s)
     }) Q"
    unfolding returns_bind
    apply (rule nicv_puts [OF 3(2)])
    apply (rule nicv_cmd(2) [where E = ?E and P = P and p = p], assumption, rule p, rule p)
    apply simp
    apply (rule nicv_cmd(1) [where E = ?E and P = P and p = p], assumption, rule p, rule p)
    apply (rule nicv_puts, assumption)
    apply (rule enable_int_nicv [where E = ?E and P = P and p = p], assumption, rule p, rule p)
    apply (rule nicv_puts, assumption)
    using Q(1) 3(1) by simp
  then show ?case by (simp add: returns_bind)
next
  case (4 t)
  then show ?case using no_mac_nicv [OF 4(2) s(2), of Q] Q(2) by simp
qed


lemma init_nicv:
  fixes s :: "'a e1000_scheme"
  assumes s: "nicv (H, E, P, I, A) s" "first_free (\<lambda>d. eth_allocated d = 0) E = Some i"
      "first_free (\<lambda>ie. ie_dev ie = 0) I = Some k"
    and bar: "\<And>l. H (Wr (Port32 0xCF8) (bar0_at b d f) # l) (Port32 0xCFC) = bar" "b < 256" "d < 256" "f < 256" and base: "base = (bar AND 0xFFFFFFF0) + 0x5400"
    and mac: "length (eth_addr (E ! i)) = 6" "length mac = 6"
      "\<And>l j. j < 6 \<Longrightarrow> ucast (H l (Mmio8 (base + of_nat j))) = (mac ! j :: BYTE)"
    and v: "\<And>l. H l (Mmio32 base) = v"
    and I': "I' = I[k := (I ! k)\<lparr>ie_bus := b, ie_device := d, ie_function := f,
      ie_dev := A + of_nat i * sizeof_ethdev, ie_handler := Some e1000_handler_ptr\<rparr>]"
    and Q: "\<And>a P t. v \<noteq> 0 \<Longrightarrow> nicv (H, E[i := (E ! i)\<lparr>mtu := 1500, eth_allocated := 1, eth_priv := a, eth_addr := mac\<rparr>], P, I', A) t \<Longrightarrow> Q (0, t)"
      "\<And>P t. v = 0 \<Longrightarrow> nicv (H, E[i := ethdev_zero], P, I', A) t \<Longrightarrow> Q (1, t)"
  shows "returns (e1000_init b d f s) Q"
proof -
  let ?E = "\<lambda>a. E[i := (E ! i)\<lparr>mtu := 1500, eth_allocated := 1, eth_priv := a\<rparr>]"
  have i: "i < length E" using first_free_Some [OF s(2)] by auto
  have len [simp]: "length (?E a) = length E" for a by simp
  let ?u = "s\<lparr>eth_ifs := E[i := (E ! i)\<lparr>eth_allocated := 1, mtu := 1500\<rparr>]\<rparr>"
  have alloc: "ethernet_allocate s = (Some i, ?u)"
    using s(1,2) by (simp add: ethernet_allocate_def nicv_def Let_def)
  have u: "nicv (H, E[i := (E ! i)\<lparr>eth_allocated := 1, mtu := 1500\<rparr>], P, I, A) ?u"
    using s(1) by (simp add: nicv_def tty_ready_def)
  have tail: "returns (do {
       (r, s) \<leftarrow> pci_int_request b d f (ethdev_ptr i t) e1000_handler_ptr t;
       s \<leftarrow> puts (str ''int reg'' @ [10]) s;
       e1000_finish i s }) Q"
    if t: "nicv (H, ?E a, P(a \<mapsto> new_nic b d f bar), I, A) t" for a and t :: "'a e1000_scheme"
  proof -
    have ptr: "ethdev_ptr i t = A + of_nat i * sizeof_ethdev" using t by (simp add: ethdev_ptr_def nicv_def)
    show ?thesis
      unfolding returns_bind ptr
      apply (rule nicv_request [OF t s(3)])
      apply (simp add: returns_bind flip: I')
      apply (rule nicv_puts, assumption)
      apply (rule finish_nicv [where E = "?E a" and P = "P(a \<mapsto> new_nic b d f bar)" and mac = mac and v = v and
        p = "new_nic b d f bar"], assumption)
      using i mac v base Q by (simp_all add: new_nic_def e1000_priv_zero_def)
  qed
  have mid: "returns (e1000_read_bar b d f i t) (\<lambda>t. returns (do {
       s \<leftarrow> puts (str ''addr'' @ [10]) t;
       let s = pci_cfg_writeb (ucast b) (ucast d) (ucast f) PCI_CFG_INT IRQ10 s;
       (r, s) \<leftarrow> pci_int_request b d f (ethdev_ptr i s) e1000_handler_ptr s;
       s \<leftarrow> puts (str ''int reg'' @ [10]) s;
       e1000_finish i s }) Q)"
    if t: "nicv (H, ?E a, P(a \<mapsto> e1000_priv_zero), I, A) t" for a and t :: "'a e1000_scheme"
  proof (rule read_bar_nicv [where bar = bar, OF t], goal_cases)
    case (7 t)
    then show ?case
      unfolding returns_bind Let_def
      by (rule nicv_puts) (rule tail [unfolded returns_bind, where a = a], use i in \<open>simp add: pci_cfg_writeb_log\<close>)
  qed (use i bar in simp_all)
  show ?thesis
    unfolding e1000_init_def alloc prod.case option.case returns_bind
  proof (rule new_priv_nicv [OF u], goal_cases)
    case 1
    show ?case using i by simp
  next
    case (2 a t)
    then have "nicv (H, ?E a, P(a \<mapsto> e1000_priv_zero), I, A) t" using i by simp
    then show ?case by (rule nicv_puts) (rule mid [unfolded returns_bind])
  qed
qed

text \<open>
  C20: What the initialisation of a device at bus \<open>b\<close>, device \<open>d\<close> and function \<open>f\<close> leaves behind, with
  a ready console and when an entry that is all zero is free in the table of devices, and one in
  that of PCI interrupts. All that is known of the bus is that the first base address register
  of this device reads as \<open>bar\<close>, and of the controller that the bytes at offset 0x5400 of that memory read
  as \<open>mac\<close> and the word there as \<open>v\<close>. The handler is registered in the interrupt entry, with the
  address of the device, on every path. If the word reads as 0 the result is 1 and the
  device is cleared, while the interrupt entry still names it; otherwise the result is 0 and the device
  has the six bytes of the controller, but none of its five functions is set. No other device is changed.
\<close>

theorem e1000_init_outcome:
  fixes s :: "'a e1000_scheme"
  assumes "tty_ready s" and "first_free (\<lambda>d. eth_allocated d = 0) (eth_ifs s) = Some i"
    and "first_free (\<lambda>ie. ie_dev ie = 0) (pci_int_entries s) = Some k"
    and "\<And>l. hw s (Wr (Port32 0xCF8) (bar0_at b d f) # l) (Port32 0xCFC) = bar" and "b < 256" "d < 32" "f < 8"
    and "base = (bar AND 0xFFFFFFF0) + 0x5400"
    and "eth_ifs s ! i = ethdev_zero" and "length mac = 6"
    and "\<And>l j. j < 6 \<Longrightarrow> ucast (hw s l (Mmio8 (base + of_nat j))) = (mac ! j :: BYTE)"
    and "\<And>l. hw s l (Mmio32 base) = v"
  shows "\<exists>r t. e1000_init b d f s = Some (r, t) \<and>
    ie_handler (pci_int_entries t ! k) = Some e1000_handler_ptr \<and>
    ie_dev (pci_int_entries t ! k) = ethdev_ptr i s \<and>
    (if v = 0 then r = 1 \<and> eth_ifs t ! i = ethdev_zero
     else r = 0 \<and> (\<exists>a. eth_ifs t ! i = ethdev_zero\<lparr>mtu := 1500, eth_allocated := 1, eth_priv := a, eth_addr := mac\<rparr>) \<and>
       eth_write (eth_ifs t ! i) = 0 \<and> is_up (eth_ifs t ! i) = 0 \<and> is_broadcast (eth_ifs t ! i) = 0 \<and>
       is_multicast (eth_ifs t ! i) = 0 \<and> is_promisc (eth_ifs t ! i) = 0) \<and>
    (\<forall>j. j \<noteq> i \<longrightarrow> eth_ifs t ! j = eth_ifs s ! j)"
proof -
  have i: "i < length (eth_ifs s)" and k: "k < length (pci_int_entries s)"
    using first_free_Some [OF assms(2)] first_free_Some [OF assms(3)] by auto
  have df: "d < 256" "f < 256" using assms(6,7) by (simp_all add: word_less_nat_alt)
  have "returns (e1000_init b d f s) (\<lambda>(r, t). ie_handler (pci_int_entries t ! k) = Some e1000_handler_ptr \<and>
    ie_dev (pci_int_entries t ! k) = ethdev_ptr i s \<and>
    (if v = 0 then r = 1 \<and> eth_ifs t ! i = ethdev_zero
     else r = 0 \<and> (\<exists>a. eth_ifs t ! i = ethdev_zero\<lparr>mtu := 1500, eth_allocated := 1, eth_priv := a, eth_addr := mac\<rparr>)) \<and>
    (\<forall>j. j \<noteq> i \<longrightarrow> eth_ifs t ! j = eth_ifs s ! j))"
  proof (rule init_nicv [where H = "hw s" and E = "eth_ifs s" and P = "e1000_privs s" and I = "pci_int_entries s" and
        A = "eth_ifs_at s" and i = i and k = k and bar = bar and base = base and mac = mac and v = v,
        OF _ assms(2-5) df assms(8) _ assms(10) _ assms(12) refl], goal_cases)
    case 1
    then show ?case using assms(1) by (simp add: nicv_def)
  next
    case 2
    then show ?case using assms(9) by (simp add: ethdev_zero_def)
  next
    case (3 l j)
    then show ?case by (rule assms(11))
  next
    case (4 a P t)
    then show ?case using nicvD [OF 4(2)] assms(9) i k by (auto simp: ethdev_ptr_def)
  next
    case (5 P t)
    then show ?case using nicvD [OF 5(2)] i k by (simp add: ethdev_ptr_def)
  qed
  then show ?thesis by (auto simp: returns_def ethdev_zero_def split: if_splits)
qed

text \<open>A controller whose registers all read as 0x52, next to a device that is in use.\<close>

definition e1000_1 :: e1000 where
  "e1000_1 = e1000_0\<lparr>hw := \<lambda>l r. (case r of Mmio8 _ \<Rightarrow> 0x52 | Mmio32 _ \<Rightarrow> 0x52525252
     | _ \<Rightarrow> (if l \<noteq> [] \<and> hd l = Wr (Port32 0xCF8) 0x80001810 then 0xFEBC0000 else 0))\<rparr>"

lemma e1000_1_ok: "tty_ready e1000_1" "first_free (\<lambda>d. eth_allocated d = 0) (eth_ifs e1000_1) = Some 1"
    "first_free (\<lambda>ie. ie_dev ie = 0) (pci_int_entries e1000_1) = Some 0" "eth_ifs e1000_1 ! 1 = ethdev_zero"
    "hw e1000_1 = (\<lambda>l r. (case r of Mmio8 _ \<Rightarrow> 0x52 | Mmio32 _ \<Rightarrow> 0x52525252
     | _ \<Rightarrow> (if l \<noteq> [] \<and> hd l = Wr (Port32 0xCF8) 0x80001810 then 0xFEBC0000 else 0)))"
  by (simp_all add: e1000_1_def e1000_0_def network.defs net0_def ethernet.defs eth0_def ide.defs ide0_def pci.defs
    pci0_def kbd.defs kbd0_def int0_def interrupts.defs pci_int_entry_zero_def tty_ready_def ethdev_zero_def
    numeral_eq_Suc del: upt_rec_numeral)

theorem e1000_init_outcome_witness:
  "\<exists>t. e1000_init 0 3 0 e1000_1 = Some (0, t) \<and> eth_addr (eth_ifs t ! 1) = replicate 6 0x52 \<and> is_promisc (eth_ifs t ! 1) = 0"
proof -
  have "ucast (0x52 :: LONG) = (replicate 6 0x52 ! j :: BYTE)" if "j < 6" for j using that by simp
  moreover have "bar0_at 0 3 0 = 0x80001810" by (simp add: bar0_at_def)
  ultimately obtain t a where "e1000_init 0 3 0 e1000_1 = Some (0, t)"
      "eth_ifs t ! 1 = ethdev_zero\<lparr>mtu := 1500, eth_allocated := 1, eth_priv := a, eth_addr := replicate 6 0x52\<rparr>"
    using e1000_init_outcome [OF e1000_1_ok(1-3), of 0 3 0 "0xFEBC0000" "0xFEBC5400" "replicate 6 0x52" "0x52525252"]
    using e1000_1_ok(4) by (auto simp: e1000_1_ok(5))
  then show ?thesis by (simp add: ethdev_zero_def)
qed

end
