(* ===== verification/Virtio.thy ===== *)
theory Virtio
  imports E1000
begin

text \<open>
  The driver of the virtio network device, \<^verbatim>\<open>dev/virtio-net.c\<close>. Like the one for the Intel
  controllers it is compiled but commented out of the table of PCI drivers. A device is its index
  in \<open>eth_ifs\<close>, the structure behind its \<open>priv\<close> is the value of \<open>vnet_privs\<close> at that
  address, and the descriptors of the queue are bytes of the memory.
\<close>

section \<open>Data\<close>

definition VNET_QSIZE :: nat where "VNET_QSIZE = 2"
definition VNET_ALIGN :: LONG where "VNET_ALIGN = 4096"
definition VNET_DTABLE_SIZE :: "nat \<Rightarrow> LONG" where "VNET_DTABLE_SIZE n = 16 * of_nat n"
definition VNET_ARING_SIZE :: "nat \<Rightarrow> LONG" where "VNET_ARING_SIZE n = 6 * 2 * of_nat n"
definition VNET_URING_SIZE :: "nat \<Rightarrow> LONG" where "VNET_URING_SIZE n = 6 * 4 * of_nat n"
definition VNET_DESC_WRITE :: WORD where "VNET_DESC_WRITE = 2"

definition VNET_F_CSUM :: LONG where "VNET_F_CSUM = push_bit 0 1"
definition VNET_F_GUEST_TSO4 :: LONG where "VNET_F_GUEST_TSO4 = push_bit 7 1"
definition VNET_F_GUEST_TSO6 :: LONG where "VNET_F_GUEST_TSO6 = push_bit 8 1"
definition VNET_F_GUEST_UFO :: LONG where "VNET_F_GUEST_UFO = push_bit 10 1"
definition VNET_F_MRG_RXBUF :: LONG where "VNET_F_MRG_RXBUF = push_bit 15 1"
definition VNET_F_CTRL_VQ :: LONG where "VNET_F_CTRL_VQ = push_bit 17 1"
definition VNET_F_EVENT_IDX :: LONG where "VNET_F_EVENT_IDX = push_bit 29 1"

definition VNET_S_DEVACK :: BYTE where "VNET_S_DEVACK = 0x01"
definition VNET_S_DRVLOAD :: BYTE where "VNET_S_DRVLOAD = 0x02"
definition VNET_S_FEATOK :: BYTE where "VNET_S_FEATOK = 0x08"
definition VNET_S_DRVFAIL :: BYTE where "VNET_S_DRVFAIL = 0x80"

definition VNET_R_GFEAT :: LONG where "VNET_R_GFEAT = 0x04"
definition VNET_R_DSTAT :: LONG where "VNET_R_DSTAT = 0x12"
definition VNET_R_MACAD :: LONG where "VNET_R_MACAD = 0x14"

definition PCI_CFG_SSS :: BYTE where "PCI_CFG_SSS = 0x2E"

record virtionet_priv =
  vp_bus :: LONG
  vp_device :: LONG
  vp_function :: LONG
  qsize :: LONG
  buf_rx :: LONG
  rx_desc :: LONG
  rx_avail :: LONG
  rx_used :: LONG
  buf_tx :: LONG
  tx_desc :: LONG
  tx_avail :: LONG
  tx_used :: LONG
  vp_iobase :: LONG

definition virtionet_priv_zero :: virtionet_priv where
  "virtionet_priv_zero = \<lparr>vp_bus = 0, vp_device = 0, vp_function = 0, qsize = 0, buf_rx = 0, rx_desc = 0,
     rx_avail = 0, rx_used = 0, buf_tx = 0, tx_desc = 0, tx_avail = 0, tx_used = 0, vp_iobase = 0\<rparr>"

definition sizeof_virtionet_priv :: LONG where
  "sizeof_virtionet_priv = 52"

record vnet = e1000 +
  vnet_privs :: "LONG \<Rightarrow> virtionet_priv option"

definition vnet_priv_of :: "nat \<Rightarrow> 'a vnet_scheme \<Rightarrow> virtionet_priv option" where
  "vnet_priv_of dev s = do { d \<leftarrow> at (eth_ifs s) dev; vnet_privs s (eth_priv d) }"

definition upd_vnet_priv :: "nat \<Rightarrow> (virtionet_priv \<Rightarrow> virtionet_priv) \<Rightarrow> 'a vnet_scheme \<Rightarrow> 'a vnet_scheme option" where
  "upd_vnet_priv dev f s = do {
     d \<leftarrow> at (eth_ifs s) dev;
     p \<leftarrow> vnet_privs s (eth_priv d);
     Some (s\<lparr>vnet_privs := (vnet_privs s)(eth_priv d \<mapsto> f p)\<rparr>)
   }"

text \<open>Storing the \<open>n\<close> low bytes of a value, the lowest first.\<close>

definition store_bytes :: "nat \<Rightarrow> LONG \<Rightarrow> QUAD \<Rightarrow> (LONG \<Rightarrow> BYTE) \<Rightarrow> LONG \<Rightarrow> BYTE" where
  "store_bytes n a v m = (\<lambda>x. if unat (x - a) < n then ucast (drop_bit (8 * unat (x - a)) v) else m x)"

section \<open>Registers\<close>

definition virtionet_write_dstatus :: "nat \<Rightarrow> BYTE \<Rightarrow> 'a vnet_scheme \<Rightarrow> 'a vnet_scheme option" where
  "virtionet_write_dstatus dev val s = do {
     p \<leftarrow> vnet_priv_of dev s;
     Some (outb (vp_iobase p + VNET_R_DSTAT) val s)
   }"

definition virtionet_read_features :: "nat \<Rightarrow> 'a vnet_scheme \<Rightarrow> (LONG \<times> 'a vnet_scheme) option" where
  "virtionet_read_features dev s = do {
     p \<leftarrow> vnet_priv_of dev s;
     Some (inl (ucast (vp_iobase p)) s)
   }"

definition virtionet_write_features :: "nat \<Rightarrow> LONG \<Rightarrow> 'a vnet_scheme \<Rightarrow> 'a vnet_scheme option" where
  "virtionet_write_features dev val s = do {
     p \<leftarrow> vnet_priv_of dev s;
     Some (outl (ucast (vp_iobase p + VNET_R_GFEAT)) val s)
   }"

definition virtionet_check_link :: "nat \<Rightarrow> LONG" where "virtionet_check_link dev = 0"
definition virtionet_is_broadcast :: "nat \<Rightarrow> LONG" where "virtionet_is_broadcast dev = 0"
definition virtionet_is_multicast :: "nat \<Rightarrow> LONG" where "virtionet_is_multicast dev = 0"
definition virtionet_is_promisc :: "nat \<Rightarrow> LONG" where "virtionet_is_promisc dev = 0"

definition virtionet_drvfail :: "LONG \<Rightarrow> 'a machine_scheme \<Rightarrow> 'a machine_scheme" where
  "virtionet_drvfail iobase s = outb (iobase + VNET_R_DSTAT) VNET_S_DRVFAIL s"

definition virtionet_read_reg :: "nat \<Rightarrow> LONG \<Rightarrow> 'a vnet_scheme \<Rightarrow> (LONG \<times> 'a vnet_scheme) option" where
  "virtionet_read_reg dev reg s = do {
     p \<leftarrow> vnet_priv_of dev s;
     Some (inl (ucast (vp_iobase p + reg)) s)
   }"

definition virtionet_load_byte :: "nat \<Rightarrow> nat \<Rightarrow> 'a vnet_scheme \<Rightarrow> 'a vnet_scheme option" where
  "virtionet_load_byte dev i s = do {
     p \<leftarrow> vnet_priv_of dev s;
     let (b, s) = inb (vp_iobase p + VNET_R_MACAD + of_nat i) s;
     upd_ethdev dev (\<lambda>d. d\<lparr>eth_addr := (eth_addr d)[i := b]\<rparr>) s
   }"

definition virtionet_load_macaddr :: "nat \<Rightarrow> 'a vnet_scheme \<Rightarrow> 'a vnet_scheme option" where
  "virtionet_load_macaddr dev s = for_each (virtionet_load_byte dev) [0..<6] s"

section \<open>The receive queue\<close>

text \<open>The addresses of the three parts of the queue in the memory at \<open>ptr\<close>.\<close>

definition vring_align :: "LONG \<Rightarrow> LONG" where
  "vring_align ptr = (let pmod = ptr mod 4096 in if pmod \<noteq> 0 then ptr + (4096 - pmod) else ptr)"

definition vring_used :: "LONG \<Rightarrow> LONG" where
  "vring_used avail = (avail + 4 + 2 * 32 + 2 + VNET_ALIGN - 1) AND NOT (VNET_ALIGN - 1)"

text \<open>
  The loop fills the first descriptor again and again: \<open>desc\<close> is not advanced. The address is a
  pointer converted to 64 bits, which the compiler extends with its sign.
\<close>

definition virtionet_desc_init :: "LONG \<Rightarrow> 'a vnet_scheme \<Rightarrow> 'a vnet_scheme" where
  "virtionet_desc_init desc s =
     (let s = s\<lparr>mem := store_bytes 2 (desc + 12) (ucast (NOT VNET_DESC_WRITE)) (mem s)\<rparr>;
          (a, s) = malloc 4096 s;
          s = s\<lparr>mem := store_bytes 8 desc (scast a) (mem s)\<rparr>
      in s\<lparr>mem := store_bytes 4 (desc + 8) 4096 (mem s)\<rparr>)"

definition vring_bytes :: LONG where
  "vring_bytes = VNET_DTABLE_SIZE VNET_QSIZE + VNET_ALIGN + VNET_ARING_SIZE VNET_QSIZE + VNET_ALIGN +
     VNET_URING_SIZE VNET_QSIZE + VNET_ALIGN"

definition virtionet_initialize_queue :: "nat \<Rightarrow> 'a vnet_scheme \<Rightarrow> 'a vnet_scheme option" where
  "virtionet_initialize_queue dev s = do {
     s \<leftarrow> puts (str ''[vnet] vqueue'' @ [10]) s;
     s \<leftarrow> upd_vnet_priv dev (\<lambda>p. p\<lparr>qsize := of_nat VNET_QSIZE\<rparr>) s;
     let (ptr, s) = malloc vring_bytes s;
     s \<leftarrow> puts (str ''[vnet] vring: 0x'') s;
     s \<leftarrow> putn16 ptr s;
     let ptr = vring_align ptr;
     s \<leftarrow> puts (str '' aligned: 0x'') s;
     s \<leftarrow> putn16 ptr s;
     s \<leftarrow> puts [10] s;
     let avail = ptr + VNET_DTABLE_SIZE VNET_QSIZE;
     s \<leftarrow> upd_vnet_priv dev (\<lambda>p. p\<lparr>rx_desc := ptr, rx_avail := avail, rx_used := vring_used avail\<rparr>) s;
     Some ((virtionet_desc_init ptr ^^ (VNET_QSIZE div 2)) s)
   }"

section \<open>Initialisation\<close>

record vnet_syms =
  vnet_check_link_at :: LONG
  vnet_is_broadcast_at :: LONG
  vnet_is_multicast_at :: LONG
  vnet_is_promisc_at :: LONG

definition virtionet_features :: "LONG \<Rightarrow> LONG" where
  "virtionet_features feat =
     (feat AND NOT (VNET_F_CTRL_VQ OR VNET_F_EVENT_IDX OR VNET_F_GUEST_TSO4 OR VNET_F_GUEST_TSO6 OR
        VNET_F_GUEST_UFO OR VNET_F_MRG_RXBUF)) OR VNET_F_CSUM"

text \<open>The negotiation of the features; the result is the status register after it.\<close>

definition virtionet_negotiate :: "nat \<Rightarrow> 'a vnet_scheme \<Rightarrow> (LONG \<times> 'a vnet_scheme) option" where
  "virtionet_negotiate dev s = do {
     s \<leftarrow> virtionet_write_dstatus dev VNET_S_DEVACK s;
     s \<leftarrow> virtionet_write_dstatus dev (VNET_S_DEVACK OR VNET_S_DRVLOAD) s;
     (feat, s) \<leftarrow> virtionet_read_features dev s;
     s \<leftarrow> virtionet_write_features dev (virtionet_features feat) s;
     s \<leftarrow> virtionet_write_dstatus dev (VNET_S_DEVACK OR VNET_S_DRVLOAD OR VNET_S_FEATOK) s;
     virtionet_read_reg dev VNET_R_DSTAT s
   }"

text \<open>
  With the private structure in place: when the features are refused the function returns without
  a value, and the caller gets what the register happens to hold, the argument \<open>junk\<close>.
\<close>

definition virtionet_configure :: "LONG \<Rightarrow> vnet_syms \<Rightarrow> nat \<Rightarrow> 'a vnet_scheme \<Rightarrow> (LONG \<times> 'a vnet_scheme) option" where
  "virtionet_configure junk A dev s = do {
     (st, s) \<leftarrow> virtionet_negotiate dev s;
     if st AND ucast VNET_S_FEATOK = 0 then do {
       s \<leftarrow> puts (str ''[vnet] device has disagreed with the requested features'' @ [10]) s;
       Some (junk, s)
     }
     else do {
       s \<leftarrow> puts (str ''[vnet] device has accepted the requested features'' @ [10]) s;
       s \<leftarrow> virtionet_load_macaddr dev s;
       s \<leftarrow> virtionet_initialize_queue dev s;
       s \<leftarrow> upd_ethdev dev (\<lambda>d. d\<lparr>is_up := vnet_check_link_at A, is_broadcast := vnet_is_broadcast_at A,
              is_multicast := vnet_is_multicast_at A, is_promisc := vnet_is_promisc_at A\<rparr>) s;
       Some (0, s)
     }
   }"

definition virtionet_start :: "LONG \<Rightarrow> vnet_syms \<Rightarrow> LONG \<Rightarrow> nat \<Rightarrow> 'a vnet_scheme \<Rightarrow> (LONG \<times> 'a vnet_scheme) option" where
  "virtionet_start junk A iobase dev s = do {
     s \<leftarrow> upd_ethdev dev (\<lambda>d. d\<lparr>eth_allocated := 1\<rparr>) s;
     let (a, s) = malloc sizeof_virtionet_priv s;
     s \<leftarrow> upd_ethdev dev (\<lambda>d. d\<lparr>eth_priv := a\<rparr>) s;
     let s = s\<lparr>vnet_privs := (vnet_privs s)(a \<mapsto> virtionet_priv_zero)\<rparr>;
     s \<leftarrow> upd_vnet_priv dev (\<lambda>p. p\<lparr>vp_iobase := iobase\<rparr>) s;
     s \<leftarrow> puts (str ''[vnet] IO base: '') s;
     s \<leftarrow> putn16 iobase s;
     s \<leftarrow> put 10 s;
     virtionet_configure junk A dev s
   }"

definition virtionet_probe :: "LONG \<Rightarrow> vnet_syms \<Rightarrow> LONG \<Rightarrow> LONG \<Rightarrow> LONG \<Rightarrow> LONG \<Rightarrow> 'a vnet_scheme \<Rightarrow>
    (LONG \<times> 'a vnet_scheme) option" where
  "virtionet_probe junk A iobase bus device function s = do {
     let (subsys, s) = pci_cfg_readw (ucast bus) (ucast device) (ucast function) PCI_CFG_SSS s;
     if subsys \<noteq> 1 then do {
       s \<leftarrow> puts (str ''[vnet] virtio device is not network interface'' @ [10]) s;
       Some (1, virtionet_drvfail iobase s)
     }
     else (case ethernet_allocate s of
         (None, s) \<Rightarrow> do {
           s \<leftarrow> puts (str ''[vnet] cannot allocate ethdev'' @ [10]) s;
           Some (1, virtionet_drvfail iobase s)
         }
       | (Some dev, s) \<Rightarrow> virtionet_start junk A iobase dev s)
   }"

definition virtionet_init :: "LONG \<Rightarrow> vnet_syms \<Rightarrow> LONG \<Rightarrow> LONG \<Rightarrow> LONG \<Rightarrow> 'a vnet_scheme \<Rightarrow>
    (LONG \<times> 'a vnet_scheme) option" where
  "virtionet_init junk A bus device function s = do {
     s \<leftarrow> puts (str ''[vnet] Initialization'' @ [10]) s;
     let (iobase, s) = pci_cfg_read_bar bus device function 0 s;
     if iobase AND 1 \<noteq> 0 then virtionet_probe junk A (iobase AND 0xfffffffe) bus device function s
     else do {
       s \<leftarrow> puts (str ''[vnet] BAR0 is not IO port'' @ [10]) s;
       Some (1, s)
     }
   }"

section \<open>The layout of the queue\<close>

lemma unat_page: "unat (w AND NOT 4095 :: LONG) = unat w div 4096 * 4096"
proof -
  have m: "(4095 :: LONG) = mask 12" by (simp add: mask_eq_exp_minus_1)
  have "w AND NOT 4095 = push_bit 12 (drop_bit 12 w)"
    unfolding m by (rule bit_word_eqI) (auto simp: bit_simps)
  moreover have "unat w div 4096 * 4096 < 2 ^ 32"
    by (rule le_less_trans [OF div_times_less_eq_dividend]) (simp add: unat_bounds(3))
  ultimately show ?thesis by (simp add: push_bit_eq_mult unat_drop_bit_eq drop_bit_eq_div unat_word_ariths)
qed

lemma page_up: "(n + 4095) div 4096 * 4096 = (if n mod 4096 = 0 then n else n + (4096 - n mod 4096))" for n :: nat
proof -
  define q r where "q = n div 4096" and "r = n mod 4096"
  have n: "n = q * 4096 + r" and r: "r < 4096" by (simp_all add: q_def r_def)
  have "(n + 4095) div 4096 = q + (r + 4095) div 4096" unfolding n by (simp add: add.assoc)
  moreover have "(r + 4095) div 4096 = (if r = 0 then 0 else 1)"
    using r by (auto intro!: div_nat_eqI)
  ultimately show ?thesis using r by (simp add: n flip: r_def)
qed

lemma vring_align_unat:
  assumes "unat a + 4096 < 2 ^ 32"
  shows "unat (vring_align a) = (unat a + 4095) div 4096 * 4096"
proof -
  have m: "unat (a mod 4096) = unat a mod 4096" by (simp add: unat_mod)
  then have "unat (4096 - a mod 4096) = 4096 - unat a mod 4096"
    by (simp add: unat_sub word_le_nat_alt)
  then have "unat (a + (4096 - a mod 4096)) = unat a + (4096 - unat a mod 4096)"
    using assms by (simp add: unat_word_ariths)
  moreover have "a mod 4096 = 0 \<longleftrightarrow> unat a mod 4096 = 0" using m by (metis unat_eq_zero)
  ultimately show ?thesis by (simp add: vring_align_def page_up)
qed

lemma vring_used_unat:
  assumes "unat a + 12392 < 2 ^ 32"
  defines "ptr \<equiv> vring_align a"
  shows "4096 dvd unat ptr" and "unat a \<le> unat ptr" and "unat ptr < unat a + 4096"
    and "unat (ptr + 32) = unat ptr + 32" and "unat (vring_used (ptr + 32)) = unat ptr + 4096"
proof -
  have p: "unat ptr = (unat a + 4095) div 4096 * 4096" unfolding ptr_def by (rule vring_align_unat) (use assms(1) in simp)
  show "4096 dvd unat ptr" unfolding p by simp
  then obtain q where q: "unat ptr = q * 4096" by (metis dvd_def mult.commute)
  show ge: "unat a \<le> unat ptr" unfolding p page_up using mod_less_divisor [of 4096 "unat a"] by auto
  show lt: "unat ptr < unat a + 4096" unfolding p page_up by auto
  show "unat (ptr + 32) = unat ptr + 32" using lt assms(1) by (simp add: unat_word_ariths)
  have "unat (ptr + 32 + 4 + 2 * 32 + 2 + 4096 - 1) = q * 4096 + 4197"
    using lt assms(1) q by (simp add: unat_word_ariths)
  moreover have "(q * 4096 + 4197) div 4096 = q + 1" by simp
  moreover have "vring_used (ptr + 32) = (ptr + 32 + 4 + 2 * 32 + 2 + 4096 - 1) AND NOT 4095"
    by (simp add: vring_used_def VNET_ALIGN_def)
  ultimately show "unat (vring_used (ptr + 32)) = unat ptr + 4096"
    by (simp only: unat_page q) simp
qed

section \<open>What the driver depends on\<close>

type_synonym vnet_state = "(io_event list \<Rightarrow> io_req \<Rightarrow> LONG) \<times> ethdev list \<times> (LONG \<Rightarrow> virtionet_priv option) \<times>
    (LONG \<times> LONG \<times> LONG) \<times> (LONG \<Rightarrow> BYTE)"

definition vnv :: "vnet_state \<Rightarrow> 'a vnet_scheme \<Rightarrow> bool" where
  "vnv N s \<longleftrightarrow> tty_ready s \<and>
     N = (hw s, eth_ifs s, vnet_privs s, (mmgmt_start s, mmgmt_counter s, mmgmt_len s), mem s)"

lemma vnv_tty: "tty_step s t \<Longrightarrow> vnv N s \<Longrightarrow> vnv N t"
  by (auto simp: vnv_def tty_step_def elim!: printedE)

lemma vnvD: "vnv (H, E, R) s \<Longrightarrow> eth_ifs s = E"
  by (auto simp: vnv_def)

lemma vnv_ready: "vnv N s \<Longrightarrow> tty_step s s"
  by (rule tty_step_refl) (simp add: vnv_def)

lemma vnv_print:
  assumes "vnv N s" and "\<And>t. vnv N t \<Longrightarrow> Q t"
  shows "returns (puts cs s) Q" and "returns (putn16 n s) Q" and "returns (put c s) Q"
  by (rule puts_wp putn16_wp put_wp, rule vnv_ready, rule assms(1), rule assms(2), erule vnv_tty, rule assms(1))+

lemma vnv_log [simp]: "vnv N (s\<lparr>io_log := l\<rparr>) = vnv N s"
  by (simp add: vnv_def tty_ready_def)

lemma vnv_ethdev:
  assumes "vnv (H, E, R) s" and "i < length E" and "\<And>t. vnv (H, E[i := f (E ! i)], R) t \<Longrightarrow> Q t"
  shows "returns (upd_ethdev i f s) Q"
  using assms by (cases R) (simp add: upd_ethdev_def at_def vnv_def tty_ready_def)

lemma vnv_priv:
  assumes "vnv (H, E, P, R) s" and "i < length E" and "P (eth_priv (E ! i)) = Some p"
    and "\<And>t. vnv (H, E, P(eth_priv (E ! i) \<mapsto> f p), R) t \<Longrightarrow> Q t"
  shows "returns (upd_vnet_priv i f s) Q"
  using assms by (cases R) (simp add: upd_vnet_priv_def at_def vnv_def tty_ready_def)

lemma vnv_priv_of: "vnv (H, E, P, R) s \<Longrightarrow> i < length E \<Longrightarrow> vnet_priv_of i s = P (eth_priv (E ! i))"
  by (cases R) (simp add: vnet_priv_of_def at_def vnv_def)

text \<open>The allocator's answer depends on its own variables only.\<close>

lemma malloc_vnv:
  assumes "vnv (H, E, P, M, m) s"
  obtains M' where "\<And>t. vnv (H, E', P', M, m') t \<Longrightarrow>
    fst (malloc n t) = fst (malloc n s) \<and> vnv (H, E', P', M', m') (snd (malloc n t))"
proof (rule that)
  fix t assume "vnv (H, E', P', M, m') t"
  with assms show "fst (malloc n t) = fst (malloc n s) \<and> vnv (H, E', P', (mmgmt_start (snd (malloc n s)),
      mmgmt_counter (snd (malloc n s)), mmgmt_len (snd (malloc n s))), m') (snd (malloc n t))"
    by (simp add: vnv_def malloc_eq mmgmt_alloc_def tty_ready_def Let_def)
qed

lemma store_bytes_outside:
  assumes "16 \<le> unat (x - a)" and "unat k + n \<le> 16"
  shows "store_bytes n (a + k) v m x = m x"
proof -
  have "\<not> unat (x - (a + k)) < n"
  proof
    assume "unat (x - (a + k)) < n"
    then have "unat ((x - (a + k)) + k) < 16" using assms(2) by (simp only: unat_word_ariths) simp
    then have "unat (x - a) < 16" by simp
    then show False using assms(1) by simp
  qed
  then show ?thesis by (simp add: store_bytes_def)
qed

lemma desc_init_vnv:
  assumes "vnv (H, E, P, M, m) s"
  shows "\<exists>M' m'. vnv (H, E, P, M', m') (virtionet_desc_init a s) \<and> (\<forall>x. 16 \<le> unat (x - a) \<longrightarrow> m' x = m x)"
proof -
  obtain w where w: "virtionet_desc_init a s = w" by blast
  have "vnv (H, E, P, (mmgmt_start w, mmgmt_counter w, mmgmt_len w), mem w) w"
    using assms by (simp add: vnv_def malloc_eq mmgmt_alloc_def tty_ready_def virtionet_desc_init_def Let_def flip: w)
  moreover have "mem w x = m x" if "16 \<le> unat (x - a)" for x
    using assms store_bytes_outside [OF that, of 0] store_bytes_outside [OF that, of 8] store_bytes_outside [OF that, of 12]
    by (simp add: virtionet_desc_init_def Let_def vnv_def malloc_eq mmgmt_alloc_def flip: w)
  ultimately show ?thesis unfolding w by blast
qed

text \<open>The queue of a device whose private structure is \<open>p\<close>, in memory that was given at \<open>a\<close>.\<close>

definition with_queue :: "LONG \<Rightarrow> virtionet_priv \<Rightarrow> virtionet_priv" where
  "with_queue a p = p\<lparr>qsize := 2, rx_desc := vring_align a, rx_avail := vring_align a + 32,
     rx_used := vring_used (vring_align a + 32)\<rparr>"

lemma queue_vnv:
  fixes s :: "'a vnet_scheme"
  assumes s: "vnv (H, E, P, M, m) s" and i: "i < length E" and p: "P (eth_priv (E ! i)) = Some p"
    and a: "a = fst (malloc vring_bytes s)"
    and Q: "\<And>M' m' t. vnv (H, E, P(eth_priv (E ! i) \<mapsto> with_queue a p), M', m') t \<Longrightarrow>
      (\<forall>x. 16 \<le> unat (x - vring_align a) \<longrightarrow> m' x = m x) \<Longrightarrow> Q t"
  shows "returns (virtionet_initialize_queue i s) Q"
proof -
  let ?q = "p\<lparr>qsize := 2\<rparr>"
  obtain M' where M': "\<And>t :: 'a vnet_scheme. vnv (H, E, P(eth_priv (E ! i) \<mapsto> ?q), M, m) t \<Longrightarrow>
      fst (malloc vring_bytes t) = a \<and> vnv (H, E, P(eth_priv (E ! i) \<mapsto> ?q), M', m) (snd (malloc vring_bytes t))"
    using malloc_vnv [OF s, of E "P(eth_priv (E ! i) \<mapsto> ?q)" m vring_bytes] a by metis
  have fill: "Q (virtionet_desc_init (vring_align a) t)"
    if "vnv (H, E, P(eth_priv (E ! i) \<mapsto> with_queue a p), M', m) t" for t :: "'a vnet_scheme"
    using desc_init_vnv [OF that, of "vring_align a"] Q by blast
  have tail: "returns (do {
     s \<leftarrow> puts (str ''[vnet] vring: 0x'') t;
     s \<leftarrow> putn16 a s;
     s \<leftarrow> puts (str '' aligned: 0x'') s;
     s \<leftarrow> putn16 (vring_align a) s;
     s \<leftarrow> puts [10] s;
     s \<leftarrow> upd_vnet_priv i (\<lambda>p. p\<lparr>rx_desc := vring_align a, rx_avail := vring_align a + 32, rx_used := vring_used (vring_align a + 32)\<rparr>) s;
     Some (virtionet_desc_init (vring_align a) s) }) Q"
    if t: "vnv (H, E, P(eth_priv (E ! i) \<mapsto> ?q), M', m) t" for t :: "'a vnet_scheme"
    unfolding returns_bind
    by (rule vnv_print [OF t], (rule vnv_print, assumption)+,
        rule vnv_priv [where E = E and P = "P(eth_priv (E ! i) \<mapsto> ?q)" and p = ?q and R = "(M', m)"])
      (use i fill in \<open>simp_all add: with_queue_def\<close>)
  show ?thesis
    unfolding virtionet_initialize_queue_def returns_bind
  proof (rule vnv_print [OF s], rule vnv_priv [where E = E and P = P and p = p and R = "(M, m)"], assumption, rule i, rule p)
    fix t :: "'a vnet_scheme"
    assume "vnv (H, E, P(eth_priv (E ! i) \<mapsto> p\<lparr>qsize := of_nat VNET_QSIZE\<rparr>), M, m) t"
    then have t: "vnv (H, E, P(eth_priv (E ! i) \<mapsto> ?q), M, m) t" by (simp add: VNET_QSIZE_def)
    obtain b u where u: "malloc vring_bytes t = (b, u)" by (cases "malloc vring_bytes t")
    with M' [OF t] have "b = a" "vnv (H, E, P(eth_priv (E ! i) \<mapsto> ?q), M', m) u" by auto
    from tail [OF this(2)] this(1) show "returns (let (ptr, s) = malloc vring_bytes t in do {
       s \<leftarrow> puts (str ''[vnet] vring: 0x'') s;
       s \<leftarrow> putn16 ptr s;
       let ptr = vring_align ptr;
       s \<leftarrow> puts (str '' aligned: 0x'') s;
       s \<leftarrow> putn16 ptr s;
       s \<leftarrow> puts [10] s;
       let avail = ptr + VNET_DTABLE_SIZE VNET_QSIZE;
       s \<leftarrow> upd_vnet_priv i (\<lambda>p. p\<lparr>rx_desc := ptr, rx_avail := avail, rx_used := vring_used avail\<rparr>) s;
       Some ((virtionet_desc_init ptr ^^ (VNET_QSIZE div 2)) s) }) Q"
      by (simp add: u VNET_DTABLE_SIZE_def VNET_QSIZE_def Let_def)
  qed
qed

text \<open>
  C21: The receive queue fits the memory that is allocated for it, wherever that is below the end
  of the address space: the two descriptors start on the first page boundary in it, the available ring
  follows them directly, the used ring starts exactly one page after the descriptors and ends inside the
  allocation, so the three do not overlap; and the driver writes nothing but the first
  descriptor. The console is ready and the device has its private structure.
\<close>

theorem virtionet_queue_layout:
  assumes "tty_ready s" and "dev < length (eth_ifs s)" and "vnet_priv_of dev s = Some p"
    and "a = fst (malloc vring_bytes s)" and "unat a + unat vring_bytes < 2 ^ 32"
  shows "\<exists>t q. virtionet_initialize_queue dev s = Some t \<and> vnet_priv_of dev t = Some q \<and>
    vp_iobase q = vp_iobase p \<and> qsize q = 2 \<and>
    unat a \<le> unat (rx_desc q) \<and> unat (rx_desc q) < unat a + 4096 \<and> 4096 dvd unat (rx_desc q) \<and>
    unat (rx_avail q) = unat (rx_desc q) + 2 * 16 \<and>
    unat (rx_used q) = unat (rx_desc q) + 4096 \<and> unat (rx_avail q) + 10 \<le> unat (rx_used q) \<and>
    unat (rx_used q) + 22 \<le> unat a + unat vring_bytes \<and>
    (\<forall>x. 16 \<le> unat (x - rx_desc q) \<longrightarrow> mem t x = mem s x)"
proof -
  have b: "unat vring_bytes = 12392"
    by (simp add: vring_bytes_def VNET_DTABLE_SIZE_def VNET_ARING_SIZE_def VNET_URING_SIZE_def VNET_ALIGN_def VNET_QSIZE_def)
  note lay = vring_used_unat [of a, folded b, OF assms(5)]
  have p: "vnet_privs s (eth_priv (eth_ifs s ! dev)) = Some p" using assms(2,3) by (simp add: vnet_priv_of_def at_def)
  have "returns (virtionet_initialize_queue dev s) (\<lambda>t. vnet_priv_of dev t = Some (with_queue a p) \<and>
      (\<forall>x. 16 \<le> unat (x - vring_align a) \<longrightarrow> mem t x = mem s x))"
  proof (rule queue_vnv [where E = "eth_ifs s" and P = "vnet_privs s" and H = "hw s" and m = "mem s" and
        M = "(mmgmt_start s, mmgmt_counter s, mmgmt_len s)", OF _ assms(2) p assms(4)])
    show "vnv (hw s, eth_ifs s, vnet_privs s, (mmgmt_start s, mmgmt_counter s, mmgmt_len s), mem s) s"
      using assms(1) by (simp add: vnv_def)
  next
    fix M' m' t
    assume t: "vnv (hw s, eth_ifs s, (vnet_privs s)(eth_priv (eth_ifs s ! dev) \<mapsto> with_queue a p), M', m') t"
      "\<forall>x. 16 \<le> unat (x - vring_align a) \<longrightarrow> m' x = mem s x"
    from t(1) have "m' = mem t" "vnet_priv_of dev t = Some (with_queue a p)"
      using vnv_priv_of [OF t(1) assms(2)] by (simp_all add: vnv_def)
    with t(2) show "vnet_priv_of dev t = Some (with_queue a p) \<and> (\<forall>x. 16 \<le> unat (x - vring_align a) \<longrightarrow> mem t x = mem s x)"
      by simp
  qed
  then obtain t where t: "virtionet_initialize_queue dev s = Some t" "vnet_priv_of dev t = Some (with_queue a p)"
      "\<forall>x. 16 \<le> unat (x - vring_align a) \<longrightarrow> mem t x = mem s x"
    by (auto simp: returns_def)
  show ?thesis
    by (rule exI [of _ t], rule exI [of _ "with_queue a p"])
      (use t lay b in \<open>simp add: with_queue_def\<close>)
qed

definition vnet_0 :: vnet where
  "vnet_0 = e1000.extend (e1000_0\<lparr>mmgmt_start := 0x100100, mmgmt_counter := 0, mmgmt_len := 100\<rparr>)
     \<lparr>vnet_privs = [0x1000 \<mapsto> virtionet_priv_zero\<lparr>vp_iobase := 0xC000\<rparr>]\<rparr>"

lemmas vnet_0_defs = vnet_0_def e1000.defs e1000_0_def network.defs net0_def ethernet.defs eth0_def ide.defs
  ide0_def pci.defs pci0_def kbd.defs kbd0_def int0_def interrupts.defs

lemma vnet_0_ok: "tty_ready vnet_0" "0 < length (eth_ifs vnet_0)"
    "vnet_priv_of 0 vnet_0 = Some (virtionet_priv_zero\<lparr>vp_iobase := 0xC000\<rparr>)"
    "0x100100 = fst (malloc vring_bytes vnet_0)" "unat (0x100100 :: LONG) + unat vring_bytes < 2 ^ 32"
  by (simp_all add: vnet_0_defs tty_ready_def vnet_priv_of_def at_def malloc_eq mmgmt_alloc_def Let_def
    vring_bytes_def VNET_DTABLE_SIZE_def VNET_ARING_SIZE_def VNET_URING_SIZE_def VNET_ALIGN_def VNET_QSIZE_def
    del: upt_rec_numeral)

theorem virtionet_queue_layout_witness:
  "\<exists>t q. virtionet_initialize_queue 0 vnet_0 = Some t \<and> vnet_priv_of 0 t = Some q \<and> 4096 dvd unat (rx_desc q)"
  using virtionet_queue_layout [OF vnet_0_ok] by blast

section \<open>The outcome of the initialisation\<close>

text \<open>
  The negotiation as the device sees it: acknowledged, driver loaded, the features read and those
  that the driver knows written back with the checksum one, features chosen.
\<close>

definition loaded :: "LONG \<Rightarrow> io_event list \<Rightarrow> io_event list" where
  "loaded io l = Wr (Port8 (ucast (io + 0x12))) 3 # Wr (Port8 (ucast (io + 0x12))) 1 # l"

definition chosen :: "LONG \<Rightarrow> LONG \<Rightarrow> io_event list \<Rightarrow> io_event list" where
  "chosen io feat l = Wr (Port8 (ucast (io + 0x12))) 0x0B #
     Wr (Port32 (ucast (io + 4))) (feat AND NOT 0x20028580 OR 1) # Rd (Port32 (ucast io)) feat # loaded io l"

lemma virtionet_features_eq: "virtionet_features feat = feat AND NOT 0x20028580 OR 1"
  by (simp add: virtionet_features_def VNET_F_CTRL_VQ_def VNET_F_EVENT_IDX_def VNET_F_GUEST_TSO4_def
    VNET_F_GUEST_TSO6_def VNET_F_GUEST_UFO_def VNET_F_MRG_RXBUF_def VNET_F_CSUM_def)

lemma negotiate_vnv:
  assumes "vnv (H, E, P, R) s" and "i < length E" and "P (eth_priv (E ! i)) = Some p"
    and "\<And>l. H (loaded (vp_iobase p) l) (Port32 (ucast (vp_iobase p))) = feat"
      "\<And>l. H (chosen (vp_iobase p) feat l) (Port32 (ucast (vp_iobase p + 0x12))) = st" and "\<And>t. vnv (H, E, P, R) t \<Longrightarrow> Q (st, t)"
  shows "returns (virtionet_negotiate i s) Q"
proof -
  have p: "vnet_priv_of i (s\<lparr>io_log := l\<rparr>) = Some p" for l
    using assms(1-3) by (simp add: vnet_priv_of_def at_def vnv_def)
  have h: "hw s = H" using assms(1) by (simp add: vnv_def)
  show ?thesis
    using p [of "io_log s"] p h assms(1,6) assms(4,5) [of "io_log s", unfolded chosen_def loaded_def]
    by (simp add: virtionet_negotiate_def virtionet_write_dstatus_def virtionet_read_features_def virtionet_features_eq
      virtionet_write_features_def virtionet_read_reg_def VNET_R_DSTAT_def VNET_R_GFEAT_def VNET_S_DEVACK_def
      VNET_S_DRVLOAD_def VNET_S_FEATOK_def frames Let_def)
qed

lemma load_bytes_vnv:
  fixes s :: "'a vnet_scheme"
  assumes "vnv (H, E, P, R) s" and "i < length E" and "P (eth_priv (E ! i)) = Some p" and "length (eth_addr (E ! i)) = 6"
    and "n \<le> 6" and "length mac = 6"
    and "\<And>l j. j < 6 \<Longrightarrow> ucast (H l (Port8 (ucast (vp_iobase p + 0x14 + of_nat j)))) = (mac ! j :: BYTE)"
  shows "returns (for_each (virtionet_load_byte i) [0..<n] s)
    (vnv (H, E[i := (E ! i)\<lparr>eth_addr := take n mac @ drop n (eth_addr (E ! i))\<rparr>], P, R))"
  using assms(5)
proof (induction n)
  case 0
  then show ?case using assms(1) by simp
next
  case (Suc n)
  let ?E = "\<lambda>n. E[i := (E ! i)\<lparr>eth_addr := take n mac @ drop n (eth_addr (E ! i))\<rparr>]"
  have upd: "(take n mac @ drop n (eth_addr (E ! i)))[n := mac ! n] = take (Suc n) mac @ drop (Suc n) (eth_addr (E ! i))"
    using Suc.prems assms(4,6) by (simp add: take_Suc_conv_app_nth list_update_append Cons_nth_drop_Suc [symmetric])
  have step: "returns (virtionet_load_byte i n t) (vnv (H, ?E (Suc n), P, R))" if t: "vnv (H, ?E n, P, R) t" for t :: "'a vnet_scheme"
  proof -
    have p: "vnet_priv_of i t = Some p" using vnv_priv_of [OF t] assms(2,3) by simp
    have h: "hw t = H" using t by (simp add: vnv_def)
    have "ucast (H l (Port8 (ucast (vp_iobase p + 0x14 + of_nat n)))) = (mac ! n :: BYTE)" for l
      by (rule assms(7)) (use Suc.prems in simp)
    then show ?thesis
      unfolding virtionet_load_byte_def
      using p h by (simp add: frames Let_def VNET_R_MACAD_def)
        (rule vnv_ethdev [where E = "?E n"], use t assms(2) upd in simp_all)
  qed
  then show ?case using Suc by (auto simp: for_each_append returns_bind intro: returns_mono)
qed

text \<open>What is left of the device \<open>d\<close> when the features were accepted, or refused.\<close>

definition vnet_dev :: "LONG \<Rightarrow> vnet_syms \<Rightarrow> BYTE list \<Rightarrow> ethdev \<Rightarrow> ethdev" where
  "vnet_dev st A mac d =
     (if st AND 8 = 0 then d
      else d\<lparr>eth_addr := mac, is_up := vnet_check_link_at A, is_broadcast := vnet_is_broadcast_at A,
        is_multicast := vnet_is_multicast_at A, is_promisc := vnet_is_promisc_at A\<rparr>)"

text \<open>The device after the negotiation.\<close>

lemma accepted_vnv:
  fixes s :: "'a vnet_scheme"
  assumes s: "vnv (H, E, P, M, m) s" and i: "i < length E" and p: "P (eth_priv (E ! i)) = Some p"
    and len: "length (eth_addr (E ! i)) = 6" "length mac = 6"
    and mac: "\<And>l j. j < 6 \<Longrightarrow> ucast (H l (Port8 (ucast (vp_iobase p + 0x14 + of_nat j)))) = (mac ! j :: BYTE)"
    and Q: "\<And>R t. vnv (H, E[i := f ((E ! i)\<lparr>eth_addr := mac\<rparr>)], R) t \<Longrightarrow> Q (0 :: LONG, t)"
  shows "returns (do {
       s \<leftarrow> virtionet_load_macaddr i s;
       s \<leftarrow> virtionet_initialize_queue i s;
       s \<leftarrow> upd_ethdev i f s;
       Some (0, s) }) Q"
proof -
  let ?E = "E[i := (E ! i)\<lparr>eth_addr := mac\<rparr>]"
  have d: "take 6 mac @ drop 6 (eth_addr (E ! i)) = mac" using len by simp
  have load: "returns (virtionet_load_macaddr i s) (vnv (H, ?E, P, M, m))"
    using load_bytes_vnv [OF s i p len(1) order.refl len(2) mac] unfolding d virtionet_load_macaddr_def by blast
  have p': "i < length ?E" "P (eth_priv (?E ! i)) = Some p" using i p by simp_all
  have fin: "returns (upd_ethdev i f t) (\<lambda>t. Q (0, t))" if "vnv (H, ?E, R) t" for R and t :: "'a vnet_scheme"
    by (rule vnv_ethdev [OF that]) (use i Q in simp_all)
  show ?thesis
    unfolding returns_bind
    by (rule returns_mono [OF load], rule queue_vnv [where E = ?E and P = P and p = p, OF _ p' refl], assumption)
      (use fin in simp)
qed

lemma configure_vnv:
  fixes s :: "'a vnet_scheme"
  assumes s: "vnv (H, E, P, M, m) s" and i: "i < length E" and p: "P (eth_priv (E ! i)) = Some p"
    and len: "length (eth_addr (E ! i)) = 6" "length mac = 6"
    and mac: "\<And>l j. j < 6 \<Longrightarrow> ucast (H l (Port8 (ucast (vp_iobase p + 0x14 + of_nat j)))) = (mac ! j :: BYTE)"
    and st: "\<And>l. H (loaded (vp_iobase p) l) (Port32 (ucast (vp_iobase p))) = feat"
      "\<And>l. H (chosen (vp_iobase p) feat l) (Port32 (ucast (vp_iobase p + 0x12))) = st"
    and Q: "\<And>R t. vnv (H, E[i := vnet_dev st A mac (E ! i)], R) t \<Longrightarrow> Q (if st AND 8 = 0 then junk else 0, t)"
  shows "returns (virtionet_configure junk A i s) Q"
proof -
  let ?N = "(H, E, P, M, m)"
  have refused: "returns (puts cs u) (\<lambda>u. Q (junk, u))" if "vnv ?N u" "st AND 8 = 0" for u :: "'a vnet_scheme" and cs
    by (rule vnv_print [OF that(1)]) (use that(2) Q in \<open>simp add: vnet_dev_def\<close>)
  have accepted: "returns (puts cs u) (\<lambda>u. returns (do {
     s \<leftarrow> virtionet_load_macaddr i u;
     s \<leftarrow> virtionet_initialize_queue i s;
     s \<leftarrow> upd_ethdev i (\<lambda>d. d\<lparr>is_up := vnet_check_link_at A, is_broadcast := vnet_is_broadcast_at A,
            is_multicast := vnet_is_multicast_at A, is_promisc := vnet_is_promisc_at A\<rparr>) s;
     Some (0, s) }) Q)" if "vnv ?N u" "st AND 8 \<noteq> 0" for u :: "'a vnet_scheme" and cs
    by (rule vnv_print [OF that(1)], rule accepted_vnv [where E = E and P = P and p = p and mac = mac], assumption)
      (use that(2) i p len mac Q in \<open>simp_all add: vnet_dev_def\<close>)
  show ?thesis
    unfolding virtionet_configure_def returns_bind
    by (rule negotiate_vnv [where E = E and P = P and p = p and st = st and feat = feat and R = "(M, m)", OF s i p])
      (use st refused accepted in \<open>simp_all add: VNET_S_FEATOK_def returns_bind\<close>)
qed

lemma start_vnv:
  fixes s :: "'a vnet_scheme"
  assumes s: "vnv (H, E, P, M, m) s" and i: "i < length E"
    and len: "length (eth_addr (E ! i)) = 6" "length mac = 6"
    and mac: "\<And>l j. j < 6 \<Longrightarrow> ucast (H l (Port8 (ucast (iobase + 0x14 + of_nat j)))) = (mac ! j :: BYTE)"
    and st: "\<And>l. H (loaded iobase l) (Port32 (ucast iobase)) = feat"
      "\<And>l. H (chosen iobase feat l) (Port32 (ucast (iobase + 0x12))) = st"
    and Q: "\<And>a R t. vnv (H, E[i := vnet_dev st A mac ((E ! i)\<lparr>eth_allocated := 1, eth_priv := a\<rparr>)], R) t \<Longrightarrow>
      Q (if st AND 8 = 0 then junk else 0, t)"
  shows "returns (virtionet_start junk A iobase i s) Q"
  unfolding virtionet_start_def returns_bind
proof (rule vnv_ethdev [OF s i])
  fix t :: "'a vnet_scheme"
  let ?E = "\<lambda>a. E[i := (E ! i)\<lparr>eth_allocated := 1, eth_priv := a\<rparr>]" and ?p = "virtionet_priv_zero\<lparr>vp_iobase := iobase\<rparr>"
  assume t: "vnv (H, E[i := (E ! i)\<lparr>eth_allocated := 1\<rparr>], P, M, m) t"
  obtain a u where u: "malloc sizeof_virtionet_priv t = (a, u)" by fastforce
  obtain M' where U: "vnv (H, E[i := (E ! i)\<lparr>eth_allocated := 1\<rparr>], P, M', m) u"
    using malloc_vnv [OF t, of "E[i := (E ! i)\<lparr>eth_allocated := 1\<rparr>]" P m sizeof_virtionet_priv] t u by (metis snd_conv)
  have zero: "vnv (H, ?E a, P(a \<mapsto> virtionet_priv_zero), M', m) (v\<lparr>vnet_privs := (vnet_privs v)(a \<mapsto> virtionet_priv_zero)\<rparr>)"
    if "vnv (H, ?E a, P, M', m) v" for v :: "'a vnet_scheme"
    using that by (simp add: vnv_def tty_ready_def)
  have conf: "returns (virtionet_configure junk A i v) Q" if "vnv (H, ?E a, P(a \<mapsto> ?p), M', m) v" for v :: "'a vnet_scheme"
    by (rule configure_vnv [where E = "?E a" and P = "P(a \<mapsto> ?p)" and p = ?p and st = st and feat = feat and mac = mac, OF that])
      (use i len mac st Q in simp_all)
  have print: "returns (puts cs v) (\<lambda>v. returns (putn16 iobase v) (\<lambda>v. returns (put 10 v) (\<lambda>v. returns (virtionet_configure junk A i v) Q)))"
    if "vnv (H, ?E a, P(a \<mapsto> ?p), M', m) v" for v :: "'a vnet_scheme" and cs
    by (rule vnv_print [OF that], (rule vnv_print, assumption)+) (rule conf)
  show "returns (let (a, s) = malloc sizeof_virtionet_priv t in do {
     s \<leftarrow> upd_ethdev i (\<lambda>d. d\<lparr>eth_priv := a\<rparr>) s;
     let s = s\<lparr>vnet_privs := (vnet_privs s)(a \<mapsto> virtionet_priv_zero)\<rparr>;
     s \<leftarrow> upd_vnet_priv i (\<lambda>p. p\<lparr>vp_iobase := iobase\<rparr>) s;
     s \<leftarrow> puts (str ''[vnet] IO base: '') s;
     s \<leftarrow> putn16 iobase s;
     s \<leftarrow> put 10 s;
     virtionet_configure junk A i s }) Q"
    unfolding u Let_def prod.case returns_bind
    by (rule vnv_ethdev [OF U], simp add: i,
        rule vnv_priv [where E = "?E a" and P = "P(a \<mapsto> virtionet_priv_zero)" and p = virtionet_priv_zero and R = "(M', m)"])
      (use i zero print in simp_all)
qed

text \<open>The two registers of its configuration space that the driver reads.\<close>

definition sss_at :: "LONG \<Rightarrow> LONG \<Rightarrow> LONG \<Rightarrow> LONG" where
  "sss_at b d f = push_bit 16 b OR push_bit 11 d OR push_bit 8 f OR 0x2C OR 0x80000000"

lemma sss_at_eq:
  assumes "b < 256" "d < 256" "f < 256"
  shows "pci_cfg_addr (ucast b) (ucast d) (ucast f) 0x2E = sss_at b d f"
  using assms by (simp add: pci_cfg_addr_def sss_at_def ucast_byte)

lemma vnet_cfg:
  assumes "b < 256" "d < 256" "f < 256"
  shows "(\<And>l. hw s (Wr (Port32 0xCF8) (bar0_at b d f) # l) (Port32 0xCFC) = bar) \<Longrightarrow>
      \<exists>l. pci_cfg_read_bar b d f 0 s = (bar, s\<lparr>io_log := l\<rparr>)"
    and "(\<And>l. hw s (Wr (Port32 0xCF8) (sss_at b d f) # l) (Port32 0xCFC) = w) \<Longrightarrow>
      \<exists>l. pci_cfg_readw (ucast b) (ucast d) (ucast f) PCI_CFG_SSS s = (ucast (drop_bit 16 w), s\<lparr>io_log := l\<rparr>)"
  using assms
  by (auto simp: pci_cfg_read_bar_def pci_cfg_readl_def pci_cfg_readw_def PCI_CFG_BR0_def PCI_CFG_SSS_def frames Let_def
    bar0_at_eq sss_at_eq)

lemma drvfail_vnv:
  assumes "vnv N s"
    and "\<And>t. vnv N t \<Longrightarrow> hd (io_log t) = Wr (Port8 (ucast (iobase + 0x12))) 0x80 \<Longrightarrow> Q (1 :: LONG, t)"
  shows "returns (puts cs s) (\<lambda>s. returns (Some (1, virtionet_drvfail iobase s)) Q)"
  by (rule vnv_print [OF assms(1)])
    (use assms(2) in \<open>simp add: virtionet_drvfail_def VNET_R_DSTAT_def VNET_S_DRVFAIL_def frames\<close>)

lemma probe_vnv:
  fixes s :: "'a vnet_scheme"
  assumes s: "vnv (H, E, P, M, m) s" "\<And>l. H (Wr (Port32 0xCF8) (sss_at b d f) # l) (Port32 0xCFC) = w"
    and bdf: "b < 256" "d < 256" "f < 256" and sub: "sub = (ucast (drop_bit 16 w) :: WORD)"
    and len: "\<And>e. e \<in> set E \<Longrightarrow> length (eth_addr e) = 6" "length mac = 6"
    and mac: "\<And>l j. j < 6 \<Longrightarrow> ucast (H l (Port8 (ucast (iobase + 0x14 + of_nat j)))) = (mac ! j :: BYTE)"
    and st: "\<And>l. H (loaded iobase l) (Port32 (ucast iobase)) = feat"
      "\<And>l. H (chosen iobase feat l) (Port32 (ucast (iobase + 0x12))) = st"
    and fail: "\<And>t. sub \<noteq> 1 \<or> first_free (\<lambda>e. eth_allocated e = 0) E = None \<Longrightarrow> vnv (H, E, P, M, m) t \<Longrightarrow>
      hd (io_log t) = Wr (Port8 (ucast (iobase + 0x12))) 0x80 \<Longrightarrow> Q (1, t)"
    and ok: "\<And>i a R t. sub = 1 \<Longrightarrow> first_free (\<lambda>e. eth_allocated e = 0) E = Some i \<Longrightarrow>
      vnv (H, E[i := vnet_dev st A mac ((E ! i)\<lparr>mtu := 1500, eth_allocated := 1, eth_priv := a\<rparr>)], R) t \<Longrightarrow>
      Q (if st AND 8 = 0 then junk else 0, t)"
  shows "returns (virtionet_probe junk A iobase b d f s) Q"
proof -
  have h: "hw s = H" using s(1) by (simp add: vnv_def)
  then obtain l where r: "pci_cfg_readw (ucast b) (ucast d) (ucast f) PCI_CFG_SSS s = (sub, s\<lparr>io_log := l\<rparr>)"
    using vnet_cfg(2) [OF bdf, of s w] s(2) sub by metis
  define u where "u = s\<lparr>io_log := l\<rparr>"
  have u: "vnv (H, E, P, M, m) u" using s(1) by (simp add: u_def)
  then have E: "eth_ifs u = E" by (simp add: vnv_def)
  show ?thesis
  proof (cases "if sub = 1 then first_free (\<lambda>e. eth_allocated e = 0) E else None")
    case None
    then have n: "sub \<noteq> 1 \<or> first_free (\<lambda>e. eth_allocated e = 0) E = None" by (auto split: if_splits)
    have "returns (puts cs u) (\<lambda>s. returns (Some (1, virtionet_drvfail iobase s)) Q)" for cs
      by (rule drvfail_vnv [OF u]) (rule fail [OF n])
    then show ?thesis
      using n by (auto simp: virtionet_probe_def r returns_bind ethernet_allocate_def E simp flip: u_def)
  next
    case (Some i)
    then have i: "sub = 1" "first_free (\<lambda>e. eth_allocated e = 0) E = Some i" by (auto split: if_splits)
    have il: "i < length E" using first_free_Some [OF i(2)] by auto
    let ?E = "E[i := (E ! i)\<lparr>eth_allocated := 1, mtu := 1500\<rparr>]"
    have v: "vnv (H, ?E, P, M, m) (u\<lparr>eth_ifs := ?E\<rparr>)" using u by (simp add: vnv_def tty_ready_def)
    have "returns (virtionet_start junk A iobase i (u\<lparr>eth_ifs := ?E\<rparr>)) Q"
      by (rule start_vnv [OF v, where st = st and feat = feat and mac = mac]) (use il len mac st ok [OF i] in simp_all)
    then show ?thesis
      using i by (simp add: virtionet_probe_def r ethernet_allocate_def E Let_def flip: u_def)
  qed
qed


text \<open>A device with the base address 0xC000 that offers all features and accepts what is chosen.\<close>

definition vnet_1 :: vnet where
  "vnet_1 = vnet_0\<lparr>hw := \<lambda>l r. (case r of
       Port32 p \<Rightarrow> if p = 0xCFC then (case l of Wr q a # _ \<Rightarrow> if a = 0x80001810 then 0xC001 else 0x10000 | _ \<Rightarrow> 0)
         else if p = 0xC000 then 0xFFFFFFFF else (case l of Wr q a # _ \<Rightarrow> a | _ \<Rightarrow> 0)
     | Port8 _ \<Rightarrow> 0x52 | _ \<Rightarrow> 0)\<rparr>"

lemma vnet_1_table: "tty_ready vnet_1" "first_free (\<lambda>e. eth_allocated e = 0) (eth_ifs vnet_1) = Some 1"
    "\<And>e. e \<in> set (eth_ifs vnet_1) \<Longrightarrow> length (eth_addr e) = 6" "length (eth_ifs vnet_1) = 16"
  by (auto simp: vnet_1_def vnet_0_defs tty_ready_def ethdev_zero_def numeral_eq_Suc simp del: upt_rec_numeral)

lemma vnet_1_hw:
    "hw vnet_1 (Wr (Port32 0xCF8) a # l) (Port32 0xCFC) = (if a = 0x80001810 then 0xC001 else 0x10000)"
    "hw vnet_1 l (Port8 p) = 0x52" "hw vnet_1 l (Port32 0xC000) = 0xFFFFFFFF"
    "hw vnet_1 (chosen x y l) (Port32 0xC012) = 0x0B"
  by (simp_all add: vnet_1_def chosen_def)

lemmas vnet_1_ok = vnet_1_table vnet_1_hw


end
