(* ===== verification/Switch.thy ===== *)
theory Switch
  imports Interrupts
begin

text \<open>
  The saved contexts of processes, \<^verbatim>\<open>kernel/switch.c\<close>, which nothing calls yet: the choice of
  the next context returns the first one before its loop.
\<close>

definition MAX_PROC :: nat where "MAX_PROC = 8"

type_synonym proc_ctx = regs

record switch =
  switch_contexts :: "proc_ctx list"
  switch_proc_flags :: "LONG list"
  switch_ctx :: LONG
  switch_current_ctx :: LONG

definition proc_ctx_zero :: proc_ctx where
  "proc_ctx_zero = \<lparr>r_ds = 0, edi = 0, esi = 0, ebp = 0, esp = 0, ebx = 0, edx = 0, ecx = 0, eax = 0,
     int_no = 0, err_code = 0, eip = 0, r_cs = 0, eflags = 0, useresp = 0, r_ss = 0\<rparr>"

definition switch_setup :: "switch \<Rightarrow> switch" where
  "switch_setup s = s\<lparr>switch_contexts := replicate MAX_PROC proc_ctx_zero, switch_proc_flags := replicate MAX_PROC 0\<rparr>"

definition switch_switchnext :: "switch \<Rightarrow> proc_ctx \<times> switch" where
  "switch_switchnext s = (switch_contexts s ! 0, s)"

text \<open>The result is a pointer into the array, here the index of the context.\<close>

definition switch_get_current :: "switch \<Rightarrow> nat" where
  "switch_get_current s = unat (switch_current_ctx s)"

text \<open>However often the next context is asked for after the setup, it is the cleared first one.\<close>

lemma switchnext_stays:
  "((\<lambda>s. snd (switch_switchnext s)) ^^ n) (switch_setup s) = switch_setup s \<and>
   fst (switch_switchnext (switch_setup s)) = proc_ctx_zero"
proof -
  have "snd \<circ> switch_switchnext = id" by (simp add: fun_eq_iff switch_switchnext_def)
  then have "((\<lambda>s. snd (switch_switchnext s)) ^^ n) = id" by (simp add: comp_def)
  then show ?thesis by (simp add: switch_switchnext_def switch_setup_def MAX_PROC_def)
qed

end
